(* ===== verification/Kx_Prelude.thy ===== *)
theory Kx_Prelude
  imports Main "HOL-Library.Word"
begin

text \<open>
  Shared vocabulary of the Kortecx development: the machine integers of the Rust
  sources, byte strings and their little/big-endian codings, the \<open>Result\<close> type
  with its \<open>?\<close> operator, and the ordered map that models \<open>BTreeMap\<close>.
  Every component theory builds on the lemma collections declared here.
\<close>

section \<open>Lemma collections\<close>

named_theorems result_simps \<open>case rules of the result type\<close>
named_theorems wire_simps \<open>lengths and round trips of the byte codings\<close>
named_theorems btree_simps \<open>lookup rules of the ordered map\<close>

section \<open>Machine integers and byte strings\<close>

text \<open>
  \<open>[u8; 32]\<close> and \<open>[u8; 16]\<close> arrays are modelled by the word whose big-endian
  bytes they are: the derived \<open>Ord\<close> of an array is lexicographic, hence the
  unsigned order of that word.
\<close>

type_synonym u8 = "8 word"
type_synonym u16 = "16 word"
type_synonym u32 = "32 word"
type_synonym u64 = "64 word"
type_synonym u128 = "128 word"
type_synonym bytes = "8 word list"
type_synonym array32 = "256 word"
type_synonym array16 = "128 word"

text \<open>The hash function \<open>blake3\<close> is third-party code: a parameter of the model.\<close>

type_synonym hash_fn = "8 word list \<Rightarrow> 256 word"

text \<open>\<open>to_le_bytes\<close> of an \<open>n\<close>-byte integer and \<open>from_le_bytes\<close>.\<close>

primrec le_bytes :: "nat \<Rightarrow> 'a::len word \<Rightarrow> bytes" where
  "le_bytes 0 w = []"
| "le_bytes (Suc n) w = ucast w # le_bytes n (drop_bit 8 w)"

primrec le_word :: "bytes \<Rightarrow> 'a::len word" where
  "le_word [] = 0"
| "le_word (b # bs) = or (ucast b) (push_bit 8 (le_word bs))"

text \<open>The bytes of an array value, most significant first.\<close>

definition be_bytes :: "nat \<Rightarrow> 'a::len word \<Rightarrow> bytes" where
  "be_bytes n w = rev (le_bytes n w)"

definition be_word :: "bytes \<Rightarrow> 'a::len word" where
  "be_word bs = le_word (rev bs)"

abbreviation bytes32 :: "array32 \<Rightarrow> bytes" where
  "bytes32 \<equiv> be_bytes 32"

abbreviation bytes16 :: "array16 \<Rightarrow> bytes" where
  "bytes16 \<equiv> be_bytes 16"

lemma length_le_bytes [simp, wire_simps]: "length (le_bytes n w) = n"
  by (induction n arbitrary: w) simp_all

lemma length_be_bytes [simp, wire_simps]: "length (be_bytes n w) = n"
  by (simp add: be_bytes_def)

lemma le_word_le_bytes_take:
  "le_word (le_bytes n w) = take_bit (8 * n) (w :: 'a::len word)"
proof (induction n arbitrary: w)
  case 0
  show ?case by simp
next
  case (Suc n)
  show ?case
    by (rule bit_word_eqI)
      (auto simp: Suc bit_simps not_less le_less_Suc_eq)
qed

lemma le_word_le_bytes [simp, wire_simps]:
  assumes "LENGTH('a) \<le> 8 * n"
  shows "le_word (le_bytes n w) = (w :: 'a::len word)"
  using assms by (simp add: le_word_le_bytes_take take_bit_word_eq_self)

lemma bit_le_word_imp_less:
  "bit (le_word bs :: 'a::len word) i \<Longrightarrow> i < 8 * length bs"
proof (induction bs arbitrary: i)
  case Nil
  then show ?case by simp
next
  case (Cons b bs)
  then show ?case
    by (auto simp: bit_simps dest: bit_imp_le_length) fastforce+
qed

lemma le_bytes_le_word [simp, wire_simps]:
  assumes "8 * length bs \<le> LENGTH('a)"
  shows "le_bytes (length bs) (le_word bs :: 'a::len word) = bs"
  using assms
proof (induction bs)
  case Nil
  show ?case by simp
next
  case (Cons b bs)
  have low: "ucast (le_word (b # bs) :: 'a word) = b"
    using Cons.prems by (intro bit_word_eqI) (auto simp: bit_simps)
  have high: "drop_bit 8 (le_word (b # bs)) = (le_word bs :: 'a word)"
  proof (rule bit_word_eqI)
    fix i assume "i < LENGTH('a)"
    show "bit (drop_bit 8 (le_word (b # bs)) :: 'a word) i = bit (le_word bs :: 'a word) i"
      using Cons.prems bit_le_word_imp_less [of bs i, where 'a = 'a]
      by (auto simp: bit_simps dest: bit_imp_le_length)
  qed
  show ?case
    using Cons by (simp add: low high del: le_word.simps)
qed

lemma be_word_be_bytes [simp, wire_simps]:
  assumes "LENGTH('a) \<le> 8 * n"
  shows "be_word (be_bytes n w) = (w :: 'a::len word)"
  using assms by (simp add: be_word_def be_bytes_def)

lemma be_bytes_be_word:
  assumes "8 * length bs \<le> LENGTH('a)"
  shows "be_bytes (length bs) (be_word bs :: 'a::len word) = bs"
  using assms le_bytes_le_word [of "rev bs", where 'a = 'a]
  by (simp add: be_word_def be_bytes_def)

lemma be_bytes_inject:
  assumes "LENGTH('a) \<le> 8 * n"
  shows "be_bytes n v = be_bytes n w \<longleftrightarrow> v = (w :: 'a::len word)"
  using be_word_be_bytes [OF assms] by metis

lemma le_bytes_inject:
  assumes "LENGTH('a) \<le> 8 * n"
  shows "le_bytes n v = le_bytes n w \<longleftrightarrow> v = (w :: 'a::len word)"
  using le_word_le_bytes [OF assms] by metis

lemma le_bytes_append_inject [wire_simps]:
  assumes "LENGTH('a) \<le> 8 * n"
  shows "le_bytes n v @ r = le_bytes n w @ r' \<longleftrightarrow> v = (w :: 'a::len word) \<and> r = r'"
  using le_bytes_inject [OF assms] by simp

lemma be_bytes_append_inject [wire_simps]:
  assumes "LENGTH('a) \<le> 8 * n"
  shows "be_bytes n v @ r = be_bytes n w @ r' \<longleftrightarrow> v = (w :: 'a::len word) \<and> r = r'"
  using be_bytes_inject [OF assms] by simp

lemma of_nat_word_inject:
  assumes "m < 2 ^ LENGTH('a)" "n < 2 ^ LENGTH('a)"
  shows "(of_nat m :: 'a::len word) = of_nat n \<longleftrightarrow> m = n"
  using assms by (simp add: word_of_nat_eq_iff take_bit_nat_eq_self)

lemma unat_of_nat_small:
  assumes "n < 2 ^ LENGTH('a)"
  shows "unat (of_nat n :: 'a::len word) = n"
  using assms by (simp add: unsigned_of_nat take_bit_nat_eq_self)

section \<open>Results\<close>

text \<open>\<open>Result<T, E>\<close> is a sum with the error on the left; \<open>and_then\<close> is the \<open>?\<close> operator.\<close>

type_synonym ('e, 'a) result = "'e + 'a"

definition and_then :: "('e, 'a) result \<Rightarrow> ('a \<Rightarrow> ('e, 'b) result) \<Rightarrow> ('e, 'b) result" where
  "and_then m f = (case m of Inl e \<Rightarrow> Inl e | Inr x \<Rightarrow> f x)"

definition ok_or :: "'a option \<Rightarrow> 'e \<Rightarrow> ('e, 'a) result" where
  "ok_or x e = (case x of None \<Rightarrow> Inl e | Some y \<Rightarrow> Inr y)"

definition map_err :: "('e \<Rightarrow> 'f) \<Rightarrow> ('e, 'a) result \<Rightarrow> ('f, 'a) result" where
  "map_err g m = (case m of Inl e \<Rightarrow> Inl (g e) | Inr x \<Rightarrow> Inr x)"

lemma and_then_simps [simp, result_simps]:
  "and_then (Inl e) f = Inl e"
  "and_then (Inr x) f = f x"
  by (simp_all add: and_then_def)

lemma ok_or_simps [simp, result_simps]:
  "ok_or None e = Inl e"
  "ok_or (Some x) e = Inr x"
  by (simp_all add: ok_or_def)

lemma map_err_simps [simp, result_simps]:
  "map_err g (Inl e) = Inl (g e)"
  "map_err g (Inr x) = Inr x"
  by (simp_all add: map_err_def)

lemma and_then_eq_Inr:
  "and_then m f = Inr y \<longleftrightarrow> (\<exists>x. m = Inr x \<and> f x = Inr y)"
  by (cases m) auto

lemma ok_or_eq_Inr [simp]: "ok_or x e = Inr y \<longleftrightarrow> x = Some y"
  by (cases x) auto

lemma map_err_eq_Inr [simp]: "map_err g m = Inr y \<longleftrightarrow> m = Inr y"
  by (cases m) auto

section \<open>Ordered maps\<close>

text \<open>
  A \<open>BTreeMap\<close> is the association list of its entries in ascending key order.
  Iteration order is observable in the sources (ready sets, anomaly scans, chain
  listings), so the model keeps the list; lookup is \<^const>\<open>map_of\<close>.
\<close>

type_synonym ('k, 'v) btree = "('k \<times> 'v) list"

definition bt_inv :: "('k::linorder, 'v) btree \<Rightarrow> bool" where
  "bt_inv m = sorted_wrt (<) (map fst m)"

fun bt_insert :: "'k::linorder \<Rightarrow> 'v \<Rightarrow> ('k, 'v) btree \<Rightarrow> ('k, 'v) btree" where
  "bt_insert k v [] = [(k, v)]"
| "bt_insert k v ((k', v') # m) =
     (if k < k' then (k, v) # (k', v') # m
      else if k = k' then (k, v) # m
      else (k', v') # bt_insert k v m)"

definition bt_remove :: "'k::linorder \<Rightarrow> ('k, 'v) btree \<Rightarrow> ('k, 'v) btree" where
  "bt_remove k m = filter (\<lambda>(k', _). k' \<noteq> k) m"

definition bt_keys :: "('k::linorder, 'v) btree \<Rightarrow> 'k list" where
  "bt_keys m = map fst m"

text \<open>\<open>entry(k).or_insert(d)\<close> followed by a mutation of the slot.\<close>

definition bt_entry_upd :: "'k::linorder \<Rightarrow> 'v \<Rightarrow> ('v \<Rightarrow> 'v) \<Rightarrow> ('k, 'v) btree \<Rightarrow> ('k, 'v) btree" where
  "bt_entry_upd k d f m = bt_insert k (f (case map_of m k of None \<Rightarrow> d | Some v \<Rightarrow> v)) m"

lemma bt_inv_Nil [simp, btree_simps]: "bt_inv []"
  by (simp add: bt_inv_def)

lemma bt_inv_Cons [simp]:
  "bt_inv ((k, v) # m) \<longleftrightarrow> (\<forall>k' \<in> fst ` set m. k < k') \<and> bt_inv m"
  by (auto simp: bt_inv_def)

lemma map_of_bt_insert [simp, btree_simps]: "map_of (bt_insert k v m) = (map_of m)(k \<mapsto> v)"
  by (induction k v m rule: bt_insert.induct) auto

lemma keys_bt_insert [simp, btree_simps]: "fst ` set (bt_insert k v m) = insert k (fst ` set m)"
  by (induction k v m rule: bt_insert.induct) auto

lemma bt_inv_insert [simp, btree_simps]: "bt_inv m \<Longrightarrow> bt_inv (bt_insert k v m)"
  by (induction k v m rule: bt_insert.induct) (auto simp: not_less)

lemma map_of_bt_remove [simp, btree_simps]: "map_of (bt_remove k m) = (map_of m)(k := None)"
  by (induction m) (auto simp: bt_remove_def)

lemma bt_inv_remove [simp, btree_simps]: "bt_inv m \<Longrightarrow> bt_inv (bt_remove k m)"
  by (induction m) (auto simp: bt_remove_def)

lemma map_of_bt_entry_upd [simp, btree_simps]:
  "map_of (bt_entry_upd k d f m) =
     (map_of m)(k \<mapsto> f (case map_of m k of None \<Rightarrow> d | Some v \<Rightarrow> v))"
  by (simp add: bt_entry_upd_def)

lemma bt_inv_entry_upd [simp, btree_simps]: "bt_inv m \<Longrightarrow> bt_inv (bt_entry_upd k d f m)"
  by (simp add: bt_entry_upd_def)

lemma bt_inv_distinct: "bt_inv m \<Longrightarrow> distinct (map fst m)"
  by (induction m) (auto simp: bt_inv_def)

lemma bt_ext:
  assumes "bt_inv m" "bt_inv n" "map_of m = map_of n"
  shows "m = n"
proof -
  have "set m = set n"
    using assms map_of_inject_set bt_inv_distinct by blast
  then show ?thesis
    using assms(1,2) bt_inv_distinct
    by (intro map_sorted_distinct_set_unique [of fst])
      (auto simp: bt_inv_def strict_sorted_iff inj_on_def eq_key_imp_eq_value)
qed

section \<open>Ordered sets\<close>

text \<open>A \<open>BTreeSet\<close> is the list of its members in ascending order.\<close>

type_synonym 'k bset = "'k list"

definition bs_inv :: "'k::linorder bset \<Rightarrow> bool" where
  "bs_inv = sorted_wrt (<)"

definition bs_insert :: "'k::linorder \<Rightarrow> 'k bset \<Rightarrow> 'k bset" where
  "bs_insert x s = insort_insert x s"

definition bs_remove :: "'k::linorder \<Rightarrow> 'k bset \<Rightarrow> 'k bset" where
  "bs_remove x s = filter (\<lambda>y. y \<noteq> x) s"

lemma set_bs_insert [simp, btree_simps]: "set (bs_insert x s) = insert x (set s)"
  by (simp add: bs_insert_def set_insort_insert)

lemma set_bs_remove [simp, btree_simps]: "set (bs_remove x s) = set s - {x}"
  by (auto simp: bs_remove_def)

lemma bs_inv_Nil [simp, btree_simps]: "bs_inv []"
  by (simp add: bs_inv_def)

lemma bs_inv_insert [simp, btree_simps]: "bs_inv s \<Longrightarrow> bs_inv (bs_insert x s)"
  by (simp add: bs_inv_def bs_insert_def strict_sorted_iff sorted_insort_insert distinct_insort_insert)

lemma bs_inv_remove [simp, btree_simps]: "bs_inv s \<Longrightarrow> bs_inv (bs_remove x s)"
  by (simp add: bs_inv_def bs_remove_def sorted_wrt_filter)

lemma bs_inv_distinct: "bs_inv s \<Longrightarrow> distinct s"
  by (simp add: bs_inv_def strict_sorted_iff)

lemma bs_ext: "bs_inv s \<Longrightarrow> bs_inv t \<Longrightarrow> set s = set t \<Longrightarrow> s = t"
  by (simp add: bs_inv_def strict_sorted_equal)

text \<open>What a client of an ordered map relies on.\<close>

locale ordered_map =
  fixes mempty :: "'m"
    and mget :: "'m \<Rightarrow> 'k::linorder \<Rightarrow> 'v option"
    and minsert :: "'k \<Rightarrow> 'v \<Rightarrow> 'm \<Rightarrow> 'm"
    and mremove :: "'k \<Rightarrow> 'm \<Rightarrow> 'm"
    and mkeys :: "'m \<Rightarrow> 'k list"
    and minv :: "'m \<Rightarrow> bool"
  assumes get_empty: "mget mempty k = None"
    and get_insert: "minv m \<Longrightarrow> mget (minsert k v m) = (mget m)(k \<mapsto> v)"
    and get_remove: "minv m \<Longrightarrow> mget (mremove k m) = (mget m)(k := None)"
    and keys_sorted: "minv m \<Longrightarrow> sorted_wrt (<) (mkeys m)"
    and keys_dom: "minv m \<Longrightarrow> set (mkeys m) = dom (mget m)"
    and inv_empty: "minv mempty"
    and inv_insert: "minv m \<Longrightarrow> minv (minsert k v m)"
    and inv_remove: "minv m \<Longrightarrow> minv (mremove k m)"
begin

lemma finite_dom_get: "minv m \<Longrightarrow> finite (dom (mget m))"
  using keys_dom [of m] by (metis finite_set)

lemma keys_canonical: "minv m \<Longrightarrow> mkeys m = sorted_list_of_set (dom (mget m))"
  using keys_sorted [of m] keys_dom [of m] finite_dom_get [of m]
  by (metis sorted_list_of_set.idem_if_sorted_distinct strict_sorted_iff)

lemma keys_insert:
  assumes "minv m"
  shows "mkeys (minsert k v m) = sorted_list_of_set (insert k (dom (mget m)))"
  using assms by (simp add: keys_canonical inv_insert get_insert)

lemma insert_commute:
  assumes "minv m" "k \<noteq> k'"
  shows "mget (minsert k v (minsert k' v' m)) = mget (minsert k' v' (minsert k v m))"
  using assms by (auto simp: get_insert inv_insert fun_upd_twist)

lemma remove_insert:
  assumes "minv m" "mget m k = None"
  shows "mget (mremove k (minsert k v m)) = mget m"
  using assms by (auto simp: get_insert get_remove inv_insert)

end

interpretation bt: ordered_map "[]" map_of bt_insert bt_remove bt_keys bt_inv
proof (standard, goal_cases)
  case (4 m)
  then show ?case by (simp add: bt_keys_def bt_inv_def)
next
  case (5 m)
  then show ?case by (simp add: bt_keys_def dom_map_of_conv_image_fst)
qed simp_all

end
