(* ===== verification/Kx_Critic_Types.thy ===== *)
theory Kx_Critic_Types
  imports Kx_Prelude
begin

text \<open>
  The vocabulary of deterministic critics (\<open>crates/kx-critic-types\<close>): the check
  specification a critic Mote carries in its definition, the verdict it commits,
  and the canonical byte folding of a specification. The main lemma shows the
  folding is injective, so a change of the declared check changes the folded bytes.
\<close>

section \<open>Check specifications (spec.rs)\<close>

datatype tensor_dtype_tag = F32 | F16 | BF16 | I64 | I32 | U8 | BoolT

fun dtype_as_u8 :: "tensor_dtype_tag \<Rightarrow> u8" where
  "dtype_as_u8 F32 = 0"
| "dtype_as_u8 F16 = 1"
| "dtype_as_u8 BF16 = 2"
| "dtype_as_u8 I64 = 3"
| "dtype_as_u8 I32 = 4"
| "dtype_as_u8 U8 = 5"
| "dtype_as_u8 BoolT = 6"

fun byte_width :: "tensor_dtype_tag \<Rightarrow> u64" where
  "byte_width F32 = 4"
| "byte_width I32 = 4"
| "byte_width F16 = 2"
| "byte_width BF16 = 2"
| "byte_width I64 = 8"
| "byte_width U8 = 1"
| "byte_width BoolT = 1"

datatype schema_tag =
    Blob
  | TextS
  | Json
  | Tensor tensor_dtype_tag "u64 list"
  | Vector u32
  | Image
  | Audio

datatype record_framing =
    LinesLf
  | LengthPrefixedU32
  | FixedWidth u32

datatype stat_kind = RecordCount | MeanScaled | MinScaled | MaxScaled

datatype pii_class = Email | IpV4 | CreditCardLuhn | UsSsn

record dedup_spec =
  ds_framing :: record_framing
  ds_key_range :: "(u32 \<times> u32) option"

record stat_bounds_spec =
  sb_framing :: record_framing
  sb_stat :: stat_kind
  sb_scale :: u32
  sb_lo_scaled :: u64
  sb_hi_scaled :: u64
  sb_numeric_field_range :: "(u32 \<times> u32) option"

datatype check_spec =
    SchemaCheck schema_tag
  | DedupCheck dedup_spec
  | StatBoundsCheck stat_bounds_spec
  | PiiLeakCheck "pii_class set"
  | LlmJudge u32

datatype check_kind = CKSchema | CKDedup | CKStatBounds | CKPiiLeak | CKLlmJudge

fun check_kind_of :: "check_spec \<Rightarrow> check_kind" where
  "check_kind_of (SchemaCheck _) = CKSchema"
| "check_kind_of (DedupCheck _) = CKDedup"
| "check_kind_of (StatBoundsCheck _) = CKStatBounds"
| "check_kind_of (PiiLeakCheck _) = CKPiiLeak"
| "check_kind_of (LlmJudge _) = CKLlmJudge"

fun is_llm_judge :: "check_spec \<Rightarrow> bool" where
  "is_llm_judge (LlmJudge _) = True"
| "is_llm_judge _ = False"

section \<open>Verdicts (verdict.rs)\<close>

datatype schema_fault =
    TagMismatch
  | ShapeMismatch u64 u64
  | NotUtf8 u64
  | NotJson u64

datatype critic_reason =
    SchemaMismatch schema_tag schema_fault
  | DuplicateDetected u64 u64
  | StatOutOfBounds stat_kind u64 u64 u64
  | PiiLeak pii_class u64 u64
  | Unparseable check_kind u64
  | JudgeRejected u16

datatype critic_verdict = VValid | VInvalid critic_reason

fun verdict_is_valid :: "critic_verdict \<Rightarrow> bool" where
  "verdict_is_valid VValid = True"
| "verdict_is_valid (VInvalid _) = False"

datatype verdict_decode_error = UnknownSchemaVersion u16 | Malformed

definition CRITIC_SCHEMA_VERSION :: u16 where
  "CRITIC_SCHEMA_VERSION = 1"

text \<open>
  \<open>CriticVerdict::encode\<close> and \<open>decode\<close> frame the bincode body with the two version
  bytes. The bincode codec of the body is third-party: \<open>enc\<close> gives the body's bytes and
  \<open>dec\<close> the decoded value with the number of bytes it consumed.
\<close>

definition verdict_encode :: "(critic_verdict \<Rightarrow> bytes) \<Rightarrow> critic_verdict \<Rightarrow> bytes" where
  "verdict_encode enc v = le_bytes 2 CRITIC_SCHEMA_VERSION @ enc v"

definition verdict_decode ::
  "(bytes \<Rightarrow> (critic_verdict \<times> nat) option) \<Rightarrow> bytes \<Rightarrow> (verdict_decode_error, critic_verdict) result"
where
  "verdict_decode dec bs =
     (if length bs < 2 then Inl Malformed
      else let version = le_word (take 2 bs); body = drop 2 bs in
        if version \<noteq> CRITIC_SCHEMA_VERSION then Inl (UnknownSchemaVersion version)
        else case dec body of
            None \<Rightarrow> Inl Malformed
          | Some (v, consumed) \<Rightarrow> if consumed \<noteq> length body then Inl Malformed else Inr v)"

section \<open>Canonical folding of a specification\<close>

fun schema_hash_into :: "schema_tag \<Rightarrow> bytes" where
  "schema_hash_into Blob = [0]"
| "schema_hash_into TextS = [1]"
| "schema_hash_into Json = [2]"
| "schema_hash_into (Tensor dtype shape) =
     [3, dtype_as_u8 dtype] @ le_bytes 8 (of_nat (length shape) :: u64)
       @ concat (map (le_bytes 8) shape)"
| "schema_hash_into (Vector dim) = [4] @ le_bytes 4 dim"
| "schema_hash_into Image = [5]"
| "schema_hash_into Audio = [6]"

fun framing_hash_into :: "record_framing \<Rightarrow> bytes" where
  "framing_hash_into LinesLf = [0]"
| "framing_hash_into LengthPrefixedU32 = [1]"
| "framing_hash_into (FixedWidth width) = [2] @ le_bytes 4 width"

fun hash_key_range :: "(u32 \<times> u32) option \<Rightarrow> bytes" where
  "hash_key_range None = [0]"
| "hash_key_range (Some (start, end_pos)) = [1] @ le_bytes 4 start @ le_bytes 4 end_pos"

fun stat_tag :: "stat_kind \<Rightarrow> u8" where
  "stat_tag RecordCount = 0"
| "stat_tag MeanScaled = 1"
| "stat_tag MinScaled = 2"
| "stat_tag MaxScaled = 3"

fun pii_tag :: "pii_class \<Rightarrow> u8" where
  "pii_tag Email = 0"
| "pii_tag IpV4 = 1"
| "pii_tag CreditCardLuhn = 2"
| "pii_tag UsSsn = 3"

text \<open>The ascending iteration of a \<open>BTreeSet<PiiClass>\<close>.\<close>

definition pii_iter :: "pii_class set \<Rightarrow> pii_class list" where
  "pii_iter S = filter (\<lambda>c. c \<in> S) [Email, IpV4, CreditCardLuhn, UsSsn]"

fun hash_into :: "check_spec \<Rightarrow> bytes" where
  "hash_into (SchemaCheck s) = [0] @ schema_hash_into s"
| "hash_into (DedupCheck s) = [1] @ framing_hash_into (ds_framing s) @ hash_key_range (ds_key_range s)"
| "hash_into (StatBoundsCheck s) =
     [2] @ framing_hash_into (sb_framing s) @ [stat_tag (sb_stat s)] @ le_bytes 4 (sb_scale s)
       @ le_bytes 8 (sb_lo_scaled s) @ le_bytes 8 (sb_hi_scaled s)
       @ hash_key_range (sb_numeric_field_range s)"
| "hash_into (PiiLeakCheck s) =
     [3] @ le_bytes 8 (of_nat (length (pii_iter s)) :: u64) @ map pii_tag (pii_iter s)"
| "hash_into (LlmJudge max_output_tokens) = [4] @ le_bytes 4 max_output_tokens"

section \<open>The folding is injective\<close>

text \<open>A shape has fewer than \<open>2 ^ 64\<close> dimensions: its length is a \<open>usize\<close>.\<close>

fun spec_representable :: "check_spec \<Rightarrow> bool" where
  "spec_representable (SchemaCheck (Tensor _ shape)) = (length shape < 2 ^ 64)"
| "spec_representable _ = True"

lemma dtype_as_u8_inject [simp]: "dtype_as_u8 a = dtype_as_u8 b \<longleftrightarrow> a = b"
  by (cases a; cases b) simp_all

lemma stat_tag_inject [simp]: "stat_tag a = stat_tag b \<longleftrightarrow> a = b"
  by (cases a; cases b) simp_all

lemma pii_tag_inject: "inj pii_tag"
proof (rule injI)
  fix a b assume "pii_tag a = pii_tag b"
  then show "a = b" by (cases a; cases b) simp_all
qed

lemma set_pii_iter: "set (pii_iter S) = S"
proof (rule set_eqI)
  fix c show "c \<in> set (pii_iter S) \<longleftrightarrow> c \<in> S"
    by (cases c) (simp_all add: pii_iter_def)
qed

lemma concat_le_bytes_inject:
  "length xs = length ys \<Longrightarrow> concat (map (le_bytes 8) xs) = concat (map (le_bytes 8) ys) \<Longrightarrow>
     xs = (ys :: u64 list)"
  by (induction xs ys rule: list_induct2)
    (auto simp: le_bytes_append_inject simp del: append_eq_append_conv)

lemma schema_hash_into_inject:
  assumes "schema_hash_into s = schema_hash_into t"
    and "spec_representable (SchemaCheck s)" "spec_representable (SchemaCheck t)"
  shows "s = t"
proof (cases "\<exists>d shape d' shape'. s = Tensor d shape \<and> t = Tensor d' shape'")
  case True
  then obtain d shape d' shape' where st: "s = Tensor d shape" "t = Tensor d' shape'" by blast
  with assms have "d = d'"
    and len: "(of_nat (length shape) :: u64) = of_nat (length shape')"
    and cc: "concat (map (le_bytes 8) shape) = concat (map (le_bytes 8) shape')"
    by (simp_all add: le_bytes_append_inject del: append_eq_append_conv)
  moreover have "length shape = length shape'"
    using len assms(2,3) st of_nat_word_inject [where 'a = 64] by simp
  ultimately show ?thesis
    using concat_le_bytes_inject st by blast
next
  case False
  with assms(1) show ?thesis
    by (cases s; cases t) (auto simp: le_bytes_inject)
qed

lemma framing_hash_into_prefix:
  "framing_hash_into f @ r = framing_hash_into g @ r' \<Longrightarrow> f = g \<and> r = r'"
  by (cases f; cases g) (auto simp: le_bytes_append_inject simp del: append_eq_append_conv)

lemma hash_key_range_inject:
  "hash_key_range a = hash_key_range b \<Longrightarrow> a = b"
  by (cases a rule: hash_key_range.cases; cases b rule: hash_key_range.cases)
    (auto simp: le_bytes_append_inject le_bytes_inject simp del: append_eq_append_conv)

lemma pii_fold_inject:
  assumes "hash_into (PiiLeakCheck S) = hash_into (PiiLeakCheck T)"
  shows "S = T"
proof -
  have "map pii_tag (pii_iter S) = map pii_tag (pii_iter T)"
    using assms by (simp add: le_bytes_append_inject del: append_eq_append_conv)
  then have "pii_iter S = pii_iter T"
    using pii_tag_inject by (simp add: inj_map_eq_map)
  then show ?thesis by (metis set_pii_iter)
qed

lemma hash_into_inject_lemma:
  assumes eq: "hash_into s = hash_into t"
    and rep: "spec_representable s" "spec_representable t"
  shows "s = t"
proof (cases s)
  case (SchemaCheck a)
  with eq rep show ?thesis by (cases t) (auto intro: schema_hash_into_inject)
next
  case (DedupCheck a)
  with eq obtain b where t: "t = DedupCheck b"
    and "framing_hash_into (ds_framing a) @ hash_key_range (ds_key_range a) =
         framing_hash_into (ds_framing b) @ hash_key_range (ds_key_range b)"
    by (cases t) simp_all
  then have "ds_framing a = ds_framing b" "ds_key_range a = ds_key_range b"
    using framing_hash_into_prefix hash_key_range_inject by blast+
  with DedupCheck t show ?thesis by (cases a; cases b) simp
next
  case (StatBoundsCheck a)
  with eq obtain b where t: "t = StatBoundsCheck b" by (cases t) simp_all
  let ?tail = "\<lambda>x. [stat_tag (sb_stat x)] @ le_bytes 4 (sb_scale x) @ le_bytes 8 (sb_lo_scaled x)
       @ le_bytes 8 (sb_hi_scaled x) @ hash_key_range (sb_numeric_field_range x)"
  have "framing_hash_into (sb_framing a) @ ?tail a = framing_hash_into (sb_framing b) @ ?tail b"
    using eq StatBoundsCheck t by simp
  from framing_hash_into_prefix [OF this]
  have "sb_framing a = sb_framing b" and rest: "?tail a = ?tail b" by simp_all
  from rest have "sb_stat a = sb_stat b" "sb_scale a = sb_scale b"
    "sb_lo_scaled a = sb_lo_scaled b" "sb_hi_scaled a = sb_hi_scaled b"
    "sb_numeric_field_range a = sb_numeric_field_range b"
    using hash_key_range_inject
    by (simp_all add: le_bytes_append_inject del: append_eq_append_conv)
  with \<open>sb_framing a = sb_framing b\<close> StatBoundsCheck t show ?thesis by (cases a; cases b) simp
next
  case (PiiLeakCheck S)
  with eq obtain T where "t = PiiLeakCheck T" by (cases t) auto
  with PiiLeakCheck eq pii_fold_inject show ?thesis by blast
next
  case (LlmJudge n)
  with eq show ?thesis by (cases t) (auto simp: le_bytes_inject)
qed

text \<open>
  The canonical bytes that enter a Mote's identity determine the check specification:
  two specifications that fold to the same bytes are equal.
\<close>

theorem check_spec_hash_injective:
  assumes "spec_representable s" and "spec_representable t"
  shows "hash_into s = hash_into t \<longleftrightarrow> s = t"
  using hash_into_inject_lemma assms by blast

theorem check_spec_hash_injective_witness:
  "hash_into (SchemaCheck (Tensor F32 [2, 3])) \<noteq> hash_into (SchemaCheck (Tensor F16 [2, 3]))"
  using check_spec_hash_injective[of "SchemaCheck (Tensor F32 [2, 3])" "SchemaCheck (Tensor F16 [2, 3])"]
  by simp

text \<open>
  A committed verdict reads back as written, and a blob with another version, a body the
  codec refuses, or bytes left over is refused rather than read as a verdict.
\<close>

theorem verdict_decode_exact:
  assumes "dec (enc v) = Some (v, length (enc v))"
  shows "verdict_decode dec (verdict_encode enc v) = Inr v \<and>
    (verdict_decode dec bs = Inr w \<longleftrightarrow>
      2 \<le> length bs \<and> le_word (take 2 bs) = CRITIC_SCHEMA_VERSION \<and>
      dec (drop 2 bs) = Some (w, length (drop 2 bs)))"
proof -
  have "verdict_decode dec (verdict_encode enc v) = Inr v"
    using assms by (simp add: verdict_encode_def verdict_decode_def)
  moreover have "verdict_decode dec bs = Inr w \<longleftrightarrow>
      2 \<le> length bs \<and> le_word (take 2 bs) = CRITIC_SCHEMA_VERSION \<and>
      dec (drop 2 bs) = Some (w, length (drop 2 bs))"
    by (auto simp: verdict_decode_def Let_def split: option.splits prod.splits)
  ultimately show ?thesis
    by blast
qed

theorem verdict_decode_exact_witness:
  "verdict_decode (\<lambda>bs. if bs = [0] then Some (VValid, 1) else None) (verdict_encode (\<lambda>_. [0]) VValid) = Inr VValid"
  using verdict_decode_exact[where dec = "\<lambda>bs. if bs = [0] then Some (VValid, 1) else None"
      and enc = "\<lambda>_. [0]" and v = VValid] by simp

end
