(* ===== verification/Kx_Mote.thy ===== *)
theory Kx_Mote
  imports Kx_Critic_Types "HOL-Library.List_Lexorder" "HOL-Library.Product_Lexorder"
begin

text \<open>
  Motes (\<open>crates/kx-mote\<close>): the unit of work. Identities are 32-byte hashes, a
  definition is the closed set of behaviour-determining inputs, and an instance
  pairs a definition with its inputs and its position in the graph. The theory
  also holds the per-attempt state machine and the author-side graph container.
\<close>

section \<open>Identifiers (id.rs, strings.rs)\<close>

type_synonym mote_id = array32
type_synonym mote_def_hash = array32
type_synonym input_data_id = array32
type_synonym logic_ref = array32
type_synonym prompt_template_hash = array32
type_synonym content_ref = array32

text \<open>A Rust \<open>String\<close> is its UTF-8 byte sequence; its order is the order of those bytes.\<close>

type_synonym rstring = bytes
type_synonym model_id = rstring
type_synonym tool_name = rstring
type_synonym tool_version = rstring
type_synonym config_key = rstring
type_synonym config_val = bytes
type_synonym graph_position = bytes
type_synonym role_id = rstring

definition ascii :: "string \<Rightarrow> rstring" where
  "ascii s = map of_char s"

section \<open>Enumerations (ndclass.rs, effect.rs, edge.rs)\<close>

datatype nd_class = Pure | ReadOnlyNondet | WorldMutating

fun nd_as_u8 :: "nd_class \<Rightarrow> u8" where
  "nd_as_u8 Pure = 0"
| "nd_as_u8 ReadOnlyNondet = 1"
| "nd_as_u8 WorldMutating = 2"

datatype effect_pattern = IdempotentByConstruction | StageThenCommit | ValidateThenCommit

datatype edge_kind = Data | Control

fun edge_kind_as_u8 :: "edge_kind \<Rightarrow> u8" where
  "edge_kind_as_u8 Data = 0"
| "edge_kind_as_u8 Control = 1"

record edge_meta =
  em_kind :: edge_kind
  em_non_cascade :: bool

definition edge_data :: edge_meta where
  "edge_data = \<lparr>em_kind = Data, em_non_cascade = False\<rparr>"

definition edge_control :: edge_meta where
  "edge_control = \<lparr>em_kind = Control, em_non_cascade = False\<rparr>"

definition edge_control_non_cascading :: edge_meta where
  "edge_control_non_cascading = \<lparr>em_kind = Control, em_non_cascade = True\<rparr>"

record parent_ref =
  pr_parent_id :: mote_id
  pr_edge :: edge_meta

section \<open>Definitions and instances (def.rs, inference_params.rs, mote.rs)\<close>

record inference_params =
  ip_max_output_tokens :: u32
  ip_temperature_bps :: u32
  ip_top_p_bps :: u32
  ip_top_k :: u32
  ip_seed :: u32
  ip_stop_tokens :: "rstring list"
  ip_grammar :: "rstring option"

definition inference_params_default :: inference_params where
  "inference_params_default = \<lparr>ip_max_output_tokens = 512, ip_temperature_bps = 0,
     ip_top_p_bps = 10000, ip_top_k = 0, ip_seed = 0, ip_stop_tokens = [], ip_grammar = None\<rparr>"

record mote_def =
  md_logic_ref :: logic_ref
  md_model_id :: model_id
  md_prompt_template_hash :: prompt_template_hash
  md_tool_contract :: "(tool_name, tool_version) btree"
  md_nd_class :: nd_class
  md_config_subset :: "(config_key, config_val) btree"
  md_effect_pattern :: effect_pattern
  md_critic_for :: "mote_id option"
  md_is_topology_shaper :: bool
  md_inference_params :: inference_params
  md_critic_check :: "check_spec option"
  md_schema_version :: u16

record mote =
  m_id :: mote_id
  m_def :: mote_def
  m_input_data_id :: input_data_id
  m_graph_position :: graph_position
  m_parents :: "parent_ref list"

text \<open>
  \<open>MoteDef::hash\<close> is \<open>blake3\<close> of the canonical bincode bytes; the bincode encoder is
  third-party and enters as the parameter \<open>enc\<close>.
\<close>

definition mote_def_hash_of :: "hash_fn \<Rightarrow> (mote_def \<Rightarrow> bytes) \<Rightarrow> mote_def \<Rightarrow> mote_def_hash" where
  "mote_def_hash_of blake3 enc d = blake3 (enc d)"

definition mote_id_preimage :: "mote_def_hash \<Rightarrow> input_data_id \<Rightarrow> graph_position \<Rightarrow> bytes" where
  "mote_id_preimage def_hash input_data_id graph_position =
     bytes32 def_hash @ bytes32 input_data_id @ graph_position"

definition derive_mote_id ::
  "hash_fn \<Rightarrow> mote_def_hash \<Rightarrow> input_data_id \<Rightarrow> graph_position \<Rightarrow> mote_id"
where
  "derive_mote_id blake3 def_hash input_data_id graph_position =
     blake3 (mote_id_preimage def_hash input_data_id graph_position)"

definition mote_new ::
  "hash_fn \<Rightarrow> (mote_def \<Rightarrow> bytes) \<Rightarrow> mote_def \<Rightarrow> input_data_id \<Rightarrow> graph_position \<Rightarrow>
     parent_ref list \<Rightarrow> mote"
where
  "mote_new blake3 enc d input_data_id graph_position parents =
     \<lparr>m_id = derive_mote_id blake3 (mote_def_hash_of blake3 enc d) input_data_id graph_position,
      m_def = d, m_input_data_id = input_data_id, m_graph_position = graph_position,
      m_parents = parents\<rparr>"

definition mote_nd_class :: "mote \<Rightarrow> nd_class" where
  "mote_nd_class m = md_nd_class (m_def m)"

definition mote_effect_pattern :: "mote \<Rightarrow> effect_pattern" where
  "mote_effect_pattern m = md_effect_pattern (m_def m)"

section \<open>The attempt state machine (attempt.rs)\<close>

datatype attempt_state =
  AttPending | AttScheduled | AttRunning | AttCommitted | AttFailed | AttRepudiated

datatype illegal_transition = IllegalTransition attempt_state attempt_state

fun legal_pair :: "attempt_state \<Rightarrow> attempt_state \<Rightarrow> bool" where
  "legal_pair AttPending AttScheduled = True"
| "legal_pair AttScheduled AttRunning = True"
| "legal_pair AttRunning AttCommitted = True"
| "legal_pair AttRunning AttFailed = True"
| "legal_pair AttCommitted AttRepudiated = True"
| "legal_pair _ _ = False"

definition transition :: "attempt_state \<Rightarrow> attempt_state \<Rightarrow> (illegal_transition, attempt_state) result"
where
  "transition from_st to_st =
     (if legal_pair from_st to_st then Inr to_st else Inl (IllegalTransition from_st to_st))"

definition ALL_ATTEMPT_STATES :: "attempt_state list" where
  "ALL_ATTEMPT_STATES =
     [AttPending, AttScheduled, AttRunning, AttCommitted, AttFailed, AttRepudiated]"

definition is_legal_transition :: "attempt_state \<Rightarrow> attempt_state \<Rightarrow> bool" where
  "is_legal_transition from_st to_st = (case transition from_st to_st of Inr _ \<Rightarrow> True | Inl _ \<Rightarrow> False)"

text \<open>An attempt's history: the states it passes through, each step accepted by \<^const>\<open>transition\<close>.\<close>

inductive attempt_run :: "attempt_state list \<Rightarrow> bool" where
  attempt_start: "attempt_run [AttPending]"
| attempt_step: "attempt_run (h @ [s]) \<Longrightarrow> transition s t = Inr t \<Longrightarrow> attempt_run (h @ [s, t])"

section \<open>The author-side graph (graph.rs)\<close>

record mote_graph =
  mg_nodes :: "(mote_id, mote) btree"
  mg_edges :: "(mote_id, parent_ref list) btree"

definition graph_new :: mote_graph where
  "graph_new = \<lparr>mg_nodes = [], mg_edges = []\<rparr>"

definition graph_insert :: "mote \<Rightarrow> mote_graph \<Rightarrow> mote_graph" where
  "graph_insert m g =
     g\<lparr>mg_edges := bt_insert (m_id m) (m_parents m) (mg_edges g),
       mg_nodes := bt_insert (m_id m) m (mg_nodes g)\<rparr>"

definition graph_len :: "mote_graph \<Rightarrow> nat" where
  "graph_len g = length (mg_nodes g)"

definition graph_get :: "mote_graph \<Rightarrow> mote_id \<Rightarrow> mote option" where
  "graph_get g i = map_of (mg_nodes g) i"

definition graph_parents_of :: "mote_graph \<Rightarrow> mote_id \<Rightarrow> parent_ref list option" where
  "graph_parents_of g i = map_of (mg_edges g) i"

section \<open>Identity\<close>

lemma mote_id_preimage_inject:
  "mote_id_preimage d i g = mote_id_preimage d' i' g' \<longleftrightarrow> d = d' \<and> i = i' \<and> g = g'"
  by (simp add: mote_id_preimage_def be_bytes_append_inject del: append_eq_append_conv)

text \<open>
  Two Motes get the same identity exactly when their definition hash, their input
  identity and their graph position all agree, provided the hash function does not
  collide on the two preimages at hand: the concatenation itself is unambiguous.
\<close>

theorem derive_mote_id_injective:
  assumes "inj_on blake3 {mote_id_preimage d i g, mote_id_preimage d' i' g'}"
  shows "derive_mote_id blake3 d i g = derive_mote_id blake3 d' i' g' \<longleftrightarrow> d = d' \<and> i = i' \<and> g = g'"
  using inj_on_eq_iff[OF assms, of "mote_id_preimage d i g" "mote_id_preimage d' i' g'"]
  by (simp add: derive_mote_id_def mote_id_preimage_inject)

theorem derive_mote_id_injective_witness:
  "derive_mote_id (\<lambda>bs. of_nat (length bs)) 1 2 [] \<noteq> derive_mote_id (\<lambda>bs. of_nat (length bs)) 1 2 [7]"
proof -
  have "inj_on (\<lambda>bs. of_nat (length bs) :: array32) {mote_id_preimage 1 2 [], mote_id_preimage 1 2 [7]}"
    by (simp add: mote_id_preimage_def)
  from derive_mote_id_injective[OF this] show ?thesis
    by simp
qed

section \<open>Attempts\<close>

lemma transition_ok_iff [simp]: "transition s t = Inr u \<longleftrightarrow> u = t \<and> legal_pair s t"
  by (auto simp: transition_def)

lemma is_legal_transition_iff: "is_legal_transition s t \<longleftrightarrow> legal_pair s t"
  by (simp add: is_legal_transition_def transition_def)

inductive_cases attempt_runE: "attempt_run h"

text \<open>The history is determined by the state it ends in.\<close>

fun attempt_path :: "attempt_state \<Rightarrow> attempt_state list" where
  "attempt_path AttPending = [AttPending]"
| "attempt_path AttScheduled = [AttPending, AttScheduled]"
| "attempt_path AttRunning = [AttPending, AttScheduled, AttRunning]"
| "attempt_path AttCommitted = [AttPending, AttScheduled, AttRunning, AttCommitted]"
| "attempt_path AttFailed = [AttPending, AttScheduled, AttRunning, AttFailed]"
| "attempt_path AttRepudiated =
     [AttPending, AttScheduled, AttRunning, AttCommitted, AttRepudiated]"

lemma attempt_path_step:
  "legal_pair s t \<Longrightarrow> attempt_path t = attempt_path s @ [t]"
  by (cases "(s, t)" rule: legal_pair.cases) simp_all

lemma attempt_run_path: "attempt_run h \<Longrightarrow> h = attempt_path (last h)"
  by (induction rule: attempt_run.induct) (auto simp: attempt_path_step)

lemma attempt_run_path_exists: "attempt_run (attempt_path s)"
proof -
  have ext: "legal_pair s t \<Longrightarrow> attempt_run (attempt_path s) \<Longrightarrow> attempt_run (attempt_path t)" for s t
  proof -
    assume lp: "legal_pair s t" and run: "attempt_run (attempt_path s)"
    obtain h where "attempt_path s = h @ [s]" by (cases s) auto
    with lp run show ?thesis
      using attempt_step [of h s t] by (simp add: attempt_path_step)
  qed
  have P: "attempt_run (attempt_path AttPending)" by (simp add: attempt_start)
  have S: "attempt_run (attempt_path AttScheduled)" by (rule ext [OF _ P]) simp
  have R: "attempt_run (attempt_path AttRunning)" by (rule ext [OF _ S]) simp
  have C: "attempt_run (attempt_path AttCommitted)" by (rule ext [OF _ R]) simp
  have F: "attempt_run (attempt_path AttFailed)" by (rule ext [OF _ R]) simp
  have X: "attempt_run (attempt_path AttRepudiated)" by (rule ext [OF _ C]) simp
  show ?thesis using P S R C F X by (cases s) blast+
qed

text \<open>
  The histories the transition function admits are exactly the six paths of the life
  cycle: every state is reached in one way, a committed or failed attempt never runs again,
  and only a committed one can be repudiated.
\<close>

theorem attempt_histories: "attempt_run h \<longleftrightarrow> (\<exists>s. h = attempt_path s)"
  using attempt_run_path attempt_run_path_exists by blast

end
