(* ===== verification/Kx_Journal_Entry.thy ===== *)
theory Kx_Journal_Entry
  imports Kx_Mote
begin

text \<open>
  The journal's vocabulary (\<open>crates/kx-journal/src/entry.rs\<close>): the thirteen entry
  kinds with their fields, the closed reason enumerations and their byte tags,
  the synthetic ids of run-level entries, and the failure-detail cap. Each struct
  variant of \<open>JournalEntry\<close> is a record, the enum is the datatype over them.
\<close>

section \<open>Constants\<close>

definition HEADER_LEN :: nat where "HEADER_LEN = 74"
definition MAX_ENTRY_LEN :: nat where "MAX_ENTRY_LEN = 4500"
definition MAX_PARENTS :: nat where "MAX_PARENTS = 128"
definition MAX_RERANK_CANDIDATES :: nat where "MAX_RERANK_CANDIDATES = 64"
definition MAX_REPLAN_FAILED_STEPS :: nat where "MAX_REPLAN_FAILED_STEPS = 64"
definition MAX_FAILURE_DETAIL_LEN :: nat where "MAX_FAILURE_DETAIL_LEN = 512"
definition MAX_TOOL_BATCH_CALLS :: nat where "MAX_TOOL_BATCH_CALLS = 20"

abbreviation (input) KIND_PROPOSED :: u8 where "KIND_PROPOSED \<equiv> 0"
abbreviation (input) KIND_COMMITTED :: u8 where "KIND_COMMITTED \<equiv> 1"
abbreviation (input) KIND_REPUDIATED :: u8 where "KIND_REPUDIATED \<equiv> 2"
abbreviation (input) KIND_FAILED :: u8 where "KIND_FAILED \<equiv> 3"
abbreviation (input) KIND_EFFECT_STAGED :: u8 where "KIND_EFFECT_STAGED \<equiv> 4"
abbreviation (input) KIND_RUN_REGISTERED :: u8 where "KIND_RUN_REGISTERED \<equiv> 5"
abbreviation (input) KIND_RUN_VERSIONS_RESOLVED :: u8 where "KIND_RUN_VERSIONS_RESOLVED \<equiv> 6"
abbreviation (input) KIND_DIGEST_SEALED :: u8 where "KIND_DIGEST_SEALED \<equiv> 7"
abbreviation (input) KIND_REPLAN_ROUND :: u8 where "KIND_REPLAN_ROUND \<equiv> 8"
abbreviation (input) KIND_REACT_ROUND :: u8 where "KIND_REACT_ROUND \<equiv> 9"
abbreviation (input) KIND_APPROVAL :: u8 where "KIND_APPROVAL \<equiv> 10"
abbreviation (input) KIND_RERANK_ROUND :: u8 where "KIND_RERANK_ROUND \<equiv> 11"
abbreviation (input) KIND_TIMER_ARMED :: u8 where "KIND_TIMER_ARMED \<equiv> 12"

lemmas entry_consts = HEADER_LEN_def MAX_ENTRY_LEN_def MAX_PARENTS_def MAX_RERANK_CANDIDATES_def
  MAX_REPLAN_FAILED_STEPS_def MAX_FAILURE_DETAIL_LEN_def MAX_TOOL_BATCH_CALLS_def

section \<open>UTF-8\<close>

text \<open>
  \<open>str::from_utf8\<close> and \<open>str::chars\<close>: the split of a byte string into the encodings of
  its scalar values, \<open>None\<close> when the bytes are not valid UTF-8.
\<close>

definition cont_byte :: "u8 \<Rightarrow> bool" where
  "cont_byte b = (0x80 \<le> b \<and> b \<le> 0xBF)"

fun utf8_step :: "bytes \<Rightarrow> (bytes \<times> bytes) option" where
  "utf8_step [] = None"
| "utf8_step (b # bs) =
     (if b \<le> 0x7F then Some ([b], bs)
      else if 0xC2 \<le> b \<and> b \<le> 0xDF then
        (case bs of
           b1 # bs' \<Rightarrow> if cont_byte b1 then Some ([b, b1], bs') else None
         | _ \<Rightarrow> None)
      else if 0xE0 \<le> b \<and> b \<le> 0xEF then
        (case bs of
           b1 # b2 # bs' \<Rightarrow>
             if cont_byte b1 \<and> (b = 0xE0 \<longrightarrow> 0xA0 \<le> b1) \<and> (b = 0xED \<longrightarrow> b1 \<le> 0x9F) \<and> cont_byte b2
             then Some ([b, b1, b2], bs') else None
         | _ \<Rightarrow> None)
      else if 0xF0 \<le> b \<and> b \<le> 0xF4 then
        (case bs of
           b1 # b2 # b3 # bs' \<Rightarrow>
             if cont_byte b1 \<and> (b = 0xF0 \<longrightarrow> 0x90 \<le> b1) \<and> (b = 0xF4 \<longrightarrow> b1 \<le> 0x8F)
                \<and> cont_byte b2 \<and> cont_byte b3
             then Some ([b, b1, b2, b3], bs') else None
         | _ \<Rightarrow> None)
      else None)"

lemma utf8_step_split:
  "utf8_step bs = Some (c, rest) \<Longrightarrow> bs = c @ rest \<and> c \<noteq> [] \<and> length c \<le> 4"
  by (cases bs) (auto split: if_splits list.splits)

lemma utf8_step_local:
  "utf8_step bs = Some (c, rest) \<Longrightarrow> utf8_step (c @ ys) = Some (c, ys)"
  by (cases bs) (auto split: if_splits list.splits)

function utf8_chars :: "bytes \<Rightarrow> bytes list option" where
  "utf8_chars bs =
     (if bs = [] then Some []
      else case utf8_step bs of
          None \<Rightarrow> None
        | Some (c, rest) \<Rightarrow> map_option ((#) c) (utf8_chars rest))"
  by pat_completeness auto

termination
  by (relation "measure length") (auto dest!: utf8_step_split)

declare utf8_chars.simps [simp del]

definition valid_utf8 :: "bytes \<Rightarrow> bool" where
  "valid_utf8 bs = (utf8_chars bs \<noteq> None)"

text \<open>\<open>bounded_failure_detail\<close> caps a detail at 512 characters, on a character boundary.\<close>

definition bounded_failure_detail :: "rstring \<Rightarrow> rstring" where
  "bounded_failure_detail detail =
     (case utf8_chars detail of
        None \<Rightarrow> detail
      | Some cs \<Rightarrow>
          if length cs \<le> MAX_FAILURE_DETAIL_LEN then detail
          else concat (take MAX_FAILURE_DETAIL_LEN cs))"

section \<open>Closed enumerations and their tags\<close>

datatype react_branch =
    Answer
  | ToolCall rstring rstring
  | RDeadLettered
  | RPending
  | Rejected rstring
  | ToolBatch "(rstring \<times> rstring) list"

fun react_branch_as_u8 :: "react_branch \<Rightarrow> u8" where
  "react_branch_as_u8 Answer = 0"
| "react_branch_as_u8 (ToolCall _ _) = 1"
| "react_branch_as_u8 RDeadLettered = 2"
| "react_branch_as_u8 RPending = 3"
| "react_branch_as_u8 (Rejected _) = 4"
| "react_branch_as_u8 (ToolBatch _) = 5"

datatype rerank_outcome = RkPending | Reranked "u32 list" | FailedClosed

fun rerank_outcome_as_u8 :: "rerank_outcome \<Rightarrow> u8" where
  "rerank_outcome_as_u8 RkPending = 0"
| "rerank_outcome_as_u8 (Reranked _) = 1"
| "rerank_outcome_as_u8 FailedClosed = 2"

datatype resolved_kind_tag = Builtin | LocalScript | External | Mcp | SelfGenerated

fun resolved_kind_as_u8 :: "resolved_kind_tag \<Rightarrow> u8" where
  "resolved_kind_as_u8 Builtin = 0"
| "resolved_kind_as_u8 LocalScript = 1"
| "resolved_kind_as_u8 External = 2"
| "resolved_kind_as_u8 Mcp = 3"
| "resolved_kind_as_u8 SelfGenerated = 4"

definition resolved_kind_from_u8 :: "u8 \<Rightarrow> resolved_kind_tag option" where
  "resolved_kind_from_u8 b =
     (if b = 0 then Some Builtin else if b = 1 then Some LocalScript
      else if b = 2 then Some External else if b = 3 then Some Mcp
      else if b = 4 then Some SelfGenerated else None)"

datatype idempotency_class_tag = Token | Readback | Staged | AtLeastOnce

fun idempotency_class_as_u8 :: "idempotency_class_tag \<Rightarrow> u8" where
  "idempotency_class_as_u8 Token = 0"
| "idempotency_class_as_u8 Readback = 1"
| "idempotency_class_as_u8 Staged = 2"
| "idempotency_class_as_u8 AtLeastOnce = 3"

definition idempotency_class_from_u8 :: "u8 \<Rightarrow> idempotency_class_tag option" where
  "idempotency_class_from_u8 b =
     (if b = 0 then Some Token else if b = 1 then Some Readback
      else if b = 2 then Some Staged else if b = 3 then Some AtLeastOnce else None)"

datatype approval_state =
    Requested rstring rstring rstring u64 u64
  | Granted u64 rstring u64
  | Denied u64 rstring u64
  | Expired u64

fun approval_state_as_u8 :: "approval_state \<Rightarrow> u8" where
  "approval_state_as_u8 (Requested _ _ _ _ _) = 0"
| "approval_state_as_u8 (Granted _ _ _) = 1"
| "approval_state_as_u8 (Denied _ _ _) = 2"
| "approval_state_as_u8 (Expired _) = 3"

fun is_terminal_refusal :: "approval_state \<Rightarrow> bool" where
  "is_terminal_refusal (Denied _ _ _) = True"
| "is_terminal_refusal (Expired _) = True"
| "is_terminal_refusal _ = False"

datatype repudiation_reason =
    OperatorAction
  | CriticInvalidated
  | DefinitionLevelRepudiation
  | UpstreamCascade
  | SafetyInvariantBreach
  | ExternalSystemReportedFailure

fun repudiation_reason_as_u8 :: "repudiation_reason \<Rightarrow> u8" where
  "repudiation_reason_as_u8 OperatorAction = 0"
| "repudiation_reason_as_u8 CriticInvalidated = 1"
| "repudiation_reason_as_u8 DefinitionLevelRepudiation = 2"
| "repudiation_reason_as_u8 UpstreamCascade = 3"
| "repudiation_reason_as_u8 SafetyInvariantBreach = 4"
| "repudiation_reason_as_u8 ExternalSystemReportedFailure = 5"

definition repudiation_reason_from_u8 :: "u8 \<Rightarrow> repudiation_reason option" where
  "repudiation_reason_from_u8 b =
     (if b = 0 then Some OperatorAction else if b = 1 then Some CriticInvalidated
      else if b = 2 then Some DefinitionLevelRepudiation else if b = 3 then Some UpstreamCascade
      else if b = 4 then Some SafetyInvariantBreach
      else if b = 5 then Some ExternalSystemReportedFailure else None)"

datatype failure_reason =
    TimedOut
  | ExecutorRefused
  | ValidatorRejected
  | WorkerCrashed
  | UpstreamRepudiated
  | UnsafeWorldMutatingConstruction
  | CompensatedAtLeastOnce
  | QuarantinedAtLeastOnce
  | DeadLettered

fun failure_reason_as_u8 :: "failure_reason \<Rightarrow> u8" where
  "failure_reason_as_u8 TimedOut = 0"
| "failure_reason_as_u8 ExecutorRefused = 1"
| "failure_reason_as_u8 ValidatorRejected = 2"
| "failure_reason_as_u8 WorkerCrashed = 3"
| "failure_reason_as_u8 UpstreamRepudiated = 4"
| "failure_reason_as_u8 UnsafeWorldMutatingConstruction = 5"
| "failure_reason_as_u8 CompensatedAtLeastOnce = 6"
| "failure_reason_as_u8 QuarantinedAtLeastOnce = 7"
| "failure_reason_as_u8 DeadLettered = 8"

definition failure_reason_from_u8 :: "u8 \<Rightarrow> failure_reason option" where
  "failure_reason_from_u8 b =
     (if b = 0 then Some TimedOut else if b = 1 then Some ExecutorRefused
      else if b = 2 then Some ValidatorRejected else if b = 3 then Some WorkerCrashed
      else if b = 4 then Some UpstreamRepudiated
      else if b = 5 then Some UnsafeWorldMutatingConstruction
      else if b = 6 then Some CompensatedAtLeastOnce
      else if b = 7 then Some QuarantinedAtLeastOnce
      else if b = 8 then Some DeadLettered else None)"

fun is_pre_commit_crash :: "failure_reason \<Rightarrow> bool" where
  "is_pre_commit_crash TimedOut = True"
| "is_pre_commit_crash WorkerCrashed = True"
| "is_pre_commit_crash _ = False"

section \<open>Parent entries\<close>

record parent_entry =
  pe_parent_id :: mote_id
  pe_edge_kind :: u8
  pe_non_cascade :: u8

definition from_parent_ref :: "parent_ref \<Rightarrow> parent_entry" where
  "from_parent_ref p = \<lparr>pe_parent_id = pr_parent_id p,
     pe_edge_kind = edge_kind_as_u8 (em_kind (pr_edge p)),
     pe_non_cascade = (if em_non_cascade (pr_edge p) then 1 else 0)\<rparr>"

definition to_parent_ref :: "parent_entry \<Rightarrow> parent_ref option" where
  "to_parent_ref e =
     (case (if pe_edge_kind e = 0 then Some Data
            else if pe_edge_kind e = 1 then Some Control else None) of
        None \<Rightarrow> None
      | Some k \<Rightarrow>
          if k = Data \<and> pe_non_cascade e \<noteq> 0 then None
          else if pe_non_cascade e > 1 then None
          else Some \<lparr>pr_parent_id = pe_parent_id e,
                     pr_edge = \<lparr>em_kind = k, em_non_cascade = (pe_non_cascade e = 1)\<rparr>\<rparr>)"

section \<open>Journal entries\<close>

record proposed_entry =
  p_mote_id :: mote_id
  p_idempotency_key :: array32
  p_seq :: u64
  p_nondeterminism :: nd_class
  p_placement_hint :: u128
  p_warrant_ref :: content_ref

record committed_entry =
  c_mote_id :: mote_id
  c_idempotency_key :: array32
  c_seq :: u64
  c_nondeterminism :: nd_class
  c_result_ref :: content_ref
  c_parents :: "parent_entry list"
  c_warrant_ref :: content_ref
  c_mote_def_hash :: mote_def_hash

record repudiated_entry =
  r_target_mote_id :: mote_id
  r_idempotency_key :: array32
  r_seq :: u64
  r_target_committed_seq :: u64
  r_reason_class :: repudiation_reason
  r_repudiator_id :: u128

record failed_entry =
  f_mote_id :: mote_id
  f_idempotency_key :: array32
  f_seq :: u64
  f_reason_class :: failure_reason
  f_reporter_id :: u128
  f_detail :: rstring

record effect_staged_entry =
  es_mote_id :: mote_id
  es_idempotency_key :: array32
  es_seq :: u64

record run_registered_entry =
  rr_instance_id :: array16
  rr_recipe_fingerprint :: array32
  rr_ts :: u64
  rr_seq :: u64

record resolved_capability_record =
  rc_tool_id :: rstring
  rc_tool_version :: rstring
  rc_resolved_kind :: resolved_kind_tag
  rc_resolved_def_hash :: content_ref
  rc_idempotency_class :: idempotency_class_tag

record run_versions_entry =
  rv_instance_id :: array16
  rv_warrant_ref :: content_ref
  rv_model_id :: rstring
  rv_capability :: "resolved_capability_record option"
  rv_seq :: u64

record digest_sealed_entry =
  dg_through_seq :: u64
  dg_state_digest :: array32
  dg_seq :: u64

record replan_round_entry =
  rp_round :: u32
  rp_shaper_mote_id :: mote_id
  rp_base_prompt_ref :: content_ref
  rp_corrected_prompt_ref :: content_ref
  rp_warrant_ref :: content_ref
  rp_model_id :: rstring
  rp_failed_steps :: "mote_id list"
  rp_escalation_reason_ref :: "content_ref option"
  rp_seq :: u64

record react_round_entry =
  ra_turn :: u32
  ra_turn_mote_id :: mote_id
  ra_instance_id :: array16
  ra_base_prompt_ref :: content_ref
  ra_warrant_ref :: content_ref
  ra_model_id :: rstring
  ra_branch :: react_branch
  ra_max_turns :: u32
  ra_max_tool_calls :: u32
  ra_step_salt :: "array32 option"
  ra_is_agentic_launch :: bool
  ra_context_items_ref :: "content_ref option"
  ra_image_ref :: "content_ref option"
  ra_require_approval :: bool
  ra_seq :: u64

record approval_entry =
  ap_instance_id :: array16
  ap_request_id :: array16
  ap_awaiting_mote_id :: mote_id
  ap_state :: approval_state
  ap_seq :: u64

record rerank_round_entry =
  rk_round :: u32
  rk_rerank_mote_id :: mote_id
  rk_instance_id :: array16
  rk_base_results_ref :: content_ref
  rk_query_ref :: content_ref
  rk_warrant_ref :: content_ref
  rk_model_id :: rstring
  rk_candidate_count :: u32
  rk_outcome :: rerank_outcome
  rk_seq :: u64

record timer_armed_entry =
  tm_instance_id :: array16
  tm_subject_mote_id :: mote_id
  tm_purpose :: u8
  tm_attempt :: u32
  tm_fire_at_unix_ms :: u64
  tm_anchor_ref :: content_ref
  tm_seq :: u64

datatype journal_entry =
    Proposed proposed_entry
  | Committed committed_entry
  | Repudiated repudiated_entry
  | Failed failed_entry
  | EffectStaged effect_staged_entry
  | RunRegistered run_registered_entry
  | RunVersionsResolved run_versions_entry
  | DigestSealed digest_sealed_entry
  | ReplanRound replan_round_entry
  | ReactRound react_round_entry
  | Approval approval_entry
  | ReRankRound rerank_round_entry
  | TimerArmed timer_armed_entry

definition ZERO_IDEMPOTENCY_KEY :: array32 where
  "ZERO_IDEMPOTENCY_KEY = 0"

definition approval_request_id :: "hash_fn \<Rightarrow> array16 \<Rightarrow> mote_id \<Rightarrow> array16" where
  "approval_request_id blake3 instance_id awaiting_mote_id =
     be_word (take 16 (bytes32 (blake3
       (ascii ''kx-approval-req'' @ bytes16 instance_id @ bytes32 awaiting_mote_id))))"

definition run_root_id :: "hash_fn \<Rightarrow> array16 \<Rightarrow> mote_id" where
  "run_root_id blake3 instance_id = blake3 (ascii ''kx-run-root'' @ bytes16 instance_id)"

definition seal_root_id :: "hash_fn \<Rightarrow> u64 \<Rightarrow> mote_id" where
  "seal_root_id blake3 through_seq = blake3 (ascii ''kx-digest-seal-root'' @ le_bytes 8 through_seq)"

definition repudiation_idempotency_key :: "hash_fn \<Rightarrow> mote_id \<Rightarrow> u64 \<Rightarrow> array32" where
  "repudiation_idempotency_key blake3 target_mote_id target_committed_seq =
     blake3 (ascii ''repudiation'' @ bytes32 target_mote_id @ le_bytes 8 target_committed_seq)"

fun entry_seq :: "journal_entry \<Rightarrow> u64" where
  "entry_seq (Proposed e) = p_seq e"
| "entry_seq (Committed e) = c_seq e"
| "entry_seq (Repudiated e) = r_seq e"
| "entry_seq (Failed e) = f_seq e"
| "entry_seq (EffectStaged e) = es_seq e"
| "entry_seq (RunRegistered e) = rr_seq e"
| "entry_seq (RunVersionsResolved e) = rv_seq e"
| "entry_seq (DigestSealed e) = dg_seq e"
| "entry_seq (ReplanRound e) = rp_seq e"
| "entry_seq (ReactRound e) = ra_seq e"
| "entry_seq (Approval e) = ap_seq e"
| "entry_seq (ReRankRound e) = rk_seq e"
| "entry_seq (TimerArmed e) = tm_seq e"

fun idempotency_key :: "journal_entry \<Rightarrow> array32" where
  "idempotency_key (Proposed e) = p_idempotency_key e"
| "idempotency_key (Committed e) = c_idempotency_key e"
| "idempotency_key (Repudiated e) = r_idempotency_key e"
| "idempotency_key (Failed e) = f_idempotency_key e"
| "idempotency_key (EffectStaged e) = es_idempotency_key e"
| "idempotency_key _ = ZERO_IDEMPOTENCY_KEY"

fun entry_mote_id :: "hash_fn \<Rightarrow> journal_entry \<Rightarrow> mote_id" where
  "entry_mote_id blake3 (Proposed e) = p_mote_id e"
| "entry_mote_id blake3 (Committed e) = c_mote_id e"
| "entry_mote_id blake3 (Repudiated e) = r_target_mote_id e"
| "entry_mote_id blake3 (Failed e) = f_mote_id e"
| "entry_mote_id blake3 (EffectStaged e) = es_mote_id e"
| "entry_mote_id blake3 (RunRegistered e) = run_root_id blake3 (rr_instance_id e)"
| "entry_mote_id blake3 (RunVersionsResolved e) = run_root_id blake3 (rv_instance_id e)"
| "entry_mote_id blake3 (DigestSealed e) = seal_root_id blake3 (dg_through_seq e)"
| "entry_mote_id blake3 (ReplanRound e) = rp_shaper_mote_id e"
| "entry_mote_id blake3 (ReactRound e) = ra_turn_mote_id e"
| "entry_mote_id blake3 (Approval e) = ap_awaiting_mote_id e"
| "entry_mote_id blake3 (ReRankRound e) = rk_rerank_mote_id e"
| "entry_mote_id blake3 (TimerArmed e) = tm_subject_mote_id e"

fun entry_kind :: "journal_entry \<Rightarrow> u8" where
  "entry_kind (Proposed _) = KIND_PROPOSED"
| "entry_kind (Committed _) = KIND_COMMITTED"
| "entry_kind (Repudiated _) = KIND_REPUDIATED"
| "entry_kind (Failed _) = KIND_FAILED"
| "entry_kind (EffectStaged _) = KIND_EFFECT_STAGED"
| "entry_kind (RunRegistered _) = KIND_RUN_REGISTERED"
| "entry_kind (RunVersionsResolved _) = KIND_RUN_VERSIONS_RESOLVED"
| "entry_kind (DigestSealed _) = KIND_DIGEST_SEALED"
| "entry_kind (ReplanRound _) = KIND_REPLAN_ROUND"
| "entry_kind (ReactRound _) = KIND_REACT_ROUND"
| "entry_kind (Approval _) = KIND_APPROVAL"
| "entry_kind (ReRankRound _) = KIND_RERANK_ROUND"
| "entry_kind (TimerArmed _) = KIND_TIMER_ARMED"

section \<open>Lemmas on tags, parents and details\<close>

lemma resolved_kind_roundtrip [simp]: "resolved_kind_from_u8 (resolved_kind_as_u8 t) = Some t"
  by (cases t) (simp_all add: resolved_kind_from_u8_def)

lemma idempotency_class_roundtrip [simp]:
  "idempotency_class_from_u8 (idempotency_class_as_u8 t) = Some t"
  by (cases t) (simp_all add: idempotency_class_from_u8_def)

lemma repudiation_reason_roundtrip [simp]:
  "repudiation_reason_from_u8 (repudiation_reason_as_u8 t) = Some t"
  by (cases t) (simp_all add: repudiation_reason_from_u8_def)

lemma failure_reason_roundtrip [simp]: "failure_reason_from_u8 (failure_reason_as_u8 t) = Some t"
  by (cases t) (simp_all add: failure_reason_from_u8_def)

text \<open>A parent reference that respects the data-edge rule survives the on-disk form.\<close>

definition parent_ref_ok :: "parent_ref \<Rightarrow> bool" where
  "parent_ref_ok p = (em_kind (pr_edge p) = Data \<longrightarrow> \<not> em_non_cascade (pr_edge p))"

lemma to_from_parent_ref:
  "to_parent_ref (from_parent_ref p) = (if parent_ref_ok p then Some p else None)"
proof -
  obtain i k n where p: "p = \<lparr>pr_parent_id = i, pr_edge = \<lparr>em_kind = k, em_non_cascade = n\<rparr>\<rparr>"
    by (metis edge_meta.cases parent_ref.cases)
  show ?thesis
    by (cases k; cases n) (simp_all add: p to_parent_ref_def from_parent_ref_def parent_ref_ok_def)
qed

lemma utf8_chars_Nil [simp]: "utf8_chars [] = Some []"
  by (simp add: utf8_chars.simps)

lemma valid_utf8_Nil [simp]: "valid_utf8 []"
  by (simp add: valid_utf8_def)

lemma utf8_chars_ConsE:
  assumes "utf8_chars bs = Some (c # cs)"
  obtains rest where "utf8_step bs = Some (c, rest)" "utf8_chars rest = Some cs"
  using assms by (subst (asm) utf8_chars.simps) (auto split: if_splits option.splits)

lemma utf8_chars_step:
  "utf8_step bs = Some (c, rest) \<Longrightarrow> utf8_chars bs = map_option ((#) c) (utf8_chars rest)"
  by (subst utf8_chars.simps) auto

lemma utf8_chars_concat: "utf8_chars bs = Some cs \<Longrightarrow> concat cs = bs"
proof (induction cs arbitrary: bs)
  case Nil
  then show ?case by (subst (asm) utf8_chars.simps) (auto split: if_splits option.splits)
next
  case (Cons c cs)
  then show ?case by (metis concat.simps(2) utf8_chars_ConsE utf8_step_split)
qed

lemma utf8_chars_width: "utf8_chars bs = Some cs \<Longrightarrow> \<forall>c \<in> set cs. length c \<le> 4"
proof (induction cs arbitrary: bs)
  case (Cons c cs)
  then show ?case by (metis set_ConsD utf8_chars_ConsE utf8_step_split)
qed simp

lemma utf8_chars_take:
  "utf8_chars bs = Some cs \<Longrightarrow> utf8_chars (concat (take n cs)) = Some (take n cs)"
proof (induction cs arbitrary: bs n)
  case (Cons c cs)
  then obtain rest where st: "utf8_step bs = Some (c, rest)" "utf8_chars rest = Some cs"
    by (elim utf8_chars_ConsE)
  show ?case
  proof (cases n)
    case (Suc k)
    have "utf8_step (c @ concat (take k cs)) = Some (c, concat (take k cs))"
      using st(1) by (rule utf8_step_local)
    then show ?thesis
      using Suc Cons.IH [OF st(2), of k] by (simp add: utf8_chars_step)
  qed simp
qed simp

lemma length_concat_le: "\<forall>c \<in> set cs. length c \<le> k \<Longrightarrow> length (concat cs) \<le> k * length cs"
  by (induction cs) auto

lemma bounded_failure_detail_props:
  assumes "valid_utf8 d"
  defines "b \<equiv> bounded_failure_detail d"
  shows "valid_utf8 b \<and> length (the (utf8_chars b)) \<le> 512 \<and> length b \<le> 2048
    \<and> b = take (length b) d \<and> bounded_failure_detail b = b"
proof -
  obtain cs where cs: "utf8_chars d = Some cs" using assms(1) by (auto simp: valid_utf8_def)
  have d: "concat cs = d" using utf8_chars_concat [OF cs] .
  have b: "b = concat (take 512 cs)"
    using cs d by (simp add: b_def bounded_failure_detail_def MAX_FAILURE_DETAIL_LEN_def)
  have chars: "utf8_chars b = Some (take 512 cs)"
    unfolding b by (rule utf8_chars_take [OF cs])
  have "length b \<le> 4 * length (take 512 cs)"
    unfolding b using utf8_chars_width [OF cs] by (intro length_concat_le) (meson in_set_takeD)
  moreover have "d = b @ concat (drop 512 cs)"
    unfolding b d [symmetric] by (metis append_take_drop_id concat_append)
  moreover have "bounded_failure_detail b = b"
    using chars by (simp add: bounded_failure_detail_def MAX_FAILURE_DETAIL_LEN_def)
  ultimately show ?thesis using chars by (auto simp: valid_utf8_def)
qed

end
