(* ===== verification/Kx_Journal_Codec.thy ===== *)
theory Kx_Journal_Codec
  imports Kx_Journal_Entry
begin

text \<open>
  The canonical on-disk form of a journal entry (\<open>encode_entry\<close> and
  \<open>decode_entry_with_def_hash\<close> of \<open>crates/kx-journal/src/entry.rs\<close>): a 74-byte header
  followed by a body whose layout depends on the kind. Every bounds check and every
  error of the sources is a branch here.
\<close>

section \<open>Errors\<close>

datatype encode_error =
    EncTooManyParents nat
  | EncDataEdgeNonCascade
  | EncRunVersionsFieldTooLong nat
  | EncRunVersionsTooLarge nat
  | EncReplanRoundTooManyFailedSteps nat
  | EncReplanRoundTooLarge nat
  | EncReactRoundTooLarge nat
  | EncReRankRoundTooLarge nat

datatype decode_error =
    HeaderTooShort nat
  | BodyTooShort u8 nat nat
  | TooLarge nat
  | UnknownKind u8
  | UnknownNdClass u8
  | UnknownReason u8
  | UnknownEdgeKind u8
  | DataEdgeNonCascade
  | NonBooleanNonCascade u8
  | RepudiatedHeaderMismatch
  | RunRegisteredHeaderMismatch
  | RunVersionsHeaderMismatch
  | DigestSealedHeaderMismatch
  | UnknownResolvedKind u8
  | UnknownIdempotencyClass u8
  | NonBooleanHasCap u8
  | RunVersionsInvalidUtf8
  | ReplanRoundTooManyFailedSteps nat
  | NonBooleanHasEscalation u8
  | UnknownReactBranch u8
  | ReactRoundTooManyBatchCalls nat
  | UnknownReRankOutcome u8
  | ReRankRoundTooManyCandidates nat
  | UnknownReactAgenticLaunchTag u8
  | UnknownReactContextItemsTag u8
  | UnknownReactImageRefTag u8
  | UnknownReactStepSaltTag u8
  | UnknownReactRequireApprovalTag u8
  | UnknownApprovalStateTag u8
  | TrailingBytes nat

section \<open>Encoding\<close>

definition push_len_prefixed_str :: "rstring \<Rightarrow> (encode_error, bytes) result" where
  "push_len_prefixed_str s =
     (if length s < 2 ^ 16 then Inr (le_bytes 2 (of_nat (length s) :: u16) @ s)
      else Inl (EncRunVersionsFieldTooLong (length s)))"

definition push_opt32 :: "array32 option \<Rightarrow> bytes" where
  "push_opt32 x = (case x of None \<Rightarrow> [0] | Some r \<Rightarrow> [1] @ bytes32 r)"

definition push_bool :: "bool \<Rightarrow> bytes" where
  "push_bool b = [if b then 1 else 0]"

text \<open>The size guard at the end of a variable-length body.\<close>

definition cap_check :: "(nat \<Rightarrow> encode_error) \<Rightarrow> bytes \<Rightarrow> (encode_error, bytes) result" where
  "cap_check err body =
     (if HEADER_LEN + length body > MAX_ENTRY_LEN then Inl (err (HEADER_LEN + length body))
      else Inr body)"

fun entry_nd_byte :: "journal_entry \<Rightarrow> u8" where
  "entry_nd_byte (Proposed e) = nd_as_u8 (p_nondeterminism e)"
| "entry_nd_byte (Committed e) = nd_as_u8 (c_nondeterminism e)"
| "entry_nd_byte _ = 0"

definition encode_header :: "hash_fn \<Rightarrow> journal_entry \<Rightarrow> bytes" where
  "encode_header blake3 e =
     [entry_kind e] @ bytes32 (entry_mote_id blake3 e) @ bytes32 (idempotency_key e)
       @ le_bytes 8 (entry_seq e) @ [entry_nd_byte e]"

definition encode_proposed :: "proposed_entry \<Rightarrow> (encode_error, bytes) result" where
  "encode_proposed e = Inr (le_bytes 16 (p_placement_hint e) @ bytes32 (p_warrant_ref e))"

fun encode_parents :: "parent_entry list \<Rightarrow> (encode_error, bytes) result" where
  "encode_parents [] = Inr []"
| "encode_parents (p # ps) =
     (if pe_edge_kind p = 0 \<and> pe_non_cascade p \<noteq> 0 then Inl EncDataEdgeNonCascade
      else and_then (encode_parents ps)
        (\<lambda>bs. Inr (bytes32 (pe_parent_id p) @ [pe_edge_kind p, pe_non_cascade p] @ bs)))"

definition encode_committed :: "committed_entry \<Rightarrow> (encode_error, bytes) result" where
  "encode_committed e =
     (if length (c_parents e) > MAX_PARENTS then Inl (EncTooManyParents (length (c_parents e)))
      else and_then (encode_parents (c_parents e))
        (\<lambda>bs. Inr (bytes32 (c_result_ref e) @ bytes32 (c_warrant_ref e)
              @ le_bytes 2 (of_nat (length (c_parents e)) :: u16) @ bs)))"

definition encode_repudiated :: "repudiated_entry \<Rightarrow> (encode_error, bytes) result" where
  "encode_repudiated e =
     Inr (bytes32 (r_target_mote_id e) @ le_bytes 8 (r_target_committed_seq e)
       @ [repudiation_reason_as_u8 (r_reason_class e)] @ le_bytes 16 (r_repudiator_id e))"

definition encode_failed :: "failed_entry \<Rightarrow> (encode_error, bytes) result" where
  "encode_failed e =
     and_then (push_len_prefixed_str (f_detail e))
       (\<lambda>d. Inr ([failure_reason_as_u8 (f_reason_class e)] @ le_bytes 16 (f_reporter_id e) @ d))"

definition encode_run_registered :: "run_registered_entry \<Rightarrow> (encode_error, bytes) result" where
  "encode_run_registered e =
     Inr (bytes16 (rr_instance_id e) @ bytes32 (rr_recipe_fingerprint e) @ le_bytes 8 (rr_ts e))"

definition encode_capability :: "resolved_capability_record option \<Rightarrow> (encode_error, bytes) result" where
  "encode_capability c =
     (case c of
        None \<Rightarrow> Inr [0]
      | Some cap \<Rightarrow>
          and_then (push_len_prefixed_str (rc_tool_id cap)) (\<lambda>t.
          and_then (push_len_prefixed_str (rc_tool_version cap)) (\<lambda>v.
            Inr ([1] @ t @ v @ [resolved_kind_as_u8 (rc_resolved_kind cap)]
              @ bytes32 (rc_resolved_def_hash cap)
              @ [idempotency_class_as_u8 (rc_idempotency_class cap)]))))"

definition encode_run_versions :: "run_versions_entry \<Rightarrow> (encode_error, bytes) result" where
  "encode_run_versions e =
     and_then (push_len_prefixed_str (rv_model_id e)) (\<lambda>m.
     and_then (encode_capability (rv_capability e)) (\<lambda>c.
       cap_check EncRunVersionsTooLarge
         (bytes16 (rv_instance_id e) @ bytes32 (rv_warrant_ref e) @ m @ c)))"

definition encode_digest_sealed :: "digest_sealed_entry \<Rightarrow> (encode_error, bytes) result" where
  "encode_digest_sealed e = Inr (le_bytes 8 (dg_through_seq e) @ bytes32 (dg_state_digest e))"

definition encode_replan_round :: "replan_round_entry \<Rightarrow> (encode_error, bytes) result" where
  "encode_replan_round e =
     (if length (rp_failed_steps e) > MAX_REPLAN_FAILED_STEPS
      then Inl (EncReplanRoundTooManyFailedSteps (length (rp_failed_steps e)))
      else and_then (push_len_prefixed_str (rp_model_id e)) (\<lambda>m.
        cap_check EncReplanRoundTooLarge
          (le_bytes 4 (rp_round e) @ bytes32 (rp_base_prompt_ref e)
            @ bytes32 (rp_corrected_prompt_ref e) @ bytes32 (rp_warrant_ref e) @ m
            @ le_bytes 2 (of_nat (length (rp_failed_steps e)) :: u16)
            @ concat (map bytes32 (rp_failed_steps e))
            @ push_opt32 (rp_escalation_reason_ref e))))"

fun encode_calls :: "(rstring \<times> rstring) list \<Rightarrow> (encode_error, bytes) result" where
  "encode_calls [] = Inr []"
| "encode_calls ((tool_id, tool_version) # calls) =
     and_then (push_len_prefixed_str tool_id) (\<lambda>t.
     and_then (push_len_prefixed_str tool_version) (\<lambda>v.
     and_then (encode_calls calls) (\<lambda>bs. Inr (t @ v @ bs))))"

fun encode_branch :: "react_branch \<Rightarrow> (encode_error, bytes) result" where
  "encode_branch (ToolCall tool_id tool_version) =
     and_then (push_len_prefixed_str tool_id) (\<lambda>t.
     and_then (push_len_prefixed_str tool_version) (\<lambda>v. Inr (t @ v)))"
| "encode_branch (Rejected reason) = push_len_prefixed_str reason"
| "encode_branch (ToolBatch calls) =
     (if length calls < 2 ^ 16
      then and_then (encode_calls calls)
             (\<lambda>bs. Inr (le_bytes 2 (of_nat (length calls) :: u16) @ bs))
      else Inl (EncReactRoundTooLarge (length calls)))"
| "encode_branch Answer = Inr []"
| "encode_branch RDeadLettered = Inr []"
| "encode_branch RPending = Inr []"

definition encode_react_round :: "react_round_entry \<Rightarrow> (encode_error, bytes) result" where
  "encode_react_round e =
     and_then (push_len_prefixed_str (ra_model_id e)) (\<lambda>m.
     and_then (encode_branch (ra_branch e)) (\<lambda>b.
       cap_check EncReactRoundTooLarge
         (le_bytes 4 (ra_turn e) @ bytes16 (ra_instance_id e) @ bytes32 (ra_base_prompt_ref e)
           @ bytes32 (ra_warrant_ref e) @ m @ [react_branch_as_u8 (ra_branch e)] @ b
           @ le_bytes 4 (ra_max_turns e) @ le_bytes 4 (ra_max_tool_calls e)
           @ push_opt32 (ra_step_salt e) @ push_bool (ra_is_agentic_launch e)
           @ push_opt32 (ra_context_items_ref e) @ push_opt32 (ra_image_ref e)
           @ push_bool (ra_require_approval e))))"

fun encode_outcome :: "rerank_outcome \<Rightarrow> (encode_error, bytes) result" where
  "encode_outcome (Reranked permutation) =
     (if length permutation > MAX_RERANK_CANDIDATES
      then Inl (EncReRankRoundTooLarge (length permutation))
      else Inr (le_bytes 2 (of_nat (length permutation) :: u16) @ concat (map (le_bytes 4) permutation)))"
| "encode_outcome RkPending = Inr []"
| "encode_outcome FailedClosed = Inr []"

definition encode_rerank_round :: "rerank_round_entry \<Rightarrow> (encode_error, bytes) result" where
  "encode_rerank_round e =
     and_then (push_len_prefixed_str (rk_model_id e)) (\<lambda>m.
     and_then (encode_outcome (rk_outcome e)) (\<lambda>p.
       cap_check EncReRankRoundTooLarge
         (le_bytes 4 (rk_round e) @ bytes16 (rk_instance_id e) @ bytes32 (rk_base_results_ref e)
           @ bytes32 (rk_query_ref e) @ bytes32 (rk_warrant_ref e) @ m
           @ le_bytes 4 (rk_candidate_count e) @ [rerank_outcome_as_u8 (rk_outcome e)] @ p)))"

definition encode_timer_armed :: "timer_armed_entry \<Rightarrow> (encode_error, bytes) result" where
  "encode_timer_armed e =
     Inr (bytes16 (tm_instance_id e) @ [tm_purpose e] @ le_bytes 4 (tm_attempt e)
       @ le_bytes 8 (tm_fire_at_unix_ms e) @ bytes32 (tm_anchor_ref e))"

fun encode_approval_state :: "approval_state \<Rightarrow> (encode_error, bytes) result" where
  "encode_approval_state (Requested tool_id tool_version intent deadline created) =
     and_then (push_len_prefixed_str tool_id) (\<lambda>t.
     and_then (push_len_prefixed_str tool_version) (\<lambda>v.
     and_then (push_len_prefixed_str intent) (\<lambda>i.
       Inr (t @ v @ i @ le_bytes 8 deadline @ le_bytes 8 created))))"
| "encode_approval_state (Granted approver_id reason decided) =
     and_then (push_len_prefixed_str reason) (\<lambda>r. Inr (le_bytes 8 approver_id @ r @ le_bytes 8 decided))"
| "encode_approval_state (Denied approver_id reason decided) =
     and_then (push_len_prefixed_str reason) (\<lambda>r. Inr (le_bytes 8 approver_id @ r @ le_bytes 8 decided))"
| "encode_approval_state (Expired expired) = Inr (le_bytes 8 expired)"

definition encode_approval :: "approval_entry \<Rightarrow> (encode_error, bytes) result" where
  "encode_approval e =
     and_then (encode_approval_state (ap_state e)) (\<lambda>s.
       cap_check EncReactRoundTooLarge
         (bytes16 (ap_instance_id e) @ bytes16 (ap_request_id e)
           @ [approval_state_as_u8 (ap_state e)] @ s))"

fun encode_body :: "journal_entry \<Rightarrow> (encode_error, bytes) result" where
  "encode_body (Proposed e) = encode_proposed e"
| "encode_body (Committed e) = encode_committed e"
| "encode_body (Repudiated e) = encode_repudiated e"
| "encode_body (Failed e) = encode_failed e"
| "encode_body (EffectStaged e) = Inr []"
| "encode_body (RunRegistered e) = encode_run_registered e"
| "encode_body (RunVersionsResolved e) = encode_run_versions e"
| "encode_body (DigestSealed e) = encode_digest_sealed e"
| "encode_body (ReplanRound e) = encode_replan_round e"
| "encode_body (ReactRound e) = encode_react_round e"
| "encode_body (Approval e) = encode_approval e"
| "encode_body (ReRankRound e) = encode_rerank_round e"
| "encode_body (TimerArmed e) = encode_timer_armed e"

definition encode_entry :: "hash_fn \<Rightarrow> journal_entry \<Rightarrow> (encode_error, bytes) result" where
  "encode_entry blake3 e = and_then (encode_body e) (\<lambda>body. Inr (encode_header blake3 e @ body))"

section \<open>Cursor reads\<close>

text \<open>Each read returns the value and the advanced cursor.\<close>

definition slice :: "nat \<Rightarrow> nat \<Rightarrow> bytes \<Rightarrow> bytes" where
  "slice i j bs = take (j - i) (drop i bs)"

definition read_u8 :: "bytes \<Rightarrow> nat \<Rightarrow> u8 \<Rightarrow> (decode_error, u8 \<times> nat) result" where
  "read_u8 body cursor kind =
     (if length body < cursor + 1 then Inl (BodyTooShort kind (length body) (cursor + 1))
      else Inr (body ! cursor, cursor + 1))"

definition read_u16 :: "bytes \<Rightarrow> nat \<Rightarrow> u8 \<Rightarrow> (decode_error, u16 \<times> nat) result" where
  "read_u16 body cursor kind =
     (if length body < cursor + 2 then Inl (BodyTooShort kind (length body) (cursor + 2))
      else Inr (le_word (slice cursor (cursor + 2) body), cursor + 2))"

definition read_u32 :: "bytes \<Rightarrow> nat \<Rightarrow> u8 \<Rightarrow> (decode_error, u32 \<times> nat) result" where
  "read_u32 body cursor kind =
     (if length body < cursor + 4 then Inl (BodyTooShort kind (length body) (cursor + 4))
      else Inr (le_word (slice cursor (cursor + 4) body), cursor + 4))"

definition read_u64 :: "bytes \<Rightarrow> nat \<Rightarrow> u8 \<Rightarrow> (decode_error, u64 \<times> nat) result" where
  "read_u64 body cursor kind =
     (if length body < cursor + 8 then Inl (BodyTooShort kind (length body) (cursor + 8))
      else Inr (le_word (slice cursor (cursor + 8) body), cursor + 8))"

definition read_array32 :: "bytes \<Rightarrow> nat \<Rightarrow> u8 \<Rightarrow> (decode_error, array32 \<times> nat) result" where
  "read_array32 body cursor kind =
     (if length body < cursor + 32 then Inl (BodyTooShort kind (length body) (cursor + 32))
      else Inr (be_word (slice cursor (cursor + 32) body), cursor + 32))"

definition read_len_prefixed_str :: "bytes \<Rightarrow> nat \<Rightarrow> u8 \<Rightarrow> (decode_error, rstring \<times> nat) result" where
  "read_len_prefixed_str body cursor kind =
     (if length body < cursor + 2 then Inl (BodyTooShort kind (length body) (cursor + 2))
      else let n = unat (le_word (slice cursor (cursor + 2) body) :: u16); c = cursor + 2 in
        if length body < c + n then Inl (BodyTooShort kind (length body) (c + n))
        else if \<not> valid_utf8 (slice c (c + n) body) then Inl RunVersionsInvalidUtf8
        else Inr (slice c (c + n) body, c + n))"

text \<open>\<open>for _ in 0..n { v.push(rd(body, &mut cursor, kind)?) }\<close>.\<close>

primrec read_n ::
  "nat \<Rightarrow> (bytes \<Rightarrow> nat \<Rightarrow> u8 \<Rightarrow> (decode_error, 'a \<times> nat) result) \<Rightarrow>
     bytes \<Rightarrow> nat \<Rightarrow> u8 \<Rightarrow> (decode_error, 'a list \<times> nat) result"
where
  "read_n 0 rd body cursor kind = Inr ([], cursor)"
| "read_n (Suc n) rd body cursor kind =
     and_then (rd body cursor kind) (\<lambda>(x, cursor).
     and_then (read_n n rd body cursor kind) (\<lambda>(xs, cursor). Inr (x # xs, cursor)))"

definition read_call :: "bytes \<Rightarrow> nat \<Rightarrow> u8 \<Rightarrow> (decode_error, (rstring \<times> rstring) \<times> nat) result" where
  "read_call body cursor kind =
     and_then (read_len_prefixed_str body cursor kind) (\<lambda>(tool_id, cursor).
     and_then (read_len_prefixed_str body cursor kind) (\<lambda>(tool_version, cursor).
       Inr ((tool_id, tool_version), cursor)))"

text \<open>\<open>present(0|1)\<close> followed by 32 bytes when present; \<open>err\<close> is the tag error.\<close>

definition read_opt32 ::
  "(u8 \<Rightarrow> decode_error) \<Rightarrow> bytes \<Rightarrow> nat \<Rightarrow> u8 \<Rightarrow> (decode_error, array32 option \<times> nat) result"
where
  "read_opt32 err body cursor kind =
     and_then (read_u8 body cursor kind) (\<lambda>(tag, cursor).
       if tag = 0 then Inr (None, cursor)
       else if tag = 1 then
         and_then (read_array32 body cursor kind) (\<lambda>(x, cursor). Inr (Some x, cursor))
       else Inl (err tag))"

definition read_bool ::
  "(u8 \<Rightarrow> decode_error) \<Rightarrow> bytes \<Rightarrow> nat \<Rightarrow> u8 \<Rightarrow> (decode_error, bool \<times> nat) result"
where
  "read_bool err body cursor kind =
     and_then (read_u8 body cursor kind) (\<lambda>(tag, cursor).
       if tag = 0 then Inr (False, cursor)
       else if tag = 1 then Inr (True, cursor)
       else Inl (err tag))"

definition no_trailing :: "bytes \<Rightarrow> nat \<Rightarrow> 'a \<Rightarrow> (decode_error, 'a) result" where
  "no_trailing body cursor x =
     (if cursor \<noteq> length body then Inl (TrailingBytes (length body - cursor)) else Inr x)"

definition nd_class_from_byte :: "u8 \<Rightarrow> (decode_error, nd_class) result" where
  "nd_class_from_byte b =
     (if b = 0 then Inr Pure else if b = 1 then Inr ReadOnlyNondet
      else if b = 2 then Inr WorldMutating else Inl (UnknownNdClass b))"

section \<open>Decoding\<close>

record entry_header =
  h_kind :: u8
  h_mote_id :: mote_id
  h_key :: array32
  h_seq :: u64
  h_nd :: u8

definition decode_header :: "bytes \<Rightarrow> entry_header" where
  "decode_header bs = \<lparr>h_kind = bs ! 0, h_mote_id = be_word (slice 1 33 bs),
     h_key = be_word (slice 33 65 bs), h_seq = le_word (slice 65 73 bs), h_nd = bs ! 73\<rparr>"

definition decode_proposed :: "entry_header \<Rightarrow> bytes \<Rightarrow> (decode_error, journal_entry) result" where
  "decode_proposed h body =
     (if length body < 48 then Inl (BodyTooShort (h_kind h) (length body) 48)
      else and_then (nd_class_from_byte (h_nd h)) (\<lambda>nd.
        if length body > 48 then Inl (TrailingBytes (length body - 48))
        else Inr (Proposed \<lparr>p_mote_id = h_mote_id h, p_idempotency_key = h_key h, p_seq = h_seq h,
               p_nondeterminism = nd, p_placement_hint = le_word (take 16 body),
               p_warrant_ref = be_word (slice 16 48 body)\<rparr>)))"

fun decode_parents :: "bytes \<Rightarrow> nat list \<Rightarrow> (decode_error, parent_entry list) result" where
  "decode_parents body [] = Inr []"
| "decode_parents body (i # is) =
     (let base = 66 + i * 34;
          edge_kind = body ! (base + 32);
          non_cascade = body ! (base + 33)
      in if edge_kind > 1 then Inl (UnknownEdgeKind edge_kind)
         else if edge_kind = 0 \<and> non_cascade \<noteq> 0 then Inl DataEdgeNonCascade
         else if non_cascade > 1 then Inl (NonBooleanNonCascade non_cascade)
         else and_then (decode_parents body is) (\<lambda>ps.
           Inr (\<lparr>pe_parent_id = be_word (slice base (base + 32) body),
                 pe_edge_kind = edge_kind, pe_non_cascade = non_cascade\<rparr> # ps)))"

definition decode_committed ::
  "mote_def_hash \<Rightarrow> entry_header \<Rightarrow> bytes \<Rightarrow> (decode_error, journal_entry) result"
where
  "decode_committed mote_def_hash h body =
     (if length body < 66 then Inl (BodyTooShort (h_kind h) (length body) 66)
      else and_then (nd_class_from_byte (h_nd h)) (\<lambda>nd.
        let n = unat (le_word (slice 64 66 body) :: u16); expected = 66 + n * 34 in
        if length body < expected then Inl (BodyTooShort (h_kind h) (length body) expected)
        else if length body > expected then Inl (TrailingBytes (length body - expected))
        else and_then (decode_parents body [0..<n]) (\<lambda>ps.
          Inr (Committed \<lparr>c_mote_id = h_mote_id h, c_idempotency_key = h_key h, c_seq = h_seq h,
            c_nondeterminism = nd, c_result_ref = be_word (take 32 body), c_parents = ps,
            c_warrant_ref = be_word (slice 32 64 body), c_mote_def_hash = mote_def_hash\<rparr>))))"

definition decode_repudiated :: "entry_header \<Rightarrow> bytes \<Rightarrow> (decode_error, journal_entry) result" where
  "decode_repudiated h body =
     (if length body \<noteq> 57 then Inl (BodyTooShort (h_kind h) (length body) 57)
      else if be_word (take 32 body) \<noteq> h_mote_id h then Inl RepudiatedHeaderMismatch
      else and_then (ok_or (repudiation_reason_from_u8 (body ! 40)) (UnknownReason (body ! 40))) (\<lambda>rc.
        Inr (Repudiated \<lparr>r_target_mote_id = be_word (take 32 body), r_idempotency_key = h_key h,
          r_seq = h_seq h, r_target_committed_seq = le_word (slice 32 40 body),
          r_reason_class = rc, r_repudiator_id = le_word (slice 41 57 body)\<rparr>)))"

definition decode_failed :: "entry_header \<Rightarrow> bytes \<Rightarrow> (decode_error, journal_entry) result" where
  "decode_failed h body =
     (if length body < 17 then Inl (BodyTooShort (h_kind h) (length body) 17)
      else and_then (ok_or (failure_reason_from_u8 (body ! 0)) (UnknownReason (body ! 0))) (\<lambda>rc.
        and_then (if 17 < length body then read_len_prefixed_str body 17 (h_kind h) else Inr ([], 17))
          (\<lambda>(detail, cursor).
            no_trailing body cursor
              (Failed \<lparr>f_mote_id = h_mote_id h, f_idempotency_key = h_key h, f_seq = h_seq h,
                f_reason_class = rc, f_reporter_id = le_word (slice 1 17 body), f_detail = detail\<rparr>))))"

definition decode_effect_staged :: "entry_header \<Rightarrow> bytes \<Rightarrow> (decode_error, journal_entry) result" where
  "decode_effect_staged h body =
     (if body \<noteq> [] then Inl (TrailingBytes (length body))
      else Inr (EffectStaged \<lparr>es_mote_id = h_mote_id h, es_idempotency_key = h_key h, es_seq = h_seq h\<rparr>))"

definition decode_run_registered ::
  "hash_fn \<Rightarrow> entry_header \<Rightarrow> bytes \<Rightarrow> (decode_error, journal_entry) result"
where
  "decode_run_registered blake3 h body =
     (if length body \<noteq> 56 then Inl (BodyTooShort (h_kind h) (length body) 56)
      else if h_mote_id h \<noteq> run_root_id blake3 (be_word (take 16 body))
      then Inl RunRegisteredHeaderMismatch
      else Inr (RunRegistered \<lparr>rr_instance_id = be_word (take 16 body),
             rr_recipe_fingerprint = be_word (slice 16 48 body),
             rr_ts = le_word (slice 48 56 body), rr_seq = h_seq h\<rparr>))"

definition decode_capability ::
  "bytes \<Rightarrow> nat \<Rightarrow> u8 \<Rightarrow> (decode_error, resolved_capability_record option \<times> nat) result"
where
  "decode_capability body cursor kind =
     and_then (read_u8 body cursor kind) (\<lambda>(has_cap, cursor).
       if has_cap = 0 then Inr (None, cursor)
       else if has_cap = 1 then
         and_then (read_len_prefixed_str body cursor kind) (\<lambda>(tool_id, cursor).
         and_then (read_len_prefixed_str body cursor kind) (\<lambda>(tool_version, cursor).
         and_then (read_u8 body cursor kind) (\<lambda>(tag_byte, cursor).
         and_then (ok_or (resolved_kind_from_u8 tag_byte) (UnknownResolvedKind tag_byte)) (\<lambda>rk.
         and_then (read_array32 body cursor kind) (\<lambda>(def_hash, cursor).
         and_then (read_u8 body cursor kind) (\<lambda>(class_byte, cursor).
         and_then (ok_or (idempotency_class_from_u8 class_byte)
                    (UnknownIdempotencyClass class_byte)) (\<lambda>ic.
           Inr (Some \<lparr>rc_tool_id = tool_id, rc_tool_version = tool_version, rc_resolved_kind = rk,
                 rc_resolved_def_hash = def_hash, rc_idempotency_class = ic\<rparr>, cursor))))))))
       else Inl (NonBooleanHasCap has_cap))"

definition decode_run_versions ::
  "hash_fn \<Rightarrow> entry_header \<Rightarrow> bytes \<Rightarrow> (decode_error, journal_entry) result"
where
  "decode_run_versions blake3 h body =
     (if length body < 51 then Inl (BodyTooShort (h_kind h) (length body) 51)
      else if h_mote_id h \<noteq> run_root_id blake3 (be_word (take 16 body))
      then Inl RunVersionsHeaderMismatch
      else and_then (read_len_prefixed_str body 48 (h_kind h)) (\<lambda>(model_id, cursor).
        and_then (decode_capability body cursor (h_kind h)) (\<lambda>(capability, cursor).
          no_trailing body cursor
            (RunVersionsResolved \<lparr>rv_instance_id = be_word (take 16 body),
              rv_warrant_ref = be_word (slice 16 48 body), rv_model_id = model_id,
              rv_capability = capability, rv_seq = h_seq h\<rparr>))))"

definition decode_digest_sealed ::
  "hash_fn \<Rightarrow> entry_header \<Rightarrow> bytes \<Rightarrow> (decode_error, journal_entry) result"
where
  "decode_digest_sealed blake3 h body =
     (if length body \<noteq> 40 then Inl (BodyTooShort (h_kind h) (length body) 40)
      else if h_mote_id h \<noteq> seal_root_id blake3 (le_word (take 8 body))
      then Inl DigestSealedHeaderMismatch
      else Inr (DigestSealed \<lparr>dg_through_seq = le_word (take 8 body),
             dg_state_digest = be_word (slice 8 40 body), dg_seq = h_seq h\<rparr>))"

definition decode_replan_round :: "entry_header \<Rightarrow> bytes \<Rightarrow> (decode_error, journal_entry) result" where
  "decode_replan_round h body =
     (let kind = h_kind h in
      if length body < 104 then Inl (BodyTooShort kind (length body) 104)
      else
        and_then (read_array32 body 4 kind) (\<lambda>(base_prompt_ref, cursor).
        and_then (read_array32 body cursor kind) (\<lambda>(corrected_prompt_ref, cursor).
        and_then (read_array32 body cursor kind) (\<lambda>(warrant_ref, cursor).
        and_then (read_len_prefixed_str body cursor kind) (\<lambda>(model_id, cursor).
        and_then (read_u16 body cursor kind) (\<lambda>(count, cursor).
        if unat count > MAX_REPLAN_FAILED_STEPS
        then Inl (ReplanRoundTooManyFailedSteps (unat count))
        else
        and_then (read_n (unat count) read_array32 body cursor kind) (\<lambda>(failed_steps, cursor).
        and_then (read_opt32 NonBooleanHasEscalation body cursor kind) (\<lambda>(escalation, cursor).
          no_trailing body cursor
            (ReplanRound \<lparr>rp_round = le_word (take 4 body), rp_shaper_mote_id = h_mote_id h,
              rp_base_prompt_ref = base_prompt_ref, rp_corrected_prompt_ref = corrected_prompt_ref,
              rp_warrant_ref = warrant_ref, rp_model_id = model_id, rp_failed_steps = failed_steps,
              rp_escalation_reason_ref = escalation, rp_seq = h_seq h\<rparr>)))))))))"

definition decode_branch :: "bytes \<Rightarrow> nat \<Rightarrow> u8 \<Rightarrow> (decode_error, react_branch \<times> nat) result" where
  "decode_branch body cursor kind =
     and_then (read_u8 body cursor kind) (\<lambda>(tag, cursor).
       if tag = 0 then Inr (Answer, cursor)
       else if tag = 1 then
         and_then (read_len_prefixed_str body cursor kind) (\<lambda>(tool_id, cursor).
         and_then (read_len_prefixed_str body cursor kind) (\<lambda>(tool_version, cursor).
           Inr (ToolCall tool_id tool_version, cursor)))
       else if tag = 2 then Inr (RDeadLettered, cursor)
       else if tag = 3 then Inr (RPending, cursor)
       else if tag = 4 then
         and_then (read_len_prefixed_str body cursor kind) (\<lambda>(reason, cursor).
           Inr (Rejected reason, cursor))
       else if tag = 5 then
         and_then (read_u16 body cursor kind) (\<lambda>(count, cursor).
           if unat count > MAX_TOOL_BATCH_CALLS then Inl (ReactRoundTooManyBatchCalls (unat count))
           else and_then (read_n (unat count) read_call body cursor kind) (\<lambda>(calls, cursor).
             Inr (ToolBatch calls, cursor)))
       else Inl (UnknownReactBranch tag))"

text \<open>
  Trailing fields added by later schema versions: a body that ends early takes the
  default of the version that wrote it.
\<close>

definition read_or :: "'a \<Rightarrow> (bytes \<Rightarrow> nat \<Rightarrow> u8 \<Rightarrow> (decode_error, 'a \<times> nat) result) \<Rightarrow>
    bytes \<Rightarrow> nat \<Rightarrow> u8 \<Rightarrow> (decode_error, 'a \<times> nat) result"
where
  "read_or d rd body cursor kind = (if cursor < length body then rd body cursor kind else Inr (d, cursor))"

definition decode_react_round :: "entry_header \<Rightarrow> bytes \<Rightarrow> (decode_error, journal_entry) result" where
  "decode_react_round h body =
     (let kind = h_kind h in
      if length body < 86 then Inl (BodyTooShort kind (length body) 86)
      else
        and_then (read_array32 body 20 kind) (\<lambda>(base_prompt_ref, cursor).
        and_then (read_array32 body cursor kind) (\<lambda>(warrant_ref, cursor).
        and_then (read_len_prefixed_str body cursor kind) (\<lambda>(model_id, cursor).
        and_then (decode_branch body cursor kind) (\<lambda>(branch, cursor).
        and_then (read_u32 body cursor kind) (\<lambda>(max_turns, cursor).
        and_then (read_u32 body cursor kind) (\<lambda>(max_tool_calls, cursor).
        and_then (read_opt32 UnknownReactStepSaltTag body cursor kind) (\<lambda>(step_salt, cursor).
        and_then (read_or (step_salt \<noteq> None) (read_bool UnknownReactAgenticLaunchTag) body cursor kind)
          (\<lambda>(is_agentic_launch, cursor).
        and_then (read_or None (read_opt32 UnknownReactContextItemsTag) body cursor kind)
          (\<lambda>(context_items_ref, cursor).
        and_then (read_or None (read_opt32 UnknownReactImageRefTag) body cursor kind)
          (\<lambda>(image_ref, cursor).
        and_then (read_or False (read_bool UnknownReactRequireApprovalTag) body cursor kind)
          (\<lambda>(require_approval, cursor).
          no_trailing body cursor
            (ReactRound \<lparr>ra_turn = le_word (take 4 body), ra_turn_mote_id = h_mote_id h,
              ra_instance_id = be_word (slice 4 20 body), ra_base_prompt_ref = base_prompt_ref,
              ra_warrant_ref = warrant_ref, ra_model_id = model_id, ra_branch = branch,
              ra_max_turns = max_turns, ra_max_tool_calls = max_tool_calls,
              ra_step_salt = step_salt, ra_is_agentic_launch = is_agentic_launch,
              ra_context_items_ref = context_items_ref, ra_image_ref = image_ref,
              ra_require_approval = require_approval, ra_seq = h_seq h\<rparr>)))))))))))))"

definition decode_outcome :: "bytes \<Rightarrow> nat \<Rightarrow> u8 \<Rightarrow> (decode_error, rerank_outcome \<times> nat) result" where
  "decode_outcome body cursor kind =
     and_then (read_u8 body cursor kind) (\<lambda>(tag, cursor).
       if tag = 0 then Inr (RkPending, cursor)
       else if tag = 1 then
         and_then (read_u16 body cursor kind) (\<lambda>(count, cursor).
           if unat count > MAX_RERANK_CANDIDATES then Inl (ReRankRoundTooManyCandidates (unat count))
           else and_then (read_n (unat count) read_u32 body cursor kind) (\<lambda>(permutation, cursor).
             Inr (Reranked permutation, cursor)))
       else if tag = 2 then Inr (FailedClosed, cursor)
       else Inl (UnknownReRankOutcome tag))"

definition decode_rerank_round :: "entry_header \<Rightarrow> bytes \<Rightarrow> (decode_error, journal_entry) result" where
  "decode_rerank_round h body =
     (let kind = h_kind h in
      if length body < 118 then Inl (BodyTooShort kind (length body) 118)
      else
        and_then (read_array32 body 20 kind) (\<lambda>(base_results_ref, cursor).
        and_then (read_array32 body cursor kind) (\<lambda>(query_ref, cursor).
        and_then (read_array32 body cursor kind) (\<lambda>(warrant_ref, cursor).
        and_then (read_len_prefixed_str body cursor kind) (\<lambda>(model_id, cursor).
        and_then (read_u32 body cursor kind) (\<lambda>(candidate_count, cursor).
        and_then (decode_outcome body cursor kind) (\<lambda>(outcome, cursor).
          no_trailing body cursor
            (ReRankRound \<lparr>rk_round = le_word (take 4 body), rk_rerank_mote_id = h_mote_id h,
              rk_instance_id = be_word (slice 4 20 body), rk_base_results_ref = base_results_ref,
              rk_query_ref = query_ref, rk_warrant_ref = warrant_ref, rk_model_id = model_id,
              rk_candidate_count = candidate_count, rk_outcome = outcome, rk_seq = h_seq h\<rparr>))))))))"

definition decode_approval_state ::
  "bytes \<Rightarrow> nat \<Rightarrow> u8 \<Rightarrow> (decode_error, approval_state \<times> nat) result"
where
  "decode_approval_state body cursor kind =
     and_then (read_u8 body cursor kind) (\<lambda>(tag, cursor).
       if tag = 0 then
         and_then (read_len_prefixed_str body cursor kind) (\<lambda>(tool_id, cursor).
         and_then (read_len_prefixed_str body cursor kind) (\<lambda>(tool_version, cursor).
         and_then (read_len_prefixed_str body cursor kind) (\<lambda>(intent, cursor).
         and_then (read_u64 body cursor kind) (\<lambda>(deadline, cursor).
         and_then (read_u64 body cursor kind) (\<lambda>(created, cursor).
           Inr (Requested tool_id tool_version intent deadline created, cursor))))))
       else if tag = 1 \<or> tag = 2 then
         and_then (read_u64 body cursor kind) (\<lambda>(approver_id, cursor).
         and_then (read_len_prefixed_str body cursor kind) (\<lambda>(reason, cursor).
         and_then (read_u64 body cursor kind) (\<lambda>(decided, cursor).
           Inr (if tag = 1 then Granted approver_id reason decided
                else Denied approver_id reason decided, cursor))))
       else if tag = 3 then
         and_then (read_u64 body cursor kind) (\<lambda>(expired, cursor). Inr (Expired expired, cursor))
       else Inl (UnknownApprovalStateTag tag))"

definition decode_approval :: "entry_header \<Rightarrow> bytes \<Rightarrow> (decode_error, journal_entry) result" where
  "decode_approval h body =
     (if length body < 33 then Inl (BodyTooShort (h_kind h) (length body) 33)
      else and_then (decode_approval_state body 32 (h_kind h)) (\<lambda>(state, cursor).
        no_trailing body cursor
          (Approval \<lparr>ap_instance_id = be_word (slice 0 16 body), ap_request_id = be_word (slice 16 32 body),
            ap_awaiting_mote_id = h_mote_id h, ap_state = state, ap_seq = h_seq h\<rparr>)))"

definition decode_timer_armed :: "entry_header \<Rightarrow> bytes \<Rightarrow> (decode_error, journal_entry) result" where
  "decode_timer_armed h body =
     (let kind = h_kind h in
      if length body \<noteq> 61 then Inl (BodyTooShort kind (length body) 61)
      else
        and_then (read_u8 body 16 kind) (\<lambda>(purpose, cursor).
        if purpose > 1 then Inl (UnknownKind kind)
        else
        and_then (read_u32 body cursor kind) (\<lambda>(attempt, cursor).
        and_then (read_u64 body cursor kind) (\<lambda>(fire_at, cursor).
        and_then (read_array32 body cursor kind) (\<lambda>(anchor_ref, cursor).
          Inr (TimerArmed \<lparr>tm_instance_id = be_word (slice 0 16 body), tm_subject_mote_id = h_mote_id h,
            tm_purpose = purpose, tm_attempt = attempt, tm_fire_at_unix_ms = fire_at,
            tm_anchor_ref = anchor_ref, tm_seq = h_seq h\<rparr>))))))"

definition decode_entry_with_def_hash ::
  "hash_fn \<Rightarrow> bytes \<Rightarrow> mote_def_hash \<Rightarrow> (decode_error, journal_entry) result"
where
  "decode_entry_with_def_hash blake3 bs mote_def_hash =
     (if length bs > MAX_ENTRY_LEN then Inl (TooLarge (length bs))
      else if length bs < HEADER_LEN then Inl (HeaderTooShort (length bs))
      else let h = decode_header bs; kind = h_kind h; body = drop HEADER_LEN bs in
        if kind = KIND_PROPOSED then decode_proposed h body
        else if kind = KIND_COMMITTED then decode_committed mote_def_hash h body
        else if kind = KIND_REPUDIATED then decode_repudiated h body
        else if kind = KIND_FAILED then decode_failed h body
        else if kind = KIND_EFFECT_STAGED then decode_effect_staged h body
        else if kind = KIND_RUN_REGISTERED then decode_run_registered blake3 h body
        else if kind = KIND_RUN_VERSIONS_RESOLVED then decode_run_versions blake3 h body
        else if kind = KIND_DIGEST_SEALED then decode_digest_sealed blake3 h body
        else if kind = KIND_REPLAN_ROUND then decode_replan_round h body
        else if kind = KIND_REACT_ROUND then decode_react_round h body
        else if kind = KIND_RERANK_ROUND then decode_rerank_round h body
        else if kind = KIND_APPROVAL then decode_approval h body
        else if kind = KIND_TIMER_ARMED then decode_timer_armed h body
        else Inl (UnknownKind kind))"

definition decode_entry :: "hash_fn \<Rightarrow> bytes \<Rightarrow> (decode_error, journal_entry) result" where
  "decode_entry blake3 bs = decode_entry_with_def_hash blake3 bs 0"

end
