(* ===== verification/Kx_Journal_Roundtrip.thy ===== *)
theory Kx_Journal_Roundtrip
  imports Kx_Journal_Codec
begin

text \<open>
  Correctness of the journal codec. \<open>reads rd x p\<close> says that the cursor reader \<open>rd\<close>
  recovers \<open>x\<close> from the block \<open>p\<close> wherever it stands; one such lemma per reader composes,
  by \<open>reads_step\<close>, into one lemma per entry kind. The converse direction collects what a
  successful decode guarantees.
\<close>

section \<open>Reading back what was written\<close>

text \<open>The cursor stands in front of \<open>rest\<close>, the remaining bytes of the body.\<close>

definition at_cursor :: "bytes \<Rightarrow> nat \<Rightarrow> bytes \<Rightarrow> bool" where
  "at_cursor body c rest = (c \<le> length body \<and> drop c body = rest)"

text \<open>A reader turns the block \<open>p\<close> into \<open>x\<close> wherever the block stands.\<close>

definition reads ::
  "(bytes \<Rightarrow> nat \<Rightarrow> u8 \<Rightarrow> (decode_error, 'a \<times> nat) result) \<Rightarrow> 'a \<Rightarrow> bytes \<Rightarrow> bool"
where
  "reads rd x p = (\<forall>body c k rest. at_cursor body c (p @ rest) \<longrightarrow> rd body c k = Inr (x, c + length p))"

lemma at_cursor_start: "body = p @ rest \<Longrightarrow> c = length p \<Longrightarrow> at_cursor body c rest"
  by (simp add: at_cursor_def)

lemma at_cursor_advance: "at_cursor body c (p @ rest) \<Longrightarrow> at_cursor body (c + length p) rest"
proof -
  assume at: "at_cursor body c (p @ rest)"
  then have "length (drop c body) = length p + length rest" by (simp add: at_cursor_def)
  moreover have "drop (length p + c) body = drop (length p) (drop c body)" by (simp only: drop_drop)
  ultimately show ?thesis
    using at by (auto simp: at_cursor_def add.commute simp del: drop_drop)
qed

lemma at_cursor_length: "at_cursor body c rest \<Longrightarrow> length body = c + length rest"
  by (auto simp: at_cursor_def)

lemma at_cursor_slice: "at_cursor body c (p @ rest) \<Longrightarrow> slice c (c + length p) body = p"
  by (auto simp: at_cursor_def slice_def)

definition advanced :: "nat \<Rightarrow> bytes \<Rightarrow> nat \<Rightarrow> bool" where
  "advanced c p c' = (c' = c + length p)"

lemma reads_step:
  assumes "at_cursor body c (p @ rest)" "reads rd x p"
    and "\<And>c'. advanced c p c' \<Longrightarrow> at_cursor body c' rest \<Longrightarrow> F (x, c') = R"
  shows "and_then (rd body c k) F = R"
  using assms at_cursor_advance by (fastforce simp: reads_def advanced_def)

lemma reads_end: "at_cursor body c [] \<Longrightarrow> no_trailing body c x = Inr x"
  by (auto simp: no_trailing_def dest: at_cursor_length)

lemma reads_u8: "reads read_u8 b [b]"
  by (auto simp: reads_def read_u8_def at_cursor_def nth_via_drop)

lemma reads_u16: "reads read_u16 x (le_bytes 2 x)"
  using at_cursor_slice [of _ _ "le_bytes 2 x"]
  by (auto simp: reads_def read_u16_def dest: at_cursor_length)

lemma reads_u32: "reads read_u32 x (le_bytes 4 x)"
  using at_cursor_slice [of _ _ "le_bytes 4 x"]
  by (auto simp: reads_def read_u32_def dest: at_cursor_length)

lemma reads_u64: "reads read_u64 x (le_bytes 8 x)"
  using at_cursor_slice [of _ _ "le_bytes 8 x"]
  by (auto simp: reads_def read_u64_def dest: at_cursor_length)

lemma reads_array32: "reads read_array32 x (bytes32 x)"
  using at_cursor_slice [of _ _ "bytes32 x"]
  by (auto simp: reads_def read_array32_def dest: at_cursor_length)

lemma push_len_prefixed_str_ok:
  "push_len_prefixed_str s = Inr p \<longleftrightarrow>
     length s < 65536 \<and> p = le_bytes 2 (of_nat (length s) :: u16) @ s"
  by (auto simp: push_len_prefixed_str_def)

lemma reads_str:
  assumes "push_len_prefixed_str s = Inr p" "valid_utf8 s"
  shows "reads read_len_prefixed_str s p"
  unfolding reads_def
proof (intro allI impI)
  fix body c k rest assume at: "at_cursor body c (p @ rest)"
  let ?l = "le_bytes 2 (of_nat (length s) :: u16)"
  have p: "p = ?l @ s" and len: "length s < 65536" using assms(1) by (simp_all add: push_len_prefixed_str_ok)
  have at2: "at_cursor body c (?l @ s @ rest)" using at p by simp
  then have at3: "at_cursor body (c + 2) (s @ rest)" using at_cursor_advance by fastforce
  have "slice c (c + 2) body = ?l" using at_cursor_slice [OF at2] by simp
  moreover have "slice (c + 2) (c + 2 + length s) body = s" using at_cursor_slice [OF at3] .
  moreover have "unat (of_nat (length s) :: u16) = length s" using len by (simp add: unat_of_nat_small)
  ultimately show "read_len_prefixed_str body c k = Inr (s, c + length p)"
    using at_cursor_length [OF at2] assms(2) p by (simp add: read_len_prefixed_str_def Let_def)
qed

lemma readsI:
  "(\<And>body c k rest. at_cursor body c (p @ rest) \<Longrightarrow> rd body c k = Inr (x, c + length p)) \<Longrightarrow> reads rd x p"
  by (simp add: reads_def)

lemma reads_tag:
  assumes "\<And>body c k. F b body c k = Inr (x, c)"
  shows "reads (\<lambda>body c k. and_then (read_u8 body c k) (\<lambda>(tag, c). F tag body c k)) x [b]"
  by (rule readsI, rule reads_step, assumption, rule reads_u8) (simp add: assms advanced_def)

lemma reads_opt32: "reads (read_opt32 err) x (push_opt32 x)"
proof (cases x)
  case None
  show ?thesis
    unfolding read_opt32_def push_opt32_def None option.case
    by (rule readsI, rule reads_step, assumption, rule reads_u8) (simp add: advanced_def)
next
  case (Some r)
  show ?thesis
    unfolding read_opt32_def push_opt32_def Some option.case
    by (rule readsI, unfold append_assoc,
      (rule reads_step, assumption, rule reads_u8 reads_array32, simp (no_asm))+, simp add: advanced_def)
qed

lemma reads_bool: "reads (read_bool err) x (push_bool x)"
  unfolding push_bool_def read_bool_def
  by (rule readsI, rule reads_step, assumption, rule reads_u8) (cases x; simp add: advanced_def)

lemma reads_or:
  assumes "reads rd x p" "p \<noteq> []"
  shows "reads (read_or d rd) x p"
  using assms by (auto simp: reads_def read_or_def dest: at_cursor_length)

lemma reads_n:
  assumes "list_all2 (reads rd) xs ps"
  shows "reads (read_n (length xs) rd) xs (concat ps)"
proof -
  have "read_n (length xs) rd body c k = Inr (xs, c + length (concat ps))"
    if "at_cursor body c (concat ps @ rest)" for body c k rest
    using assms that
  proof (induction xs ps arbitrary: c rule: list_all2_induct)
    case (Cons x xs p ps)
    then have "at_cursor body c (p @ concat ps @ rest)" by simp
    then show ?case
      unfolding length_Cons read_n.simps
      by (rule reads_step [OF _ \<open>reads rd x p\<close>]) (simp add: Cons.IH advanced_def)
  qed simp
  then show ?thesis by (simp add: reads_def)
qed

lemma reads_n_map: "(\<And>x. reads rd x (enc x)) \<Longrightarrow> reads (read_n (length xs) rd) xs (concat (map enc xs))"
  by (rule reads_n) (simp add: list_all2_conv_all_nth)

lemmas reads_basic = reads_u8 reads_u16 reads_u32 reads_u64 reads_array32 reads_opt32 reads_bool

fun wf_capability :: "resolved_capability_record option \<Rightarrow> bool" where
  "wf_capability None = True"
| "wf_capability (Some cap) = (valid_utf8 (rc_tool_id cap) \<and> valid_utf8 (rc_tool_version cap))"

lemma reads_capability:
  assumes "encode_capability cap = Inr p" "wf_capability cap"
  shows "reads decode_capability cap p"
proof (cases cap)
  case None
  with assms have p: "p = [0]" by (simp add: encode_capability_def)
  show ?thesis
    unfolding decode_capability_def None p
    by (rule readsI, rule reads_step, assumption, rule reads_u8) (simp add: advanced_def)
next
  case (Some r)
  with assms(1) obtain t v where
    t: "push_len_prefixed_str (rc_tool_id r) = Inr t" and v: "push_len_prefixed_str (rc_tool_version r) = Inr v"
    and p: "p = [1] @ t @ v @ [resolved_kind_as_u8 (rc_resolved_kind r)]
              @ bytes32 (rc_resolved_def_hash r) @ [idempotency_class_as_u8 (rc_idempotency_class r)]"
    by (auto simp: encode_capability_def and_then_eq_Inr)
  have rd: "reads read_len_prefixed_str (rc_tool_id r) t" "reads read_len_prefixed_str (rc_tool_version r) v"
    using assms(2) t v Some by (simp_all add: reads_str)
  show ?thesis
    unfolding decode_capability_def Some p
    by (rule readsI, unfold append_assoc,
      (rule reads_step, assumption, rule rd reads_basic, simp (no_asm))+, simp add: advanced_def)
qed

lemma reads_call:
  assumes "push_len_prefixed_str t = Inr p" "push_len_prefixed_str v = Inr q" "valid_utf8 t" "valid_utf8 v"
  shows "reads read_call (t, v) (p @ q)"
proof -
  have rd: "reads read_len_prefixed_str t p" "reads read_len_prefixed_str v q"
    using assms by (simp_all add: reads_str)
  show ?thesis unfolding read_call_def
    by (rule readsI, unfold append_assoc,
      (rule reads_step, assumption, rule rd, simp (no_asm))+, simp add: advanced_def)
qed

fun wf_branch :: "react_branch \<Rightarrow> bool" where
  "wf_branch (ToolCall t v) = (valid_utf8 t \<and> valid_utf8 v)"
| "wf_branch (Rejected r) = valid_utf8 r"
| "wf_branch (ToolBatch calls) =
     (length calls \<le> MAX_TOOL_BATCH_CALLS \<and> (\<forall>(t, v) \<in> set calls. valid_utf8 t \<and> valid_utf8 v))"
| "wf_branch _ = True"

lemma encode_calls_blocks:
  "encode_calls calls = Inr bs \<Longrightarrow> \<forall>(t, v) \<in> set calls. valid_utf8 t \<and> valid_utf8 v \<Longrightarrow>
     \<exists>ps. list_all2 (reads read_call) calls ps \<and> bs = concat ps"
proof (induction calls arbitrary: bs rule: encode_calls.induct)
  case (2 t v calls)
  then obtain p q r where pq: "push_len_prefixed_str t = Inr p" "push_len_prefixed_str v = Inr q"
    and r: "encode_calls calls = Inr r" and bs: "bs = p @ q @ r"
    by (auto simp: and_then_eq_Inr)
  from 2 pq r obtain ps where "list_all2 (reads read_call) calls ps" "r = concat ps"
    by fastforce
  moreover have "reads read_call (t, v) (p @ q)" using 2 pq by (intro reads_call) auto
  ultimately show ?case
    unfolding bs by (intro exI [of _ "(p @ q) # ps"]) simp
qed simp

lemma unat_len16: "n < 65536 \<Longrightarrow> unat (of_nat n :: u16) = n"
  by (rule unat_of_nat_small) simp

lemma reads_branch:
  assumes "encode_branch b = Inr p" "wf_branch b"
  shows "reads decode_branch b ([react_branch_as_u8 b] @ p)"
proof (cases b)
  case (ToolCall t v)
  with assms obtain q r where qr: "push_len_prefixed_str t = Inr q" "push_len_prefixed_str v = Inr r"
    and p: "p = q @ r" by (auto simp: and_then_eq_Inr)
  have rd: "reads read_len_prefixed_str t q" "reads read_len_prefixed_str v r"
    using assms(2) qr ToolCall by (simp_all add: reads_str)
  show ?thesis unfolding decode_branch_def ToolCall p
    by (rule readsI, unfold append_assoc,
      (rule reads_step, assumption, rule rd reads_basic, simp (no_asm))+, simp add: advanced_def)
next
  case (Rejected r)
  have rd: "reads read_len_prefixed_str r p" using assms Rejected by (simp add: reads_str)
  show ?thesis unfolding decode_branch_def Rejected
    by (rule readsI, unfold append_assoc,
      (rule reads_step, assumption, rule rd reads_basic, simp (no_asm))+, simp add: advanced_def)
next
  case (ToolBatch calls)
  with assms obtain bs where bs: "encode_calls calls = Inr bs"
    and p: "p = le_bytes 2 (of_nat (length calls) :: u16) @ bs" by (auto simp: and_then_eq_Inr split: if_splits)
  have len: "length calls \<le> 20" using assms(2) ToolBatch by (simp add: MAX_TOOL_BATCH_CALLS_def)
  then have n: "unat (of_nat (length calls) :: u16) = length calls" by (simp add: unat_len16)
  have rd: "reads (read_n (length calls) read_call) calls bs"
    using assms(2) ToolBatch encode_calls_blocks [OF bs] reads_n by auto
  show ?thesis unfolding decode_branch_def ToolBatch p
    by (rule readsI, unfold append_assoc,
      (rule reads_step, assumption, rule rd reads_basic,
        simp (no_asm) add: n len [THEN leD] MAX_TOOL_BATCH_CALLS_def)+, simp add: advanced_def)
qed (use assms in \<open>unfold decode_branch_def, auto intro!: reads_tag\<close>)

fun wf_approval_state :: "approval_state \<Rightarrow> bool" where
  "wf_approval_state (Requested t v i _ _) = (valid_utf8 t \<and> valid_utf8 v \<and> valid_utf8 i)"
| "wf_approval_state (Granted _ r _) = valid_utf8 r"
| "wf_approval_state (Denied _ r _) = valid_utf8 r"
| "wf_approval_state (Expired _) = True"

lemma reads_outcome:
  assumes "encode_outcome x = Inr p"
  shows "reads decode_outcome x ([rerank_outcome_as_u8 x] @ p)"
proof (cases x)
  case (Reranked xs)
  with assms have p: "p = le_bytes 2 (of_nat (length xs) :: u16) @ concat (map (le_bytes 4) xs)"
    and len: "\<not> 64 < length xs"
    by (auto simp: MAX_RERANK_CANDIDATES_def split: if_splits)
  then have n: "unat (of_nat (length xs) :: u16) = length xs" by (simp add: unat_len16)
  have rd: "reads (read_n (length xs) read_u32) xs (concat (map (le_bytes 4) xs))"
    by (rule reads_n_map) (rule reads_u32)
  show ?thesis unfolding decode_outcome_def Reranked p
    by (rule readsI, unfold append_assoc,
      (rule reads_step, assumption, rule rd reads_basic,
        simp (no_asm) add: n len MAX_RERANK_CANDIDATES_def)+, simp add: advanced_def)
qed (use assms in \<open>unfold decode_outcome_def, auto intro!: reads_tag\<close>)

lemma reads_approval_state:
  assumes "encode_approval_state x = Inr p" "wf_approval_state x"
  shows "reads decode_approval_state x ([approval_state_as_u8 x] @ p)"
proof (cases x)
  case (Requested t v i d cr)
  with assms obtain tp vp iq where p: "p = tp @ vp @ iq @ le_bytes 8 d @ le_bytes 8 cr"
    and pq: "push_len_prefixed_str t = Inr tp" "push_len_prefixed_str v = Inr vp"
      "push_len_prefixed_str i = Inr iq"
    by (auto simp: and_then_eq_Inr)
  have rd: "reads read_len_prefixed_str t tp" "reads read_len_prefixed_str v vp"
    "reads read_len_prefixed_str i iq"
    using assms(2) pq Requested by (simp_all add: reads_str)
  show ?thesis unfolding decode_approval_state_def Requested p
    by (rule readsI, unfold append_assoc,
      (rule reads_step, assumption, rule rd reads_basic, simp (no_asm))+, simp add: advanced_def)
next
  case (Granted a r d)
  with assms obtain q where p: "p = le_bytes 8 a @ q @ le_bytes 8 d" and "push_len_prefixed_str r = Inr q"
    by (auto simp: and_then_eq_Inr)
  then have rd: "reads read_len_prefixed_str r q" using assms(2) Granted by (simp add: reads_str)
  show ?thesis unfolding decode_approval_state_def Granted p
    by (rule readsI, unfold append_assoc,
      (rule reads_step, assumption, rule rd reads_basic, simp (no_asm))+, simp add: advanced_def)
next
  case (Denied a r d)
  with assms obtain q where p: "p = le_bytes 8 a @ q @ le_bytes 8 d" and "push_len_prefixed_str r = Inr q"
    by (auto simp: and_then_eq_Inr)
  then have rd: "reads read_len_prefixed_str r q" using assms(2) Denied by (simp add: reads_str)
  show ?thesis unfolding decode_approval_state_def Denied p
    by (rule readsI, unfold append_assoc,
      (rule reads_step, assumption, rule rd reads_basic, simp (no_asm))+, simp add: advanced_def)
next
  case (Expired t)
  with assms have p: "p = le_bytes 8 t" by simp
  show ?thesis unfolding decode_approval_state_def Expired p
    by (rule readsI, unfold append_assoc,
      (rule reads_step, assumption, rule reads_basic, simp (no_asm))+, simp add: advanced_def)
qed

definition header_of :: "hash_fn \<Rightarrow> journal_entry \<Rightarrow> entry_header" where
  "header_of blake3 e = \<lparr>h_kind = entry_kind e, h_mote_id = entry_mote_id blake3 e,
     h_key = idempotency_key e, h_seq = entry_seq e, h_nd = entry_nd_byte e\<rparr>"

lemma header_of_simps [simp]:
  "h_kind (header_of blake3 e) = entry_kind e"
  "h_mote_id (header_of blake3 e) = entry_mote_id blake3 e"
  "h_key (header_of blake3 e) = idempotency_key e"
  "h_seq (header_of blake3 e) = entry_seq e"
  "h_nd (header_of blake3 e) = entry_nd_byte e"
  by (simp_all add: header_of_def)

lemma length_encode_header [simp]: "length (encode_header blake3 e) = HEADER_LEN"
  by (simp add: encode_header_def HEADER_LEN_def)

lemma decode_header_encode: "decode_header (encode_header blake3 e @ body) = header_of blake3 e"
  by (simp add: decode_header_def header_of_def encode_header_def slice_def nth_append)

lemma nd_class_roundtrip [simp]: "nd_class_from_byte (nd_as_u8 n) = Inr n"
  by (cases n) (simp_all add: nd_class_from_byte_def)

lemma push_len_ge_2: "push_len_prefixed_str s = Inr p \<Longrightarrow> 2 \<le> length p"
  by (auto simp: push_len_prefixed_str_ok)

lemma cap_check_ok [simp]:
  "cap_check err b = Inr body \<longleftrightarrow> body = b \<and> HEADER_LEN + length b \<le> MAX_ENTRY_LEN"
  by (auto simp: cap_check_def)

lemma decode_proposed_ok:
  "encode_proposed e = Inr body \<Longrightarrow> decode_proposed (header_of blake3 (Proposed e)) body = Inr (Proposed e)"
  by (auto simp: encode_proposed_def decode_proposed_def slice_def)

lemma decode_repudiated_ok:
  "encode_repudiated e = Inr body \<Longrightarrow>
     decode_repudiated (header_of blake3 (Repudiated e)) body = Inr (Repudiated e)"
  by (auto simp: encode_repudiated_def decode_repudiated_def slice_def nth_append)

lemma decode_run_registered_ok:
  "encode_run_registered e = Inr body \<Longrightarrow>
     decode_run_registered blake3 (header_of blake3 (RunRegistered e)) body = Inr (RunRegistered e)"
  by (auto simp: encode_run_registered_def decode_run_registered_def slice_def)

lemma decode_digest_sealed_ok:
  "encode_digest_sealed e = Inr body \<Longrightarrow>
     decode_digest_sealed blake3 (header_of blake3 (DigestSealed e)) body = Inr (DigestSealed e)"
  by (auto simp: encode_digest_sealed_def decode_digest_sealed_def slice_def)

lemma decode_failed_ok:
  assumes "encode_failed e = Inr body" "valid_utf8 (f_detail e)"
  shows "decode_failed (header_of blake3 (Failed e)) body = Inr (Failed e)"
proof -
  obtain d where d: "push_len_prefixed_str (f_detail e) = Inr d"
    and body: "body = ([failure_reason_as_u8 (f_reason_class e)] @ le_bytes 16 (f_reporter_id e)) @ d @ []"
    using assms(1) by (auto simp: encode_failed_def and_then_eq_Inr)
  have at: "at_cursor body 17 (d @ [])" unfolding body by (rule at_cursor_start [OF refl]) simp
  have pre: "body ! 0 = failure_reason_as_u8 (f_reason_class e)" "le_word (slice 1 17 body) = f_reporter_id e"
    "\<not> length body < 17" "17 < length body"
    using push_len_ge_2 [OF d] unfolding body by (auto simp: slice_def)
  show ?thesis
    unfolding decode_failed_def
    by (simp (no_asm) add: pre [unfolded One_nat_def], rule reads_step [OF at reads_str [OF d assms(2)]])
      (simp add: reads_end)
qed

lemma decode_run_versions_ok:
  assumes "encode_run_versions e = Inr body" "valid_utf8 (rv_model_id e)" "wf_capability (rv_capability e)"
  shows "decode_run_versions blake3 (header_of blake3 (RunVersionsResolved e)) body =
    Inr (RunVersionsResolved e)"
proof -
  obtain m c where m: "push_len_prefixed_str (rv_model_id e) = Inr m"
    and c: "encode_capability (rv_capability e) = Inr c"
    and body: "body = (bytes16 (rv_instance_id e) @ bytes32 (rv_warrant_ref e)) @ m @ c @ []"
    using assms(1) by (auto simp: encode_run_versions_def and_then_eq_Inr)
  have at: "at_cursor body 48 (m @ c @ [])" unfolding body by (rule at_cursor_start [OF refl]) simp
  note rd = reads_str [OF m assms(2)] reads_capability [OF c assms(3)]
  have "1 \<le> length c" using c by (auto simp: encode_capability_def and_then_eq_Inr split: option.splits)
  then have pre: "be_word (take 16 body) = rv_instance_id e" "be_word (slice 16 48 body) = rv_warrant_ref e"
    "\<not> length body < 51"
    using push_len_ge_2 [OF m] unfolding body by (auto simp: slice_def)
  show ?thesis
    unfolding decode_run_versions_def
    by (simp (no_asm) add: pre,
      (rule reads_step, (rule at | assumption), rule rd, simp (no_asm))+, simp add: reads_end)
qed

lemma decode_timer_armed_ok:
  assumes "encode_timer_armed e = Inr body" "tm_purpose e \<le> 1"
  shows "decode_timer_armed (header_of blake3 (TimerArmed e)) body = Inr (TimerArmed e)"
proof -
  have body: "body = bytes16 (tm_instance_id e) @ [tm_purpose e] @ le_bytes 4 (tm_attempt e)
       @ le_bytes 8 (tm_fire_at_unix_ms e) @ bytes32 (tm_anchor_ref e) @ []"
    using assms(1) by (simp add: encode_timer_armed_def)
  have at: "at_cursor body 16 ([tm_purpose e] @ le_bytes 4 (tm_attempt e)
       @ le_bytes 8 (tm_fire_at_unix_ms e) @ bytes32 (tm_anchor_ref e) @ [])"
    unfolding body by (rule at_cursor_start [OF refl]) simp
  have pre: "be_word (slice 0 16 body) = tm_instance_id e" "length body = 61" "\<not> tm_purpose e > 1"
    unfolding body using assms(2) by (simp_all add: slice_def)
  show ?thesis
    unfolding decode_timer_armed_def Let_def
    by (simp (no_asm) add: pre,
      (rule reads_step, (rule at | assumption), rule reads_basic, simp (no_asm) add: pre)+)
qed

lemma decode_replan_round_ok:
  assumes "encode_replan_round e = Inr body" "valid_utf8 (rp_model_id e)"
  shows "decode_replan_round (header_of blake3 (ReplanRound e)) body = Inr (ReplanRound e)"
proof -
  let ?n = "length (rp_failed_steps e)"
  obtain m where m: "push_len_prefixed_str (rp_model_id e) = Inr m" and len: "\<not> 64 < ?n"
    and body: "body = le_bytes 4 (rp_round e) @ bytes32 (rp_base_prompt_ref e)
            @ bytes32 (rp_corrected_prompt_ref e) @ bytes32 (rp_warrant_ref e) @ m
            @ le_bytes 2 (of_nat ?n :: u16) @ concat (map bytes32 (rp_failed_steps e))
            @ push_opt32 (rp_escalation_reason_ref e) @ []"
    using assms(1)
    by (auto simp: encode_replan_round_def and_then_eq_Inr MAX_REPLAN_FAILED_STEPS_def split: if_splits)
  have at: "at_cursor body 4 (bytes32 (rp_base_prompt_ref e)
            @ bytes32 (rp_corrected_prompt_ref e) @ bytes32 (rp_warrant_ref e) @ m
            @ le_bytes 2 (of_nat ?n :: u16) @ concat (map bytes32 (rp_failed_steps e))
            @ push_opt32 (rp_escalation_reason_ref e) @ [])"
    unfolding body by (rule at_cursor_start [OF refl]) simp
  have n: "unat (of_nat ?n :: u16) = ?n" using len by (simp add: unat_len16)
  note rd = reads_str [OF m assms(2)] reads_n_map [of read_array32, OF reads_array32]
  have pre: "le_word (take 4 body) = rp_round e" "\<not> length body < 104"
    using push_len_ge_2 [OF m] unfolding body by auto
  show ?thesis
    unfolding decode_replan_round_def Let_def
    by (simp (no_asm) add: pre, (rule reads_step, (rule at | assumption), rule rd reads_basic,
        simp (no_asm) add: n len MAX_REPLAN_FAILED_STEPS_def)+, simp add: reads_end pre)
qed

lemma decode_rerank_round_ok:
  assumes "encode_rerank_round e = Inr body" "valid_utf8 (rk_model_id e)"
  shows "decode_rerank_round (header_of blake3 (ReRankRound e)) body = Inr (ReRankRound e)"
proof -
  obtain m p where m: "push_len_prefixed_str (rk_model_id e) = Inr m"
    and p: "encode_outcome (rk_outcome e) = Inr p"
    and body: "body = (le_bytes 4 (rk_round e) @ bytes16 (rk_instance_id e)) @ bytes32 (rk_base_results_ref e)
           @ bytes32 (rk_query_ref e) @ bytes32 (rk_warrant_ref e) @ m
           @ le_bytes 4 (rk_candidate_count e) @ ([rerank_outcome_as_u8 (rk_outcome e)] @ p) @ []"
    using assms(1) by (auto simp: encode_rerank_round_def and_then_eq_Inr)
  have at: "at_cursor body 20 (bytes32 (rk_base_results_ref e)
           @ bytes32 (rk_query_ref e) @ bytes32 (rk_warrant_ref e) @ m
           @ le_bytes 4 (rk_candidate_count e) @ ([rerank_outcome_as_u8 (rk_outcome e)] @ p) @ [])"
    unfolding body by (rule at_cursor_start [OF refl]) simp
  note rd = reads_str [OF m assms(2)] reads_outcome [OF p]
  have pre: "le_word (take 4 body) = rk_round e" "be_word (slice 4 20 body) = rk_instance_id e"
    "\<not> length body < 118"
    using push_len_ge_2 [OF m] unfolding body by (auto simp: slice_def)
  show ?thesis
    unfolding decode_rerank_round_def Let_def
    by (simp (no_asm) add: pre, (rule reads_step, (rule at | assumption), rule rd reads_basic,
        simp (no_asm))+, simp add: reads_end pre)
qed

lemma decode_approval_ok:
  assumes "encode_approval e = Inr body" "wf_approval_state (ap_state e)"
  shows "decode_approval (header_of blake3 (Approval e)) body = Inr (Approval e)"
proof -
  obtain p where p: "encode_approval_state (ap_state e) = Inr p"
    and body: "body = (bytes16 (ap_instance_id e) @ bytes16 (ap_request_id e))
           @ ([approval_state_as_u8 (ap_state e)] @ p) @ []"
    using assms(1) by (auto simp: encode_approval_def and_then_eq_Inr)
  have at: "at_cursor body 32 (([approval_state_as_u8 (ap_state e)] @ p) @ [])"
    unfolding body by (rule at_cursor_start [OF refl]) simp
  have pre: "be_word (slice 0 16 body) = ap_instance_id e" "be_word (slice 16 32 body) = ap_request_id e"
    "\<not> length body < 33"
    unfolding body by (auto simp: slice_def)
  show ?thesis
    unfolding decode_approval_def
    by (simp (no_asm) add: pre, rule reads_step [OF at reads_approval_state [OF p assms(2)]])
      (simp add: reads_end pre)
qed

lemma decode_react_round_ok:
  assumes "encode_react_round e = Inr body" "valid_utf8 (ra_model_id e)" "wf_branch (ra_branch e)"
  shows "decode_react_round (header_of blake3 (ReactRound e)) body = Inr (ReactRound e)"
proof -
  obtain m b where m: "push_len_prefixed_str (ra_model_id e) = Inr m"
    and b: "encode_branch (ra_branch e) = Inr b"
    and body: "body = (le_bytes 4 (ra_turn e) @ bytes16 (ra_instance_id e))
           @ bytes32 (ra_base_prompt_ref e)
           @ bytes32 (ra_warrant_ref e) @ m @ ([react_branch_as_u8 (ra_branch e)] @ b)
           @ le_bytes 4 (ra_max_turns e) @ le_bytes 4 (ra_max_tool_calls e)
           @ push_opt32 (ra_step_salt e) @ push_bool (ra_is_agentic_launch e)
           @ push_opt32 (ra_context_items_ref e) @ push_opt32 (ra_image_ref e)
           @ push_bool (ra_require_approval e) @ []"
    using assms(1) by (auto simp: encode_react_round_def and_then_eq_Inr)
  have at: "at_cursor body 20 (bytes32 (ra_base_prompt_ref e)
           @ bytes32 (ra_warrant_ref e) @ m @ ([react_branch_as_u8 (ra_branch e)] @ b)
           @ le_bytes 4 (ra_max_turns e) @ le_bytes 4 (ra_max_tool_calls e)
           @ push_opt32 (ra_step_salt e) @ push_bool (ra_is_agentic_launch e)
           @ push_opt32 (ra_context_items_ref e) @ push_opt32 (ra_image_ref e)
           @ push_bool (ra_require_approval e) @ [])"
    unfolding body by (rule at_cursor_start [OF refl]) simp
  have ne: "push_opt32 x \<noteq> []" "push_bool y \<noteq> []" for x y
    by (auto simp: push_opt32_def push_bool_def split: option.splits)
  note rd = reads_str [OF m assms(2)] reads_branch [OF b assms(3)]
    reads_or [OF reads_opt32 ne(1)] reads_or [OF reads_bool ne(2)]
  have pre: "le_word (take 4 body) = ra_turn e" "be_word (slice 4 20 body) = ra_instance_id e"
    "\<not> length body < 86"
    using push_len_ge_2 [OF m] unfolding body by (auto simp: slice_def)
  show ?thesis
    unfolding decode_react_round_def Let_def
    by (simp (no_asm) add: pre, (rule reads_step, (rule at | assumption), rule rd reads_basic,
        simp (no_asm))+, simp add: reads_end pre)
qed


lemma encode_parents_ok:
  "encode_parents ps = Inr bs \<longleftrightarrow>
     (\<forall>p \<in> set ps. \<not> (pe_edge_kind p = 0 \<and> pe_non_cascade p \<noteq> 0)) \<and>
     bs = concat (map (\<lambda>p. bytes32 (pe_parent_id p) @ [pe_edge_kind p, pe_non_cascade p]) ps)"
  by (induction ps arbitrary: bs) (auto simp: and_then_eq_Inr)

definition wf_parent :: "parent_entry \<Rightarrow> bool" where
  "wf_parent p = (pe_edge_kind p \<le> 1 \<and> pe_non_cascade p \<le> 1 \<and>
     (pe_edge_kind p = 0 \<longrightarrow> pe_non_cascade p = 0))"

abbreviation parent_bytes :: "parent_entry \<Rightarrow> bytes" where
  "parent_bytes p \<equiv> bytes32 (pe_parent_id p) @ [pe_edge_kind p, pe_non_cascade p]"

lemma length_parents: "length (concat (map parent_bytes ps)) = 34 * length ps"
  by (induction ps) auto

lemma at_cursor_nth: "at_cursor body c (p @ rest) \<Longrightarrow> i < length p \<Longrightarrow> body ! (c + i) = p ! i"
  by (metis at_cursor_def nth_append nth_drop)

lemma decode_parents_ok:
  "at_cursor body (66 + j * 34) (concat (map parent_bytes ps)) \<Longrightarrow> \<forall>p \<in> set ps. wf_parent p \<Longrightarrow>
     decode_parents body [j..<j + length ps] = Inr ps"
proof (induction ps arbitrary: j)
  case (Cons p ps)
  let ?b = "66 + j * 34"
  have at: "at_cursor body ?b (parent_bytes p @ concat (map parent_bytes ps))"
    using Cons.prems(1) by simp
  have nb: "body ! (?b + 32) = pe_edge_kind p" "body ! (?b + 33) = pe_non_cascade p"
    using at_cursor_nth [OF at, of 32] at_cursor_nth [OF at, of 33] by (simp_all add: nth_append)
  have sl: "be_word (slice ?b (?b + 32) body) = pe_parent_id p"
    using at_cursor_slice [of body ?b "bytes32 (pe_parent_id p)"] at by simp
  have wf: "\<not> pe_edge_kind p > 1" "\<not> (pe_edge_kind p = 0 \<and> pe_non_cascade p \<noteq> 0)"
    "\<not> pe_non_cascade p > 1"
    using Cons.prems(2) by (auto simp: wf_parent_def)
  have "at_cursor body (66 + Suc j * 34) (concat (map parent_bytes ps))"
    using at_cursor_advance [OF at] by (simp add: algebra_simps)
  then have "decode_parents body [Suc j..<Suc j + length ps] = Inr ps"
    using Cons.prems(2) by (intro Cons.IH) simp_all
  moreover have "[j..<j + length (p # ps)] = j # [Suc j..<Suc j + length ps]"
    using upt_conv_Cons [of j "j + length (p # ps)"] by (simp del: upt_Suc)
  ultimately show ?case
    by (simp only: decode_parents.simps Let_def nb sl wf if_False and_then_simps) simp
qed simp

lemma decode_committed_ok:
  assumes "encode_committed e = Inr body" "\<forall>p \<in> set (c_parents e). wf_parent p"
  shows "decode_committed (c_mote_def_hash e) (header_of blake3 (Committed e)) body = Inr (Committed e)"
proof -
  let ?n = "length (c_parents e)"
  let ?pre = "bytes32 (c_result_ref e) @ bytes32 (c_warrant_ref e) @ le_bytes 2 (of_nat ?n :: u16)"
  have n: "?n \<le> 128" and body: "body = ?pre @ concat (map parent_bytes (c_parents e))"
    using assms(1)
    by (auto simp: encode_committed_def MAX_PARENTS_def and_then_eq_Inr encode_parents_ok split: if_splits)
  have un: "unat (of_nat ?n :: u16) = ?n" using n by (simp add: unat_len16)
  have pre: "le_word (slice 64 66 body) = (of_nat ?n :: u16)" "be_word (take 32 body) = c_result_ref e"
    "be_word (slice 32 64 body) = c_warrant_ref e" "length body = 66 + ?n * 34"
    unfolding body using length_parents [of "c_parents e"] by (simp_all add: slice_def)
  have "at_cursor body 66 (concat (map parent_bytes (c_parents e)))"
    by (rule at_cursor_start [OF body]) simp
  then have "decode_parents body [0..<?n] = Inr (c_parents e)"
    using decode_parents_ok [of body 0] assms(2) by simp
  then show ?thesis
    by (simp add: decode_committed_def pre un Let_def)
qed

fun wf_entry :: "journal_entry \<Rightarrow> bool" where
  "wf_entry (Committed e) = (\<forall>p \<in> set (c_parents e). wf_parent p)"
| "wf_entry (Failed e) = (valid_utf8 (f_detail e) \<and> length (f_detail e) \<le> 4407)"
| "wf_entry (RunVersionsResolved e) = (valid_utf8 (rv_model_id e) \<and> wf_capability (rv_capability e))"
| "wf_entry (ReplanRound e) = valid_utf8 (rp_model_id e)"
| "wf_entry (ReactRound e) = (valid_utf8 (ra_model_id e) \<and> wf_branch (ra_branch e))"
| "wf_entry (Approval e) = wf_approval_state (ap_state e)"
| "wf_entry (ReRankRound e) = valid_utf8 (rk_model_id e)"
| "wf_entry (TimerArmed e) = (tm_purpose e \<le> 1)"
| "wf_entry _ = True"

lemma encode_body_length:
  assumes "encode_body e = Inr body" "wf_entry e"
  shows "HEADER_LEN + length body \<le> MAX_ENTRY_LEN"
proof (cases e)
  case (Committed c)
  then show ?thesis using assms length_parents [of "c_parents c"]
    by (auto simp: encode_committed_def and_then_eq_Inr encode_parents_ok entry_consts split: if_splits)
qed (use assms in \<open>auto simp: encode_proposed_def encode_repudiated_def encode_failed_def
  encode_run_registered_def encode_run_versions_def encode_digest_sealed_def encode_replan_round_def
  encode_react_round_def encode_approval_def encode_rerank_round_def encode_timer_armed_def
  and_then_eq_Inr push_len_prefixed_str_ok entry_consts split: if_splits\<close>)

lemma codec_roundtrip:
  assumes "encode_entry blake3 e = Inr bs" "wf_entry e" "\<And>c. e = Committed c \<Longrightarrow> h = c_mote_def_hash c"
  shows "decode_entry_with_def_hash blake3 bs h = Inr e"
proof -
  obtain body where body: "encode_body e = Inr body" and bs: "bs = encode_header blake3 e @ body"
    using assms(1) by (auto simp: encode_entry_def and_then_eq_Inr)
  have len: "\<not> length bs > MAX_ENTRY_LEN" "\<not> length bs < HEADER_LEN"
    using encode_body_length [OF body assms(2)] by (simp_all add: bs)
  have "decode_header bs = header_of blake3 e" "drop HEADER_LEN bs = body"
    unfolding bs by (simp_all add: decode_header_encode)
  note simps = decode_entry_with_def_hash_def Let_def len this
  show ?thesis
    using assms(2,3) body
    by (cases e) (simp_all add: simps decode_proposed_ok decode_committed_ok decode_repudiated_ok
        decode_failed_ok decode_run_registered_ok decode_run_versions_ok decode_digest_sealed_ok
        decode_replan_round_ok decode_react_round_ok decode_approval_ok decode_rerank_round_ok
        decode_timer_armed_ok decode_effect_staged_def)
qed


section \<open>What the decoder lets through\<close>

lemma read_str_valid:
  "read_len_prefixed_str body c k = Inr (s, c') \<Longrightarrow> valid_utf8 s \<and> c' = c + 2 + length s \<and> c' \<le> length body"
  by (auto simp: read_len_prefixed_str_def Let_def slice_def split: if_splits)

lemma read_n_all:
  assumes "\<And>c x c'. rd body c k = Inr (x, c') \<Longrightarrow> P x"
  shows "read_n n rd body c k = Inr (xs, c') \<Longrightarrow> length xs = n \<and> (\<forall>x \<in> set xs. P x)"
proof (induction n arbitrary: c xs)
  case (Suc n)
  then obtain x d ys where "rd body c k = Inr (x, d)" "read_n n rd body d k = Inr (ys, c')" "xs = x # ys"
    by (auto simp: and_then_eq_Inr)
  then show ?case using Suc.IH assms by auto
qed simp

lemma decode_capability_wf: "decode_capability body c k = Inr (cap, c') \<Longrightarrow> wf_capability cap"
  by (auto simp: decode_capability_def and_then_eq_Inr split: if_splits prod.splits dest: read_str_valid)

lemma decode_branch_wf:
  assumes "decode_branch body c k = Inr (b, c')"
  shows "wf_branch b"
proof -
  have calls: "length calls = n \<and> (\<forall>x \<in> set calls. case x of (t, v) \<Rightarrow> valid_utf8 t \<and> valid_utf8 v)"
    if "read_n n read_call body d k = Inr (calls, d')" for n d d' calls
    by (rule read_n_all [OF _ that])
      (auto simp: read_call_def and_then_eq_Inr split: prod.splits dest: read_str_valid)
  show ?thesis
    using assms
    by (auto simp: decode_branch_def and_then_eq_Inr split: if_splits prod.splits dest: read_str_valid)
      (use calls in fastforce)+
qed

lemma decode_approval_state_wf: "decode_approval_state body c k = Inr (x, c') \<Longrightarrow> wf_approval_state x"
  by (auto simp: decode_approval_state_def and_then_eq_Inr split: if_splits prod.splits dest: read_str_valid)

lemma decode_parents_wf: "decode_parents body js = Inr ps \<Longrightarrow> \<forall>p \<in> set ps. wf_parent p"
  by (induction js arbitrary: ps)
    (auto simp: and_then_eq_Inr Let_def wf_parent_def not_less split: if_splits)

text \<open>An entry agrees with the header it was decoded under.\<close>

definition header_agrees :: "hash_fn \<Rightarrow> entry_header \<Rightarrow> journal_entry \<Rightarrow> bool" where
  "header_agrees blake3 h e = (entry_mote_id blake3 e = h_mote_id h \<and> entry_seq e = h_seq h \<and>
     (entry_kind e \<in> {0, 1, 2, 3, 4} \<longrightarrow> idempotency_key e = h_key h) \<and>
     (entry_kind e \<in> {0, 1} \<longrightarrow> entry_nd_byte e = h_nd h))"

lemma nd_class_from_byte_ok: "nd_class_from_byte b = Inr n \<Longrightarrow> nd_as_u8 n = b"
  by (auto simp: nd_class_from_byte_def split: if_splits)

lemmas decode_body_defs = decode_proposed_def decode_committed_def decode_repudiated_def decode_failed_def
  decode_effect_staged_def decode_run_registered_def decode_run_versions_def decode_digest_sealed_def
  decode_replan_round_def decode_react_round_def decode_approval_def decode_rerank_round_def
  decode_timer_armed_def

lemma no_trailing_ok [simp]: "no_trailing body c x = Inr y \<longleftrightarrow> x = y \<and> c = length body"
  by (auto simp: no_trailing_def)

lemma decode_proposed_sound:
  "decode_proposed h body = Inr e \<Longrightarrow> entry_kind e = 0 \<and> wf_entry e \<and> header_agrees blake3 h e"
  by (auto simp: decode_proposed_def header_agrees_def and_then_eq_Inr dest: nd_class_from_byte_ok
      split: if_splits)

lemma decode_committed_sound:
  "decode_committed d h body = Inr e \<Longrightarrow> entry_kind e = 1 \<and> wf_entry e \<and> header_agrees blake3 h e"
  by (auto simp: decode_committed_def header_agrees_def and_then_eq_Inr Let_def
      dest!: nd_class_from_byte_ok decode_parents_wf split: if_splits)

lemma decode_repudiated_sound:
  "decode_repudiated h body = Inr e \<Longrightarrow> entry_kind e = 2 \<and> wf_entry e \<and> header_agrees blake3 h e"
  by (auto simp: decode_repudiated_def header_agrees_def and_then_eq_Inr split: if_splits)

lemma decode_failed_sound:
  "decode_failed h body = Inr e \<Longrightarrow> HEADER_LEN + length body \<le> MAX_ENTRY_LEN \<Longrightarrow>
     entry_kind e = 3 \<and> wf_entry e \<and> header_agrees blake3 h e"
  by (auto simp: decode_failed_def header_agrees_def and_then_eq_Inr entry_consts
      split: if_splits prod.splits dest!: read_str_valid)

lemma decode_effect_staged_sound:
  "decode_effect_staged h body = Inr e \<Longrightarrow> entry_kind e = 4 \<and> wf_entry e \<and> header_agrees blake3 h e"
  by (auto simp: decode_effect_staged_def header_agrees_def split: if_splits)

lemma decode_run_registered_sound:
  "decode_run_registered blake3 h body = Inr e \<Longrightarrow> entry_kind e = 5 \<and> wf_entry e \<and> header_agrees blake3 h e"
  by (auto simp: decode_run_registered_def header_agrees_def split: if_splits)

lemma decode_run_versions_sound:
  "decode_run_versions blake3 h body = Inr e \<Longrightarrow> entry_kind e = 6 \<and> wf_entry e \<and> header_agrees blake3 h e"
  by (auto simp: decode_run_versions_def header_agrees_def and_then_eq_Inr split: if_splits prod.splits
      dest!: read_str_valid decode_capability_wf)

lemma decode_digest_sealed_sound:
  "decode_digest_sealed blake3 h body = Inr e \<Longrightarrow> entry_kind e = 7 \<and> wf_entry e \<and> header_agrees blake3 h e"
  by (auto simp: decode_digest_sealed_def header_agrees_def split: if_splits)

lemma decode_replan_round_sound:
  "decode_replan_round h body = Inr e \<Longrightarrow> entry_kind e = 8 \<and> wf_entry e \<and> header_agrees blake3 h e"
  by (auto simp: decode_replan_round_def header_agrees_def and_then_eq_Inr Let_def
      split: if_splits prod.splits dest: read_str_valid)

lemma decode_react_round_sound:
  "decode_react_round h body = Inr e \<Longrightarrow> entry_kind e = 9 \<and> wf_entry e \<and> header_agrees blake3 h e"
  by (auto simp: decode_react_round_def header_agrees_def and_then_eq_Inr Let_def
      split: if_splits prod.splits dest: read_str_valid decode_branch_wf)

lemma decode_approval_sound:
  "decode_approval h body = Inr e \<Longrightarrow> entry_kind e = 10 \<and> wf_entry e \<and> header_agrees blake3 h e"
  by (auto simp: decode_approval_def header_agrees_def and_then_eq_Inr
      split: if_splits prod.splits dest: decode_approval_state_wf)

lemma decode_rerank_round_sound:
  "decode_rerank_round h body = Inr e \<Longrightarrow> entry_kind e = 11 \<and> wf_entry e \<and> header_agrees blake3 h e"
  by (auto simp: decode_rerank_round_def header_agrees_def and_then_eq_Inr Let_def
      split: if_splits prod.splits dest: read_str_valid)

lemma decode_timer_armed_sound:
  "decode_timer_armed h body = Inr e \<Longrightarrow> entry_kind e = 12 \<and> wf_entry e \<and> header_agrees blake3 h e"
  by (auto simp: decode_timer_armed_def header_agrees_def and_then_eq_Inr Let_def not_less
      split: if_splits prod.splits)

lemmas decode_sound = decode_proposed_sound decode_committed_sound decode_repudiated_sound
  decode_failed_sound decode_effect_staged_sound decode_run_registered_sound
  decode_run_versions_sound decode_digest_sealed_sound decode_replan_round_sound
  decode_react_round_sound decode_approval_sound decode_rerank_round_sound decode_timer_armed_sound

lemma decode_entry_ok:
  assumes "decode_entry_with_def_hash blake3 bs d = Inr e"
  shows "wf_entry e \<and> entry_kind e = bs ! 0 \<and> header_agrees blake3 (decode_header bs) e \<and>
    74 \<le> length bs \<and> length bs \<le> 4500"
proof -
  have len: "74 \<le> length bs" "length bs \<le> 4500" and
    cap: "HEADER_LEN + length (drop HEADER_LEN bs) \<le> MAX_ENTRY_LEN"
    using assms by (auto simp: decode_entry_with_def_hash_def entry_consts split: if_splits)
  have kind: "h_kind (decode_header bs) = bs ! 0" by (simp add: decode_header_def)
  show ?thesis
    using assms len
    unfolding decode_entry_with_def_hash_def Let_def kind
    by (auto split: if_splits dest: decode_sound [where ?blake3.0 = blake3]
        decode_failed_sound [where ?blake3.0 = blake3, OF _ cap])
qed

section \<open>Properties of the codec\<close>

text \<open>
  C3: decoding inverts encoding. For every well-formed entry of any of the thirteen kinds,
  the bytes the encoder produces decode to exactly that entry (the definition hash of a
  \<open>Committed\<close> entry travels in the backend's metadata column).
\<close>

theorem journal_codec_roundtrip:
  assumes "encode_entry blake3 e = Inr bs" "wf_entry e"
    and "\<And>c. e = Committed c \<Longrightarrow> d = c_mote_def_hash c"
  shows "decode_entry_with_def_hash blake3 bs d = Inr e"
  by (rule codec_roundtrip [OF assms])

text \<open>
  C38: whatever bytes are on disk, a successful decode yields a well-formed entry whose
  kind, Mote id, sequence number, key and nondeterminism class are the ones of the header
  (a body that disagrees with its header is refused), within the size bounds.
\<close>

theorem decode_entry_sound:
  assumes "decode_entry_with_def_hash blake3 bs d = Inr e"
  shows "wf_entry e \<and> entry_kind e = bs ! 0 \<and> header_agrees blake3 (decode_header bs) e \<and>
    74 \<le> length bs \<and> length bs \<le> 4500"
  by (rule decode_entry_ok [OF assms])

text \<open>
  The encoder is more liberal than the decoder, and \<^const>\<open>wf_entry\<close> is exactly the
  difference: the bytes of an encodable entry decode back to it if and only if the entry
  is well-formed. An entry with a timer purpose above 1, a parent with an unknown edge
  byte, more than 20 batched calls or an over-long failure detail is written but not read.
\<close>

theorem encoded_entry_readable_iff:
  assumes "encode_entry blake3 e = Inr bs"
    and "\<And>c. e = Committed c \<Longrightarrow> d = c_mote_def_hash c"
  shows "decode_entry_with_def_hash blake3 bs d = Inr e \<longleftrightarrow> wf_entry e"
  using codec_roundtrip [OF assms(1) _ assms(2)] decode_entry_ok by blast

text \<open>
  C40: a \<open>Failed\<close> entry whose detail went through \<^const>\<open>bounded_failure_detail\<close> always
  encodes, takes at most 2141 bytes, and reads back unchanged.
\<close>

theorem bounded_failed_entry_fits:
  assumes "valid_utf8 detail"
  shows "\<exists>bs. encode_entry blake3 (Failed (e\<lparr>f_detail := bounded_failure_detail detail\<rparr>)) = Inr bs \<and>
    length bs \<le> 2141 \<and>
    decode_entry blake3 bs = Inr (Failed (e\<lparr>f_detail := bounded_failure_detail detail\<rparr>))"
proof -
  let ?b = "bounded_failure_detail detail" and ?e = "Failed (e\<lparr>f_detail := bounded_failure_detail detail\<rparr>)"
  have b: "valid_utf8 ?b" "length ?b \<le> 2048"
    using bounded_failure_detail_props [OF assms] by blast+
  then obtain p where p: "push_len_prefixed_str ?b = Inr p" "length p = 2 + length ?b"
    by (simp add: push_len_prefixed_str_def)
  then obtain bs where bs: "encode_entry blake3 ?e = Inr bs" "length bs = 74 + 17 + length p"
    by (simp add: encode_entry_def encode_failed_def HEADER_LEN_def)
  have "decode_entry blake3 bs = Inr ?e"
    unfolding decode_entry_def using b by (intro codec_roundtrip [OF bs(1)]) simp_all
  then show ?thesis using bs b p by auto
qed

section \<open>Witnesses\<close>

definition sample_timer :: "u8 \<Rightarrow> journal_entry" where
  "sample_timer purpose = TimerArmed \<lparr>tm_instance_id = 1, tm_subject_mote_id = 2, tm_purpose = purpose,
     tm_attempt = 3, tm_fire_at_unix_ms = 4, tm_anchor_ref = 5, tm_seq = 6\<rparr>"

definition sample_react :: journal_entry where
  "sample_react = ReactRound \<lparr>ra_turn = 1, ra_turn_mote_id = 2, ra_instance_id = 3,
     ra_base_prompt_ref = 4, ra_warrant_ref = 5, ra_model_id = [0x6D], ra_branch = ToolBatch [([0x74], [0x31])],
     ra_max_turns = 8, ra_max_tool_calls = 9, ra_step_salt = Some 10, ra_is_agentic_launch = True,
     ra_context_items_ref = None, ra_image_ref = Some 11, ra_require_approval = False, ra_seq = 12\<rparr>"

lemma sample_react_wf: "wf_entry sample_react"
  by (simp add: sample_react_def valid_utf8_def utf8_chars.simps entry_consts)

lemma sample_react_encodes: "\<exists>bs. encode_entry blake3 sample_react = Inr bs"
  by (simp add: sample_react_def encode_entry_def encode_react_round_def push_len_prefixed_str_def
      cap_check_def push_opt32_def push_bool_def entry_consts)

lemma sample_timer_encodes: "\<exists>bs. encode_entry blake3 (sample_timer p) = Inr bs"
  by (simp add: sample_timer_def encode_entry_def encode_timer_armed_def)

theorem journal_codec_roundtrip_witness:
  "\<exists>bs. encode_entry (\<lambda>_. 0) sample_react = Inr bs \<and>
     decode_entry_with_def_hash (\<lambda>_. 0) bs 0 = Inr sample_react"
proof -
  obtain bs where bs: "encode_entry (\<lambda>_. 0) sample_react = Inr bs" using sample_react_encodes by blast
  have "decode_entry_with_def_hash (\<lambda>_. 0) bs 0 = Inr sample_react"
    by (rule journal_codec_roundtrip [OF bs sample_react_wf]) (simp add: sample_react_def)
  with bs show ?thesis by blast
qed

theorem decode_entry_sound_witness:
  "\<exists>bs. decode_entry_with_def_hash (\<lambda>_. 0) bs 0 = Inr sample_react \<and> length bs \<le> 4500"
proof -
  obtain bs where bs: "encode_entry (\<lambda>_. 0) sample_react = Inr bs" using sample_react_encodes by blast
  have dec: "decode_entry_with_def_hash (\<lambda>_. 0) bs 0 = Inr sample_react"
    by (rule codec_roundtrip [OF bs sample_react_wf]) (simp add: sample_react_def)
  with decode_entry_sound [OF dec] show ?thesis by blast
qed

theorem encoded_entry_readable_iff_witness:
  "\<exists>bs. encode_entry (\<lambda>_. 0) (sample_timer 2) = Inr bs \<and>
     decode_entry_with_def_hash (\<lambda>_. 0) bs 0 \<noteq> Inr (sample_timer 2)"
proof -
  obtain bs where bs: "encode_entry (\<lambda>_. 0) (sample_timer 2) = Inr bs" using sample_timer_encodes by blast
  have "\<not> wf_entry (sample_timer 2)" by (simp add: sample_timer_def word_le_nat_alt)
  with encoded_entry_readable_iff [OF bs, of 0] bs show ?thesis by (auto simp: sample_timer_def)
qed

theorem bounded_failed_entry_fits_witness:
  "\<exists>bs. encode_entry (\<lambda>_. 0) (Failed (\<lparr>f_mote_id = 1, f_idempotency_key = 1, f_seq = 1,
      f_reason_class = DeadLettered, f_reporter_id = 0, f_detail = []\<rparr>
      \<lparr>f_detail := bounded_failure_detail [0x6E, 0x6F]\<rparr>)) = Inr bs \<and> length bs \<le> 2141"
proof -
  have "valid_utf8 [0x6E, 0x6F]" by (simp add: valid_utf8_def utf8_chars.simps)
  from bounded_failed_entry_fits [OF this, of "\<lambda>_. 0"] show ?thesis by blast
qed

end
