(* ===== verification/Kx_Journal_Log.thy ===== *)
theory Kx_Journal_Log
  imports Kx_Journal_Entry "HOL-Library.Sublist"
begin

text \<open>
  The append-only log (\<open>crates/kx-journal/src/in_memory.rs\<close>, the trait contract of
  \<open>lib.rs\<close>, the watermark of \<open>watch.rs\<close>). The state is the entry vector and the last
  sequence number; appending deduplicates \<open>Committed\<close>, \<open>Repudiated\<close> and \<open>EffectStaged\<close>
  entries by key. The contract a reader relies on is a locale, interpreted here for the
  in-memory backend.
\<close>

section \<open>The backend\<close>

record journal =
  j_entries :: "journal_entry list"
  j_next_seq :: u64

definition journal_new :: journal where
  "journal_new = \<lparr>j_entries = [], j_next_seq = 0\<rparr>"

fun set_seq :: "u64 \<Rightarrow> journal_entry \<Rightarrow> journal_entry" where
  "set_seq n (Proposed e) = Proposed (e\<lparr>p_seq := n\<rparr>)"
| "set_seq n (Committed e) = Committed (e\<lparr>c_seq := n\<rparr>)"
| "set_seq n (Repudiated e) = Repudiated (e\<lparr>r_seq := n\<rparr>)"
| "set_seq n (Failed e) = Failed (e\<lparr>f_seq := n\<rparr>)"
| "set_seq n (EffectStaged e) = EffectStaged (e\<lparr>es_seq := n\<rparr>)"
| "set_seq n (RunRegistered e) = RunRegistered (e\<lparr>rr_seq := n\<rparr>)"
| "set_seq n (RunVersionsResolved e) = RunVersionsResolved (e\<lparr>rv_seq := n\<rparr>)"
| "set_seq n (DigestSealed e) = DigestSealed (e\<lparr>dg_seq := n\<rparr>)"
| "set_seq n (ReplanRound e) = ReplanRound (e\<lparr>rp_seq := n\<rparr>)"
| "set_seq n (ReactRound e) = ReactRound (e\<lparr>ra_seq := n\<rparr>)"
| "set_seq n (Approval e) = Approval (e\<lparr>ap_seq := n\<rparr>)"
| "set_seq n (ReRankRound e) = ReRankRound (e\<lparr>rk_seq := n\<rparr>)"
| "set_seq n (TimerArmed e) = TimerArmed (e\<lparr>tm_seq := n\<rparr>)"

text \<open>The key of a \<open>Repudiated\<close> entry is derived from its target; the caller's is ignored.\<close>

fun derive_key :: "hash_fn \<Rightarrow> journal_entry \<Rightarrow> journal_entry" where
  "derive_key blake3 (Repudiated e) =
     Repudiated (e\<lparr>r_idempotency_key :=
       repudiation_idempotency_key blake3 (r_target_mote_id e) (r_target_committed_seq e)\<rparr>)"
| "derive_key blake3 e = e"

definition dedupes :: "journal_entry \<Rightarrow> bool" where
  "dedupes e = (entry_kind e = KIND_COMMITTED \<or> entry_kind e = KIND_REPUDIATED \<or>
     entry_kind e = KIND_EFFECT_STAGED)"

definition same_fact :: "journal_entry \<Rightarrow> journal_entry \<Rightarrow> bool" where
  "same_fact e x = (entry_kind x = entry_kind e \<and> idempotency_key x = idempotency_key e)"

definition existing :: "journal_entry list \<Rightarrow> journal_entry \<Rightarrow> journal_entry option" where
  "existing es e = (if dedupes e then find (same_fact e) es else None)"

definition append_entry :: "hash_fn \<Rightarrow> journal_entry \<Rightarrow> journal \<Rightarrow> journal_entry \<times> journal" where
  "append_entry blake3 entry j =
     (let e = derive_key blake3 entry in
      case existing (j_entries j) e of
        Some x \<Rightarrow> (x, j)
      | None \<Rightarrow>
          let n = j_next_seq j + 1; e' = set_seq n e in
          (e', j\<lparr>j_entries := j_entries j @ [e'], j_next_seq := n\<rparr>))"

text \<open>
  The batch loop: \<open>next_seq\<close> and \<open>staged\<close> are local until the whole batch is processed,
  and a duplicate is looked up in the log and in the entries staged so far.
\<close>

fun batch_loop :: "hash_fn \<Rightarrow> journal_entry list \<Rightarrow> journal_entry list \<Rightarrow> u64 \<Rightarrow>
    journal_entry list \<Rightarrow> u64 \<times> journal_entry list \<times> journal_entry list"
where
  "batch_loop blake3 log [] next_seq staged = (next_seq, staged, [])"
| "batch_loop blake3 log (entry # rest) next_seq staged =
     (let e = derive_key blake3 entry in
      case existing (log @ staged) e of
        Some x \<Rightarrow> (let (n, st, durable) = batch_loop blake3 log rest next_seq staged in (n, st, x # durable))
      | None \<Rightarrow>
          (let e' = set_seq (next_seq + 1) e;
               (n, st, durable) = batch_loop blake3 log rest (next_seq + 1) (staged @ [e'])
           in (n, st, e' # durable)))"

definition append_batch ::
  "hash_fn \<Rightarrow> journal_entry list \<Rightarrow> journal \<Rightarrow> journal_entry list \<times> journal"
where
  "append_batch blake3 entries j =
     (if entries = [] then ([], j)
      else let (n, staged, durable) = batch_loop blake3 (j_entries j) entries (j_next_seq j) [] in
        (durable, j\<lparr>j_entries := j_entries j @ staged, j_next_seq := n\<rparr>))"

fun is_committed_for :: "mote_id \<Rightarrow> journal_entry \<Rightarrow> bool" where
  "is_committed_for m (Committed e) = (c_mote_id e = m)"
| "is_committed_for m _ = False"

definition read_committed :: "mote_id \<Rightarrow> journal \<Rightarrow> journal_entry option" where
  "read_committed m j = find (is_committed_for m) (j_entries j)"

definition read_entries_by_seq :: "u64 \<Rightarrow> u64 \<Rightarrow> journal \<Rightarrow> journal_entry list" where
  "read_entries_by_seq start end_seq j =
     sort_key entry_seq (filter (\<lambda>e. start \<le> entry_seq e \<and> entry_seq e < end_seq) (j_entries j))"

fun committed_ref :: "journal_entry \<Rightarrow> content_ref option" where
  "committed_ref (Committed e) = Some (c_result_ref e)"
| "committed_ref _ = None"

definition list_committed_refs :: "journal \<Rightarrow> content_ref list" where
  "list_committed_refs j = List.map_filter committed_ref (j_entries j)"

fun is_committed_def :: "mote_def_hash \<Rightarrow> journal_entry \<Rightarrow> bool" where
  "is_committed_def h (Committed e) = (c_mote_def_hash e = h)"
| "is_committed_def h _ = False"

definition list_committed_by_mote_def_hash :: "mote_def_hash \<Rightarrow> journal \<Rightarrow> journal_entry list" where
  "list_committed_by_mote_def_hash h j = filter (is_committed_def h) (j_entries j)"

definition current_seq :: "journal \<Rightarrow> u64" where
  "current_seq j = j_next_seq j"

definition count_entries :: "journal \<Rightarrow> u64" where
  "count_entries j = of_nat (length (j_entries j))"

section \<open>Invariant\<close>

definition seqs_dense :: "journal_entry list \<Rightarrow> bool" where
  "seqs_dense es = (\<forall>i < length es. entry_seq (es ! i) = of_nat (Suc i))"

definition facts_unique :: "journal_entry list \<Rightarrow> bool" where
  "facts_unique es = distinct (map (\<lambda>e. (entry_kind e, idempotency_key e)) (filter dedupes es))"

definition journal_inv :: "hash_fn \<Rightarrow> journal \<Rightarrow> bool" where
  "journal_inv blake3 j = (j_next_seq j = of_nat (length (j_entries j)) \<and>
     seqs_dense (j_entries j) \<and> facts_unique (j_entries j) \<and>
     (\<forall>e \<in> set (j_entries j). derive_key blake3 e = e))"

lemma set_seq_simps [simp]:
  "entry_kind (set_seq n e) = entry_kind e"
  "entry_seq (set_seq n e) = n"
  "idempotency_key (set_seq n e) = idempotency_key e"
  "dedupes (set_seq n e) = dedupes e"
  "set_seq m (set_seq n e) = set_seq m e"
  "entry_mote_id blake3 (set_seq n e) = entry_mote_id blake3 e"
  by (cases e; simp add: dedupes_def)+

lemma derive_key_simps [simp]:
  "entry_kind (derive_key blake3 e) = entry_kind e"
  "derive_key blake3 (derive_key blake3 e) = derive_key blake3 e"
  "derive_key blake3 (set_seq n (derive_key blake3 e)) = set_seq n (derive_key blake3 e)"
  "entry_mote_id blake3' (derive_key blake3 e) = entry_mote_id blake3' e"
  by (cases e; simp)+

lemma seqs_dense_snoc:
  "seqs_dense (es @ [e]) \<longleftrightarrow> seqs_dense es \<and> entry_seq e = of_nat (Suc (length es))"
  by (auto simp: seqs_dense_def nth_append less_Suc_eq)

lemma facts_unique_snoc:
  "facts_unique (es @ [e]) \<longleftrightarrow>
     facts_unique es \<and> (dedupes e \<longrightarrow> (\<forall>x \<in> set es. dedupes x \<longrightarrow> \<not> same_fact e x))"
  by (auto simp: facts_unique_def same_fact_def image_iff) metis

lemma same_fact_dedupes: "same_fact e x \<Longrightarrow> dedupes x = dedupes e"
  by (simp add: same_fact_def dedupes_def)

lemma existing_None: "existing es e = None \<longleftrightarrow> (dedupes e \<longrightarrow> (\<forall>x \<in> set es. \<not> same_fact e x))"
  by (auto simp: existing_def find_None_iff)

lemma existing_Some:
  assumes "existing es e = Some x"
  shows "x \<in> set es" "same_fact e x" "dedupes e"
  using assms by (auto simp: existing_def find_Some_iff split: if_splits)

text \<open>One append either returns a recorded fact and leaves the log alone, or adds one entry.\<close>

lemma append_entry_cases:
  obtains (hit) x where "append_entry blake3 e j = (x, j)" "x \<in> set (j_entries j)"
      "same_fact (derive_key blake3 e) x" "dedupes e"
  | (new) "existing (j_entries j) (derive_key blake3 e) = None"
      "append_entry blake3 e j = (set_seq (j_next_seq j + 1) (derive_key blake3 e),
        j\<lparr>j_entries := j_entries j @ [set_seq (j_next_seq j + 1) (derive_key blake3 e)],
          j_next_seq := j_next_seq j + 1\<rparr>)"
proof (cases "existing (j_entries j) (derive_key blake3 e)")
  case None
  then show ?thesis by (intro new) (simp_all add: append_entry_def Let_def)
next
  case (Some x)
  then show ?thesis
    using existing_Some [OF Some] by (intro hit [of x]) (simp_all add: append_entry_def dedupes_def)
qed

lemma journal_inv_new: "journal_inv blake3 journal_new"
  by (simp add: journal_inv_def journal_new_def seqs_dense_def facts_unique_def)

lemma append_entry_inv:
  assumes "journal_inv blake3 j"
  shows "journal_inv blake3 (snd (append_entry blake3 e j))"
proof (cases rule: append_entry_cases [of blake3 e j])
  case new
  let ?e = "set_seq (j_next_seq j + 1) (derive_key blake3 e)"
  have "\<forall>x \<in> set (j_entries j). dedupes ?e \<longrightarrow> dedupes x \<longrightarrow> \<not> same_fact ?e x"
    using new(1) by (auto simp: existing_None same_fact_def dedupes_def)
  then show ?thesis
    using assms new(2) by (auto simp: journal_inv_def seqs_dense_snoc facts_unique_snoc)
qed (use assms in simp)

lemma append_entry_result:
  assumes "append_entry blake3 e j = (x, j')"
  shows "x \<in> set (j_entries j')" "prefix (j_entries j) (j_entries j')"
    "entry_kind x = entry_kind e" "dedupes e \<Longrightarrow> idempotency_key x = idempotency_key (derive_key blake3 e)"
  using assms by (cases rule: append_entry_cases [of blake3 e j]; auto simp: same_fact_def)+

section \<open>Batches\<close>

text \<open>The trait's default \<open>append_batch\<close>: one append after the other.\<close>

fun append_all :: "hash_fn \<Rightarrow> journal_entry list \<Rightarrow> journal \<Rightarrow> journal_entry list \<times> journal" where
  "append_all blake3 [] j = ([], j)"
| "append_all blake3 (e # es) j =
     (let (x, j1) = append_entry blake3 e j; (xs, j2) = append_all blake3 es j1 in (x # xs, j2))"

lemma batch_loop_append_all:
  "batch_loop blake3 log es n staged = (n', staged', durable) \<Longrightarrow>
     append_all blake3 es (j\<lparr>j_entries := log @ staged, j_next_seq := n\<rparr>) =
       (durable, j\<lparr>j_entries := log @ staged', j_next_seq := n'\<rparr>)"
proof (induction blake3 log es n staged arbitrary: n' staged' durable rule: batch_loop.induct)
  case (2 blake3 log e rest n staged)
  show ?case
  proof (cases "existing (log @ staged) (derive_key blake3 e)")
    case None
    with 2 show ?thesis by (auto simp: append_entry_def Let_def split: prod.splits)
  next
    case (Some x)
    with 2 show ?thesis by (auto simp: append_entry_def Let_def split: prod.splits)
  qed
qed simp

lemma append_batch_eq_append_all: "append_batch blake3 es j = append_all blake3 es j"
proof (cases "es = []")
  case False
  obtain n st du where b: "batch_loop blake3 (j_entries j) es (j_next_seq j) [] = (n, st, du)"
    by (metis prod_cases3)
  then show ?thesis
    using False batch_loop_append_all [OF b, of j] by (simp add: append_batch_def)
qed (simp add: append_batch_def)

lemma append_all_inv:
  "journal_inv blake3 j \<Longrightarrow> journal_inv blake3 (snd (append_all blake3 es j))"
proof (induction es arbitrary: j)
  case (Cons e es)
  then show ?case
    using append_entry_inv [OF Cons.prems, of e] by (auto split: prod.splits) (metis snd_conv)
qed simp

lemma append_all_prefix:
  "append_all blake3 es j = (xs, j') \<Longrightarrow> prefix (j_entries j) (j_entries j') \<and> length xs = length es"
proof (induction es arbitrary: j xs)
  case (Cons e es)
  then show ?case
    using append_entry_result(2) [of blake3 e j]
    by (auto split: prod.splits) (meson prefix_order.trans)+
qed simp

section \<open>Reading by sequence number\<close>

lemma filter_index_range:
  assumes "\<And>i. i < length xs \<Longrightarrow> P (xs ! i) \<longleftrightarrow> a \<le> i \<and> i < b" "a \<le> b"
  shows "filter P xs = take (b - a) (drop a xs)"
proof -
  have split: "xs = take a xs @ take (b - a) (drop a xs) @ drop b xs"
    using assms(2) by (metis append_take_drop_id drop_drop le_add_diff_inverse2)
  have "filter P (take a xs) = []"
    using assms by (auto simp: filter_empty_conv in_set_conv_nth)
  moreover have "filter P (drop b xs) = []"
    using assms by (auto simp: filter_empty_conv in_set_conv_nth)
  moreover have "filter P (take (b - a) (drop a xs)) = take (b - a) (drop a xs)"
    using assms by (auto simp: filter_id_conv in_set_conv_nth)
  ultimately show ?thesis by (subst split) simp
qed

lemma entry_seq_nth:
  assumes "seqs_dense es" "i < length es" "length es < 2 ^ 64"
  shows "unat (entry_seq (es ! i)) = Suc i"
  using assms by (simp add: seqs_dense_def unat_of_nat_small del: of_nat_Suc)

lemma seqs_dense_sorted:
  assumes "seqs_dense es" "length es < 2 ^ 64"
  shows "sorted_wrt (<) (map entry_seq es)"
  using assms entry_seq_nth [OF assms(1)]
  by (auto simp: sorted_wrt_iff_nth_less word_less_nat_alt)

lemma read_range:
  assumes inv: "journal_inv blake3 j" and len: "length (j_entries j) < 2 ^ 64"
    and ab: "1 \<le> a" "a \<le> b" "b < 2 ^ 64"
  shows "read_entries_by_seq (of_nat a) (of_nat b) j = take (b - a) (drop (a - 1) (j_entries j))"
proof -
  let ?es = "j_entries j"
  have dense: "seqs_dense ?es" using inv by (simp add: journal_inv_def)
  have "unat (of_nat a :: u64) = a" "unat (of_nat b :: u64) = b"
    using ab by (simp_all add: unat_of_nat_small)
  then have "filter (\<lambda>e. of_nat a \<le> entry_seq e \<and> entry_seq e < of_nat b) ?es =
      take ((b - 1) - (a - 1)) (drop (a - 1) ?es)"
    using ab entry_seq_nth [OF dense _ len]
    by (intro filter_index_range) (auto simp: word_le_nat_alt word_less_nat_alt)
  moreover have "sorted (map entry_seq (take (b - a) (drop (a - 1) ?es)))"
  proof -
    have "sorted (map entry_seq ?es)"
      using seqs_dense_sorted [OF dense len] by (simp add: strict_sorted_iff)
    then show ?thesis by (metis drop_map sorted_wrt_drop sorted_wrt_take take_map)
  qed
  ultimately show ?thesis
    using ab by (simp add: read_entries_by_seq_def sort_key_id_if_sorted)
qed

lemma read_all:
  assumes "journal_inv blake3 j" "length (j_entries j) + 1 < 2 ^ 64"
  shows "read_entries_by_seq 1 (current_seq j + 1) j = j_entries j"
proof -
  have "current_seq j + 1 = of_nat (length (j_entries j) + 1)"
    using assms by (simp add: current_seq_def journal_inv_def)
  then show ?thesis
    using read_range [OF assms(1), of 1 "length (j_entries j) + 1"] assms(2)
    by (simp add: add.commute)
qed

section \<open>The journal contract\<close>

text \<open>
  What clients of any backend rely on: an append either returns the one recorded fact or
  extends the log by one entry carrying the requested fact.
\<close>

locale journal_backend =
  fixes jappend :: "'e \<Rightarrow> 'j \<Rightarrow> 'e \<times> 'j"
    and jlog :: "'j \<Rightarrow> 'e list"
    and jinv :: "'j \<Rightarrow> bool"
    and deduped :: "'e \<Rightarrow> bool"
    and fact :: "'e \<Rightarrow> 'f"
  assumes append_inv: "jinv j \<Longrightarrow> jinv (snd (jappend e j))"
    and append_hit: "\<lbrakk>jinv j; deduped e; x \<in> set (jlog j); deduped x; fact x = fact e\<rbrakk> \<Longrightarrow>
          jappend e j = (x, j)"
    and append_new: "\<lbrakk>jinv j; deduped e \<longrightarrow> (\<forall>x \<in> set (jlog j). deduped x \<longrightarrow> fact x \<noteq> fact e)\<rbrakk> \<Longrightarrow>
          \<exists>x j'. jappend e j = (x, j') \<and> jlog j' = jlog j @ [x] \<and> fact x = fact e \<and> deduped x = deduped e"
begin

lemma append_effect:
  assumes "jinv j" "jappend e j = (x, j')"
  shows "x \<in> set (jlog j') \<and> prefix (jlog j) (jlog j') \<and> fact x = fact e \<and> deduped x = deduped e"
proof (cases "deduped e \<and> (\<exists>y \<in> set (jlog j). deduped y \<and> fact y = fact e)")
  case True
  then obtain y where "y \<in> set (jlog j)" "deduped y" "fact y = fact e" by blast
  then show ?thesis using assms append_hit [of j e y] True by auto
next
  case False
  then show ?thesis using assms append_new [of j e] by auto
qed

fun jappend_many :: "'e list \<Rightarrow> 'j \<Rightarrow> 'j" where
  "jappend_many [] j = j"
| "jappend_many (e # es) j = jappend_many es (snd (jappend e j))"

lemma append_many_inv: "jinv j \<Longrightarrow> jinv (jappend_many es j)"
  by (induction es arbitrary: j) (auto simp: append_inv)

lemma append_many_prefix: "jinv j \<Longrightarrow> prefix (jlog j) (jlog (jappend_many es j))"
proof (induction es arbitrary: j)
  case (Cons e es)
  have "prefix (jlog j) (jlog (snd (jappend e j)))"
    using append_effect [OF Cons.prems] by (metis prod.collapse)
  also have "prefix \<dots> (jlog (jappend_many (e # es) j))"
    using Cons append_inv by simp
  finally show ?case .
qed simp

text \<open>A retry after any number of other appends returns the original entry and writes nothing.\<close>

lemma retry_returns_original:
  assumes "jinv j" "deduped e" "jappend e j = (x, j1)" "j2 = jappend_many es j1"
    and "deduped e'" "fact e' = fact e"
  shows "jappend e' j2 = (x, j2)"
proof -
  have inv1: "jinv j1" using append_inv [OF assms(1), of e] assms(3) by simp
  have x: "x \<in> set (jlog j1)" "fact x = fact e" "deduped x"
    using append_effect [OF assms(1,3)] assms(2) by auto
  have "x \<in> set (jlog j2)"
    using x(1) append_many_prefix [OF inv1, of es] assms(4) by (meson set_mono_prefix subsetD)
  then show ?thesis
    using append_hit [of j2 e' x] append_many_inv [OF inv1, of es] x assms by simp
qed

end

definition fact_of :: "hash_fn \<Rightarrow> journal_entry \<Rightarrow> u8 \<times> array32" where
  "fact_of blake3 e = (entry_kind e, idempotency_key (derive_key blake3 e))"

lemma facts_unique_eq:
  assumes "facts_unique es" "x \<in> set es" "y \<in> set es" "dedupes x" "dedupes y"
    "entry_kind x = entry_kind y" "idempotency_key x = idempotency_key y"
  shows "x = y"
  using assms by (auto simp: facts_unique_def distinct_map inj_on_def)

lemma existing_unique:
  assumes "facts_unique es" "x \<in> set es" "dedupes e" "same_fact e x"
  shows "existing es e = Some x"
proof -
  from assms obtain y where y: "existing es e = Some y"
    using existing_None by (metis option.exhaust)
  with existing_Some [OF y] assms have "y = x"
    using facts_unique_eq by (metis same_fact_def same_fact_dedupes)
  with y show ?thesis by simp
qed

interpretation mem: journal_backend "append_entry blake3" j_entries "journal_inv blake3" dedupes
    "fact_of blake3" for blake3
proof (standard, goal_cases)
  case (1 j e)
  then show ?case by (rule append_entry_inv)
next
  case (2 j e x)
  then have "same_fact (derive_key blake3 e) x"
    by (auto simp: fact_of_def same_fact_def journal_inv_def)
  then have "existing (j_entries j) (derive_key blake3 e) = Some x"
    using 2 by (intro existing_unique) (auto simp: journal_inv_def dedupes_def)
  then show ?case by (simp add: append_entry_def)
next
  case (3 j e)
  then have none: "existing (j_entries j) (derive_key blake3 e) = None"
    by (auto simp: existing_None fact_of_def same_fact_def journal_inv_def dedupes_def)
  have "fact_of blake3 (set_seq n (derive_key blake3 e)) = fact_of blake3 e" for n
    by (simp add: fact_of_def)
  with none show ?case
    by (auto simp: append_entry_def Let_def dedupes_def)
qed

section \<open>Properties of the log\<close>

datatype journal_op = OpAppend journal_entry | OpBatch "journal_entry list"

fun exec_op :: "hash_fn \<Rightarrow> journal_op \<Rightarrow> journal \<Rightarrow> journal" where
  "exec_op blake3 (OpAppend e) j = snd (append_entry blake3 e j)"
| "exec_op blake3 (OpBatch es) j = snd (append_batch blake3 es j)"

definition exec_ops :: "hash_fn \<Rightarrow> journal_op list \<Rightarrow> journal \<Rightarrow> journal" where
  "exec_ops blake3 ops j = fold (exec_op blake3) ops j"

lemma exec_op_inv: "journal_inv blake3 j \<Longrightarrow> journal_inv blake3 (exec_op blake3 op j)"
  by (cases op) (simp_all add: append_entry_inv append_batch_eq_append_all append_all_inv)

lemma exec_ops_inv: "journal_inv blake3 j \<Longrightarrow> journal_inv blake3 (exec_ops blake3 ops j)"
  unfolding exec_ops_def by (induction ops arbitrary: j) (simp_all add: exec_op_inv)

lemma exec_op_prefix: "prefix (j_entries j) (j_entries (exec_op blake3 op j))"
  using append_entry_result(2) append_all_prefix
  by (cases op) (auto simp: append_batch_eq_append_all, metis prod.collapse, metis prod.collapse)

lemma exec_ops_prefix: "prefix (j_entries j) (j_entries (exec_ops blake3 ops j))"
  unfolding exec_ops_def
proof (induction ops arbitrary: j)
  case (Cons op ops)
  have "prefix (j_entries j) (j_entries (exec_op blake3 op j))" by (rule exec_op_prefix)
  also have "prefix \<dots> (j_entries (fold (exec_op blake3) (op # ops) j))" using Cons by simp
  finally show ?case .
qed simp

text \<open>
  C36: after any sequence of single and batched appends the log is numbered densely from 1
  in strictly increasing order, the head is its length, each (kind, key) of a deduplicated
  kind occurs at most once, and the log only ever grew at its end.
\<close>

theorem journal_log_invariant:
  assumes "length (j_entries (exec_ops blake3 (ops1 @ ops2) journal_new)) < 2 ^ 64"
  defines "j \<equiv> exec_ops blake3 (ops1 @ ops2) journal_new"
  shows "map entry_seq (j_entries j) = map of_nat [1..<Suc (length (j_entries j))] \<and>
    sorted_wrt (<) (map entry_seq (j_entries j)) \<and>
    current_seq j = of_nat (length (j_entries j)) \<and> count_entries j = current_seq j \<and>
    distinct (map (\<lambda>e. (entry_kind e, idempotency_key e)) (filter dedupes (j_entries j))) \<and>
    prefix (j_entries (exec_ops blake3 ops1 journal_new)) (j_entries j)"
proof -
  have inv: "journal_inv blake3 j" unfolding j_def by (rule exec_ops_inv [OF journal_inv_new])
  then have "map entry_seq (j_entries j) = map of_nat [1..<Suc (length (j_entries j))]"
    by (intro nth_equalityI) (auto simp: journal_inv_def seqs_dense_def nth_upt simp del: upt_Suc)
  moreover have "prefix (j_entries (exec_ops blake3 ops1 journal_new)) (j_entries j)"
    unfolding j_def using exec_ops_prefix by (simp add: exec_ops_def)
  ultimately show ?thesis
    using inv assms seqs_dense_sorted [of "j_entries j"]
    by (auto simp: journal_inv_def facts_unique_def current_seq_def count_entries_def)
qed

text \<open>
  The atomic batch (staged entries, duplicates looked up in the log and in the batch)
  returns and records exactly what the trait's default loop of single appends does.
\<close>

theorem append_batch_is_append_loop: "append_batch blake3 es j = append_all blake3 es j"
  by (rule append_batch_eq_append_all)

text \<open>
  C6: a deduplicated fact is written once. After it was appended, and after any further
  appends, appending it again (a retry, a second worker, a replay, with whatever payload)
  returns the original entry with its original sequence number and leaves the log unchanged.
\<close>

theorem journal_retry_idempotent:
  assumes "journal_inv blake3 j" "dedupes e" "append_entry blake3 e j = (x, j1)"
    and "j2 = exec_ops blake3 (map OpAppend es) j1"
    and "dedupes e'" "fact_of blake3 e' = fact_of blake3 e"
  shows "append_entry blake3 e' j2 = (x, j2)"
proof -
  have "exec_ops blake3 (map OpAppend es) j1 = mem.jappend_many blake3 es j1"
    unfolding exec_ops_def by (induction es arbitrary: j1) simp_all
  then show ?thesis using mem.retry_returns_original assms by metis
qed

text \<open>
  Reading the half-open range \<open>[a, b)\<close> returns exactly the entries at positions
  \<open>a\<close> to \<open>b - 1\<close> of the log, in order, and \<open>[1, head + 1)\<close> is the whole log.
\<close>

theorem read_entries_exact:
  assumes "journal_inv blake3 j" "length (j_entries j) + 1 < 2 ^ 64" "1 \<le> a" "a \<le> b" "b < 2 ^ 64"
  shows "read_entries_by_seq (of_nat a) (of_nat b) j = take (b - a) (drop (a - 1) (j_entries j)) \<and>
    read_entries_by_seq 1 (current_seq j + 1) j = j_entries j"
  using read_range [OF assms(1) _ assms(3-5)] read_all [OF assms(1,2)] assms(2) by simp

section \<open>Witnesses\<close>

definition staged :: "array32 \<Rightarrow> journal_entry" where
  "staged k = EffectStaged \<lparr>es_mote_id = k, es_idempotency_key = k, es_seq = 0\<rparr>"

definition two_staged :: journal where
  "two_staged = \<lparr>j_entries = [set_seq 1 (staged 7), set_seq 2 (staged 8)], j_next_seq = 2\<rparr>"

lemma two_staged_exec:
  "exec_ops (\<lambda>_. 0) [OpAppend (staged 7), OpBatch [staged 7, staged 8]] journal_new = two_staged"
  by (simp add: exec_ops_def append_batch_def append_entry_def existing_def Let_def journal_new_def
      staged_def two_staged_def dedupes_def same_fact_def)

lemma two_staged_inv: "journal_inv (\<lambda>_. 0) two_staged"
  using exec_ops_inv [OF journal_inv_new] by (metis two_staged_exec)

theorem journal_log_invariant_witness:
  "map entry_seq (j_entries two_staged) = [1, 2] \<and> current_seq two_staged = 2"
proof -
  have run: "exec_ops (\<lambda>_. 0) ([OpAppend (staged 7)] @ [OpBatch [staged 7, staged 8]]) journal_new = two_staged"
    using two_staged_exec by simp
  have "length (j_entries (exec_ops (\<lambda>_. 0) ([OpAppend (staged 7)] @ [OpBatch [staged 7, staged 8]]) journal_new)) < 2 ^ 64"
    unfolding run by (simp add: two_staged_def)
  from journal_log_invariant [OF this] show ?thesis
    unfolding run by (simp add: two_staged_def current_seq_def)
qed

theorem journal_retry_idempotent_witness:
  "append_entry (\<lambda>_. 0) (staged 7) two_staged = (set_seq 1 (staged 7), two_staged)"
proof (rule journal_retry_idempotent [where e = "staged 7" and es = "[staged 8]" and ?j1.0 =
      "\<lparr>j_entries = [set_seq 1 (staged 7)], j_next_seq = 1\<rparr>", OF journal_inv_new])
qed (simp_all add: staged_def dedupes_def append_entry_def existing_def journal_new_def Let_def
  exec_ops_def two_staged_def same_fact_def)

theorem read_entries_exact_witness:
  "read_entries_by_seq (of_nat 2) (of_nat 3) two_staged = [set_seq 2 (staged 8)]"
proof -
  have "read_entries_by_seq (of_nat 2) (of_nat 3) two_staged = take (3 - 2) (drop (2 - 1) (j_entries two_staged))"
    using read_entries_exact [OF two_staged_inv, of 2 3] by (simp add: two_staged_def)
  then show ?thesis by (simp add: two_staged_def)
qed

end
