(* ===== verification/Kx_Journal_Watch.thy ===== *)
theory Kx_Journal_Watch
  imports Kx_Journal_Log
begin

text \<open>
  Change notification (\<open>crates/kx-journal/src/watch.rs\<close>, the publish calls of
  \<open>in_memory.rs\<close>, the subscriber loop documented on \<open>WatchableJournal\<close>). A commit releases
  the write lock before it publishes its sequence number, so publishes may reach the
  watermark late and out of order, and a subscriber may run at any point in between. The
  step relation interleaves all of this; the properties are that a subscriber sees every
  entry exactly once and that it never sleeps while entries are owed to it.
\<close>

section \<open>The watermark\<close>

definition publish :: "u64 \<Rightarrow> u64 \<Rightarrow> u64" where
  "publish head current = (if head > current then head else current)"

record watch_state =
  w_journal :: journal
  w_unpublished :: "u64 list"
  w_head :: u64
  w_seen :: u64
  w_awake :: bool
  w_cursor :: u64
  w_delivered :: "journal_entry list"

text \<open>\<open>subscribe\<close> marks the current watermark as seen; the caller then reads its own cursor.\<close>

definition subscribe :: "journal \<Rightarrow> u64 list \<Rightarrow> u64 \<Rightarrow> watch_state" where
  "subscribe j unpublished head = \<lparr>w_journal = j, w_unpublished = unpublished, w_head = head,
     w_seen = head, w_awake = False, w_cursor = current_seq j, w_delivered = []\<rparr>"

inductive watch_step :: "hash_fn \<Rightarrow> watch_state \<Rightarrow> watch_state \<Rightarrow> bool" for blake3 where
  commit_new:
    "append_entry blake3 e (w_journal s) = (x, j) \<Longrightarrow> j \<noteq> w_journal s \<Longrightarrow>
       watch_step blake3 s (s\<lparr>w_journal := j, w_unpublished := w_unpublished s @ [j_next_seq j]\<rparr>)"
| commit_duplicate:
    "append_entry blake3 e (w_journal s) = (x, w_journal s) \<Longrightarrow> watch_step blake3 s s"
| commit_batch:
    "append_batch blake3 es (w_journal s) = (xs, j) \<Longrightarrow> es \<noteq> [] \<Longrightarrow>
       watch_step blake3 s (s\<lparr>w_journal := j, w_unpublished := w_unpublished s @ [j_next_seq j]\<rparr>)"
| announce:
    "n \<in> set (w_unpublished s) \<Longrightarrow>
       watch_step blake3 s (s\<lparr>w_head := publish n (w_head s), w_unpublished := remove1 n (w_unpublished s)\<rparr>)"
| wake:
    "\<not> w_awake s \<Longrightarrow> w_head s \<noteq> w_seen s \<Longrightarrow>
       watch_step blake3 s (s\<lparr>w_seen := w_head s, w_awake := True\<rparr>)"
| read_owed:
    "w_awake s \<Longrightarrow>
       watch_step blake3 s (s\<lparr>w_delivered := w_delivered s @
           read_entries_by_seq (w_cursor s + 1) (current_seq (w_journal s) + 1) (w_journal s),
         w_cursor := current_seq (w_journal s), w_awake := False\<rparr>)"

inductive_cases watch_stepE: "watch_step blake3 s t"

inductive watch_run :: "hash_fn \<Rightarrow> watch_state \<Rightarrow> watch_state \<Rightarrow> bool" for blake3 where
  run_start: "watch_run blake3 s s"
| run_step: "watch_run blake3 s t \<Longrightarrow> watch_step blake3 t u \<Longrightarrow> watch_run blake3 s u"

section \<open>Invariant\<close>

definition writer_ok :: "hash_fn \<Rightarrow> journal \<Rightarrow> u64 list \<Rightarrow> u64 \<Rightarrow> bool" where
  "writer_ok blake3 j unpublished head = (journal_inv blake3 j \<and>
     (\<forall>n \<in> set unpublished. n \<le> j_next_seq j) \<and> head \<le> j_next_seq j \<and>
     (j_next_seq j = head \<or> j_next_seq j \<in> set unpublished))"

definition watch_inv :: "hash_fn \<Rightarrow> u64 \<Rightarrow> watch_state \<Rightarrow> bool" where
  "watch_inv blake3 c0 s = (
     writer_ok blake3 (w_journal s) (w_unpublished s) (w_head s) \<and>
     w_seen s \<le> w_head s \<and> (w_awake s \<or> w_seen s \<le> w_cursor s) \<and>
     c0 \<le> w_cursor s \<and> w_cursor s \<le> j_next_seq (w_journal s) \<and>
     w_delivered s = drop (unat c0) (take (unat (w_cursor s)) (j_entries (w_journal s))))"

definition fits :: "journal \<Rightarrow> bool" where
  "fits j = (length (j_entries j) + 1 < 2 ^ 64)"

lemma next_seq_unat: "journal_inv blake3 j \<Longrightarrow> fits j \<Longrightarrow> unat (j_next_seq j) = length (j_entries j)"
  by (simp add: journal_inv_def fits_def unat_of_nat_small)

lemma prefix_grows:
  assumes "journal_inv blake3 j" "journal_inv blake3 j'" "prefix (j_entries j) (j_entries j')" "fits j'"
  shows "fits j" "j_next_seq j \<le> j_next_seq j'"
    "n \<le> length (j_entries j) \<Longrightarrow> take n (j_entries j') = take n (j_entries j)"
proof -
  have le: "length (j_entries j) \<le> length (j_entries j')" using assms(3) by (rule prefix_length_le)
  show "fits j" using le assms(4) by (simp add: fits_def)
  then show "j_next_seq j \<le> j_next_seq j'"
    using le assms next_seq_unat by (simp add: word_le_nat_alt)
  show "n \<le> length (j_entries j) \<Longrightarrow> take n (j_entries j') = take n (j_entries j)"
    using assms(3) by (auto simp: prefix_def)
qed

lemma writer_grows:
  assumes "writer_ok blake3 j U h" "journal_inv blake3 j'" "prefix (j_entries j) (j_entries j')" "fits j'"
  shows "writer_ok blake3 j' (U @ [j_next_seq j']) h"
  using assms prefix_grows(2) [of blake3 j j'] by (auto simp: writer_ok_def)

lemma writer_announce:
  assumes "writer_ok blake3 j U h" "n \<in> set U"
  shows "writer_ok blake3 j (remove1 n U) (publish n h)"
proof -
  have "n \<le> j_next_seq j" "h \<le> j_next_seq j" using assms by (auto simp: writer_ok_def)
  then have "j_next_seq j = publish n h \<or> j_next_seq j \<in> set (remove1 n U)"
    using assms by (cases "n = j_next_seq j") (auto simp: writer_ok_def publish_def)
  then show ?thesis
    using assms \<open>n \<le> j_next_seq j\<close> set_remove1_subset [of n U] by (auto simp: writer_ok_def publish_def)
qed

lemma watch_inv_grow:
  assumes "watch_inv blake3 c0 s" "journal_inv blake3 j'" "prefix (j_entries (w_journal s)) (j_entries j')"
    and "fits j'"
  shows "watch_inv blake3 c0 (s\<lparr>w_journal := j', w_unpublished := w_unpublished s @ [j_next_seq j']\<rparr>)"
proof -
  have inv: "journal_inv blake3 (w_journal s)" using assms(1) by (simp add: watch_inv_def writer_ok_def)
  note g = prefix_grows [OF inv assms(2-4)]
  have "unat (w_cursor s) \<le> length (j_entries (w_journal s))"
    using assms(1) next_seq_unat [OF inv g(1)] by (simp add: watch_inv_def word_le_nat_alt)
  then show ?thesis
    using assms writer_grows [OF _ assms(2-4)] g by (auto simp: watch_inv_def)
qed

lemma append_batch_grows:
  assumes "journal_inv blake3 j" "append_batch blake3 es j = (xs, j')"
  shows "journal_inv blake3 j'" "prefix (j_entries j) (j_entries j')"
  using assms append_all_inv [of blake3 j es] append_all_prefix [of blake3 es j]
  by (auto simp: append_batch_eq_append_all)

lemma append_entry_grows:
  assumes "journal_inv blake3 j" "append_entry blake3 e j = (x, j')"
  shows "journal_inv blake3 j'" "prefix (j_entries j) (j_entries j')"
  using assms append_entry_inv [of blake3 j e] append_entry_result(2) [OF assms(2)] by auto

lemma watch_inv_read:
  assumes inv: "watch_inv blake3 c0 s" and fits: "fits (w_journal s)"
  shows "watch_inv blake3 c0 (s\<lparr>w_delivered := w_delivered s @
      read_entries_by_seq (w_cursor s + 1) (current_seq (w_journal s) + 1) (w_journal s),
    w_cursor := current_seq (w_journal s), w_awake := False\<rparr>)"
proof -
  let ?j = "w_journal s" and ?c = "unat (w_cursor s)"
  have ji: "journal_inv blake3 ?j" using inv by (simp add: watch_inv_def writer_ok_def)
  have n: "unat (j_next_seq ?j) = length (j_entries ?j)" by (rule next_seq_unat [OF ji fits])
  have c: "?c \<le> length (j_entries ?j)" "unat c0 \<le> ?c"
    using inv n by (simp_all add: watch_inv_def word_le_nat_alt)
  have "w_cursor s + 1 = of_nat (?c + 1)" "current_seq ?j + 1 = of_nat (length (j_entries ?j) + 1)"
    using n by (simp_all add: current_seq_def flip: n)
  then have "read_entries_by_seq (w_cursor s + 1) (current_seq ?j + 1) ?j = drop ?c (j_entries ?j)"
    using read_range [OF ji, of "?c + 1" "length (j_entries ?j) + 1"] c fits
    by (simp add: fits_def add.commute)
  moreover have "drop (unat c0) (take ?c (j_entries ?j)) @ drop ?c (j_entries ?j) =
      drop (unat c0) (j_entries ?j)"
    using c by (metis append_take_drop_id drop_append drop_drop length_take min.absorb2 le_add_diff_inverse2
        diff_is_0_eq drop0)
  moreover have "w_seen s \<le> j_next_seq ?j" "c0 \<le> j_next_seq ?j"
    using inv unfolding watch_inv_def writer_ok_def by (meson order_trans)+
  ultimately show ?thesis
    using inv n by (simp add: watch_inv_def current_seq_def)
qed

lemma watch_step_inv:
  assumes "watch_step blake3 s t" "watch_inv blake3 c0 s" "fits (w_journal t)"
  shows "watch_inv blake3 c0 t"
  using assms
proof (cases rule: watch_step.cases)
  case (commit_new e x j)
  have "journal_inv blake3 (w_journal s)" using assms(2) by (simp add: watch_inv_def writer_ok_def)
  then show ?thesis
    using commit_new assms append_entry_grows by (auto intro!: watch_inv_grow)
next
  case (commit_batch es xs j)
  have "journal_inv blake3 (w_journal s)" using assms(2) by (simp add: watch_inv_def writer_ok_def)
  then show ?thesis
    using commit_batch assms append_batch_grows by (auto intro!: watch_inv_grow)
next
  case (announce n)
  have "writer_ok blake3 (w_journal s) (remove1 n (w_unpublished s)) (publish n (w_head s))"
    using assms(2) announce by (auto intro: writer_announce simp: watch_inv_def)
  moreover have "w_head s \<le> publish n (w_head s)" by (auto simp: publish_def)
  ultimately show ?thesis
    using announce assms(2) unfolding watch_inv_def by (auto intro: order_trans)
next
  case read_owed
  then show ?thesis using assms watch_inv_read by auto
qed (use assms in \<open>auto simp: watch_inv_def\<close>)

lemma watch_step_length:
  assumes "watch_step blake3 s t" "journal_inv blake3 (w_journal s)" "fits (w_journal t)"
  shows "fits (w_journal s)"
  using assms
proof (cases rule: watch_step.cases)
  case (commit_new e x j)
  then show ?thesis using assms append_entry_grows prefix_grows(1) [of blake3 "w_journal s" j] by auto
next
  case (commit_batch es xs j)
  then show ?thesis using assms append_batch_grows prefix_grows(1) [of blake3 "w_journal s" j] by auto
qed simp_all

lemma watch_step_journal_inv:
  "watch_step blake3 s t \<Longrightarrow> journal_inv blake3 (w_journal s) \<Longrightarrow> journal_inv blake3 (w_journal t)"
  by (cases rule: watch_step.cases) (auto dest: append_entry_grows append_batch_grows)

lemma watch_run_inv:
  assumes "watch_run blake3 s t" "watch_inv blake3 c0 s" "fits (w_journal t)"
  shows "watch_inv blake3 c0 t"
  using assms
proof (induction rule: watch_run.induct)
  case (run_step s t u)
  have "journal_inv blake3 (w_journal t)" using run_step.hyps(1) run_step.prems(1)
    by (induction rule: watch_run.induct) (auto simp: watch_inv_def writer_ok_def dest: watch_step_journal_inv)
  then have "fits (w_journal t)" using run_step watch_step_length by blast
  with run_step watch_step_inv show ?case by blast
qed

section \<open>Exactly-once delivery\<close>

text \<open>
  C25: take any state of the writers (some publishes may still be pending), subscribe, and
  let appends, batches, late and out-of-order publishes and the subscriber interleave in
  any way. What the subscriber has received is exactly the part of the log between its
  start and its cursor, in order, each entry once; and whenever every publish has landed
  and the subscriber sleeps, it has received the whole log: no wakeup is lost.
\<close>

theorem subscriber_exactly_once:
  assumes "writer_ok blake3 j U h" "watch_run blake3 (subscribe j U h) s" "fits (w_journal s)"
  shows "w_delivered s =
      drop (unat (current_seq j)) (take (unat (w_cursor s)) (j_entries (w_journal s))) \<and>
    (w_unpublished s = [] \<and> \<not> w_awake s \<and> w_head s = w_seen s \<longrightarrow>
      w_delivered s = drop (unat (current_seq j)) (j_entries (w_journal s)))"
proof -
  have "watch_inv blake3 (current_seq j) (subscribe j U h)"
    using assms(1) by (simp add: watch_inv_def subscribe_def current_seq_def writer_ok_def)
  then have inv: "watch_inv blake3 (current_seq j) s"
    using watch_run_inv assms(2,3) by blast
  have "w_cursor s = j_next_seq (w_journal s)"
    if "w_unpublished s = []" "\<not> w_awake s" "w_head s = w_seen s"
    using inv that by (auto simp: watch_inv_def writer_ok_def)
  moreover have "unat (j_next_seq (w_journal s)) = length (j_entries (w_journal s))"
    using inv assms(3) by (intro next_seq_unat) (auto simp: watch_inv_def writer_ok_def)
  ultimately show ?thesis
    using inv by (auto simp: watch_inv_def)
qed

theorem subscriber_exactly_once_witness:
  "\<exists>s. watch_run (\<lambda>_. 0) (subscribe journal_new [] 0) s \<and> w_unpublished s = [] \<and> \<not> w_awake s \<and>
     w_head s = w_seen s \<and> w_delivered s = [set_seq 1 (staged 7)]"
proof -
  let ?h = "\<lambda>_. 0 :: array32"
  let ?j = "\<lparr>j_entries = [set_seq 1 (staged 7)], j_next_seq = 1\<rparr>"
  let ?s0 = "subscribe journal_new [] 0"
  let ?s1 = "?s0\<lparr>w_journal := ?j, w_unpublished := [1]\<rparr>"
  let ?s2 = "?s1\<lparr>w_head := 1, w_unpublished := []\<rparr>"
  let ?s3 = "?s2\<lparr>w_seen := 1, w_awake := True\<rparr>"
  let ?s4 = "?s3\<lparr>w_delivered := [] @ read_entries_by_seq (0 + 1) (current_seq ?j + 1) ?j,
      w_cursor := current_seq ?j, w_awake := False\<rparr>"
  have "watch_step ?h ?s0 ?s1"
    using watch_step.commit_new [of ?h "staged 7" ?s0 "set_seq 1 (staged 7)" ?j]
    by (simp add: subscribe_def journal_new_def append_entry_def existing_def staged_def Let_def)
  moreover have "watch_step ?h ?s1 ?s2"
    using watch_step.announce [of 1 ?s1 ?h] by (simp add: subscribe_def publish_def)
  moreover have "watch_step ?h ?s2 ?s3"
    using watch_step.wake [of ?s2 ?h] by (simp add: subscribe_def)
  moreover have "watch_step ?h ?s3 ?s4"
    using watch_step.read_owed [of ?s3 ?h] by (simp add: subscribe_def current_seq_def journal_new_def)
  ultimately have run: "watch_run ?h ?s0 ?s4"
    by (meson run_start run_step)
  have ok: "writer_ok ?h journal_new [] 0"
    using journal_inv_new [of ?h] by (simp add: writer_ok_def journal_new_def)
  have "w_delivered ?s4 = drop (unat (current_seq journal_new)) (j_entries (w_journal ?s4))"
    using subscriber_exactly_once [OF ok run] by (auto simp: fits_def subscribe_def)
  then have "w_delivered ?s4 = [set_seq 1 (staged 7)]"
    by (simp add: current_seq_def journal_new_def)
  with run show ?thesis by (intro exI [of _ ?s4]) (simp add: subscribe_def)
qed

end
