(* ===== verification/Kx_Projection_State.thy ===== *)
theory Kx_Projection_State
  imports Kx_Journal_Entry "HOL-Library.Option_ord"
begin

text \<open>
  The projection's state (\<open>crates/kx-projection/src/state.rs\<close>): what is known of each
  Mote, the reverse edge index and the off-graph run metadata. The index is maintained
  incrementally; the main result is that it always equals the full rebuild.
\<close>

section \<open>State (state.rs, enums.rs, register.rs)\<close>

datatype mote_state = MsPending | MsScheduled | MsCommitted | MsFailed | MsRepudiated | MsInconsistent

datatype anomaly_kind = EffectStagedThenRepudiatedNoCommitted | QuarantinedAtLeastOnceEffect

datatype promotion_state = NotApplicable | Unpromoted | Promoted

record committed_info =
  ci_seq :: u64
  ci_result_ref :: content_ref
  ci_nondeterminism :: nd_class
  ci_parents_in_entry :: "parent_entry list"
  ci_warrant_ref :: content_ref
  ci_mote_def_hash :: mote_def_hash
  ci_repudiated :: bool

record declared_info =
  di_nd_class :: nd_class
  di_effect_pattern :: effect_pattern
  di_critic_for :: "mote_id option"
  di_is_topology_shaper :: bool
  di_parents :: "parent_ref list"
  di_warrant_ref :: content_ref

record mote_info =
  mi_declared :: "declared_info option"
  mi_committed :: "committed_info option"
  mi_has_proposed :: bool
  mi_failed_pending_reattempt :: bool
  mi_effect_staged_observed :: bool
  mi_terminal_failure_observed :: bool
  mi_inconsistent :: bool
  mi_quarantined :: bool
  mi_failure_reason :: "failure_reason option"
  mi_failure_detail :: rstring

definition mote_info_default :: mote_info where
  "mote_info_default = \<lparr>mi_declared = None, mi_committed = None, mi_has_proposed = False,
     mi_failed_pending_reattempt = False, mi_effect_staged_observed = False,
     mi_terminal_failure_observed = False, mi_inconsistent = False, mi_quarantined = False,
     mi_failure_reason = None, mi_failure_detail = []\<rparr>"

record register_mote_req =
  rg_mote_id :: mote_id
  rg_nd_class :: nd_class
  rg_effect_pattern :: effect_pattern
  rg_critic_for :: "mote_id option"
  rg_is_topology_shaper :: bool
  rg_parents :: "parent_ref list"
  rg_warrant_ref :: content_ref

record run_resolved_versions =
  rs_instance_id :: array16
  rs_warrant_ref :: content_ref
  rs_model_id :: rstring
  rs_capability :: "resolved_capability_record option"

text \<open>These records repeat the fields of the journal entry they are folded from.\<close>

type_synonym replan_round_record = replan_round_entry
type_synonym react_round_record = react_round_entry
type_synonym rerank_round_record = rerank_round_entry
type_synonym approval_record = approval_entry
type_synonym timer_record = timer_armed_entry
type_synonym react_chain_index = "(array16, (array32 option, nat list) btree) btree"
type_synonym child_index = "(mote_id, (mote_id \<times> edge_meta) list) btree"

record pstate =
  st_motes :: "(mote_id, mote_info) btree"
  st_children :: child_index
  st_last_seq :: u64
  st_run_registration :: "(array16 \<times> array32) option"
  st_run_resolved_versions :: "run_resolved_versions list"
  st_replan_rounds :: "replan_round_record list"
  st_react_rounds :: "react_round_record list"
  st_react_index :: react_chain_index
  st_react_turn_motes :: "mote_id set"
  st_react_tool_round_of_turn :: "(mote_id, nat) btree"
  st_approvals :: "approval_record list"
  st_approval_index :: "(array16, nat) btree"
  st_rerank_rounds :: "rerank_round_record list"
  st_timers :: "timer_record list"

definition pstate_default :: pstate where
  "pstate_default = \<lparr>st_motes = [], st_children = [], st_last_seq = 0, st_run_registration = None,
     st_run_resolved_versions = [], st_replan_rounds = [], st_react_rounds = [], st_react_index = [],
     st_react_turn_motes = {}, st_react_tool_round_of_turn = [], st_approvals = [],
     st_approval_index = [], st_rerank_rounds = [], st_timers = []\<rparr>"

text \<open>\<open>moteinfo_mut\<close>: the slot of a Mote, created on first use, then mutated.\<close>

definition moteinfo_upd :: "mote_id \<Rightarrow> (mote_info \<Rightarrow> mote_info) \<Rightarrow> pstate \<Rightarrow> pstate" where
  "moteinfo_upd i f st = st\<lparr>st_motes := bt_entry_upd i mote_info_default f (st_motes st)\<rparr>"

definition moteinfo :: "pstate \<Rightarrow> mote_id \<Rightarrow> mote_info" where
  "moteinfo st i = (case map_of (st_motes st) i of None \<Rightarrow> mote_info_default | Some m \<Rightarrow> m)"

section \<open>Derived indices of the run metadata\<close>

fun is_tool_branch :: "react_branch \<Rightarrow> bool" where
  "is_tool_branch (ToolCall _ _) = True"
| "is_tool_branch (ToolBatch _) = True"
| "is_tool_branch _ = False"

definition index_last_react_round :: "pstate \<Rightarrow> pstate" where
  "index_last_react_round st =
     (if st_react_rounds st = [] then st
      else let idx = length (st_react_rounds st) - 1;
               r = st_react_rounds st ! idx;
               chains = (case map_of (st_react_index st) (ra_instance_id r) of None \<Rightarrow> [] | Some c \<Rightarrow> c);
               chains' = bt_entry_upd (ra_step_salt r) [] (\<lambda>v. v @ [idx]) chains
           in st\<lparr>st_react_index := bt_insert (ra_instance_id r) chains' (st_react_index st),
                 st_react_turn_motes := insert (ra_turn_mote_id r) (st_react_turn_motes st),
                 st_react_tool_round_of_turn :=
                   (if is_tool_branch (ra_branch r)
                    then bt_insert (ra_turn_mote_id r) idx (st_react_tool_round_of_turn st)
                    else st_react_tool_round_of_turn st)\<rparr>)"

definition index_last_approval :: "pstate \<Rightarrow> pstate" where
  "index_last_approval st =
     (if st_approvals st = [] then st
      else let idx = length (st_approvals st) - 1 in
        st\<lparr>st_approval_index := bt_insert (ap_request_id (st_approvals st ! idx)) idx (st_approval_index st)\<rparr>)"

definition nth_opt :: "'a list \<Rightarrow> nat \<Rightarrow> 'a option" where
  "nth_opt xs i = (if i < length xs then Some (xs ! i) else None)"

definition approval_latest_for :: "pstate \<Rightarrow> array16 \<Rightarrow> approval_record option" where
  "approval_latest_for st request_id =
     (case map_of (st_approval_index st) request_id of
        None \<Rightarrow> None
      | Some idx \<Rightarrow> nth_opt (st_approvals st) idx)"

section \<open>Queries on one Mote\<close>

definition has_declared_critic :: "pstate \<Rightarrow> bool" where
  "has_declared_critic st =
     list_ex (\<lambda>(_, i). case mi_declared i of None \<Rightarrow> False | Some d \<Rightarrow> di_critic_for d \<noteq> None) (st_motes st)"

definition state_of_id :: "pstate \<Rightarrow> mote_id \<Rightarrow> mote_state" where
  "state_of_id st i =
     (case map_of (st_motes st) i of
        None \<Rightarrow> MsPending
      | Some m \<Rightarrow>
          if mi_inconsistent m then MsInconsistent
          else (case mi_committed m of
              Some c \<Rightarrow> if ci_repudiated c then MsRepudiated else MsCommitted
            | None \<Rightarrow>
                if mi_terminal_failure_observed m then MsFailed
                else if mi_effect_staged_observed m then MsPending
                else if mi_failed_pending_reattempt m then MsFailed
                else if mi_has_proposed m then MsScheduled
                else MsPending))"

definition can_redispatch_world_effect_id :: "pstate \<Rightarrow> mote_id \<Rightarrow> bool" where
  "can_redispatch_world_effect_id st i =
     (case map_of (st_motes st) i of
        None \<Rightarrow> False
      | Some m \<Rightarrow>
          if mi_inconsistent m then False
          else if mi_terminal_failure_observed m then False
          else if mi_committed m \<noteq> None then False
          else mi_effect_staged_observed m)"

definition anomaly_motes_iter :: "pstate \<Rightarrow> (mote_id \<times> anomaly_kind) list" where
  "anomaly_motes_iter st =
     concat (map (\<lambda>(i, m).
       (if mi_inconsistent m then [(i, EffectStagedThenRepudiatedNoCommitted)] else []) @
       (if mi_quarantined m then [(i, QuarantinedAtLeastOnceEffect)] else [])) (st_motes st))"

definition effective_parents :: "mote_info \<Rightarrow> (mote_id \<times> edge_meta) list" where
  "effective_parents m =
     (case mi_declared m of
        Some d \<Rightarrow> map (\<lambda>p. (pr_parent_id p, pr_edge p)) (di_parents d)
      | None \<Rightarrow>
          (case mi_committed m of
             Some c \<Rightarrow> List.map_filter (\<lambda>p. map_option (\<lambda>pr. (pr_parent_id pr, pr_edge pr)) (to_parent_ref p))
                         (ci_parents_in_entry c)
           | None \<Rightarrow> []))"

definition parents_of_id :: "pstate \<Rightarrow> mote_id \<Rightarrow> (mote_id \<times> edge_meta) list" where
  "parents_of_id st i =
     (case map_of (st_motes st) i of None \<Rightarrow> [] | Some m \<Rightarrow> effective_parents m)"

section \<open>The reverse edge index\<close>

definition push_child :: "mote_id \<Rightarrow> (mote_id \<times> edge_meta) \<Rightarrow> child_index \<Rightarrow> child_index" where
  "push_child c pe idx = bt_entry_upd (fst pe) [] (\<lambda>v. v @ [(c, snd pe)]) idx"

definition rebuild_children :: "pstate \<Rightarrow> child_index" where
  "rebuild_children st =
     map (\<lambda>(p, v). (p, sort_key fst v))
       (fold (\<lambda>c idx. fold (push_child c) (parents_of_id st c) idx) (bt_keys (st_motes st)) [])"

definition insert_child_edge :: "mote_id \<Rightarrow> mote_id \<Rightarrow> edge_meta \<Rightarrow> child_index \<Rightarrow> child_index" where
  "insert_child_edge parent child edge idx =
     bt_entry_upd parent []
       (\<lambda>v. takeWhile (\<lambda>probe. fst probe \<le> child) v @ [(child, edge)] @
             dropWhile (\<lambda>probe. fst probe \<le> child) v) idx"

definition remove_child_entries :: "mote_id \<Rightarrow> mote_id \<Rightarrow> child_index \<Rightarrow> child_index" where
  "remove_child_entries parent child idx =
     (case map_of idx parent of
        None \<Rightarrow> idx
      | Some v \<Rightarrow>
          let v' = filter (\<lambda>(c, _). c \<noteq> child) v in
          if v' = [] then bt_remove parent idx else bt_insert parent v' idx)"

definition reindex_child_edges ::
  "mote_id \<Rightarrow> (mote_id \<times> edge_meta) list \<Rightarrow> pstate \<Rightarrow> pstate"
where
  "reindex_child_edges child old_effective st =
     st\<lparr>st_children :=
       fold (\<lambda>(p, e). insert_child_edge p child e) (parents_of_id st child)
         (fold (\<lambda>(p, _). remove_child_entries p child) old_effective (st_children st))\<rparr>"

definition set_declared :: "mote_id \<Rightarrow> declared_info \<Rightarrow> pstate \<Rightarrow> pstate" where
  "set_declared i d st =
     (let old_effective = parents_of_id st i in
      reindex_child_edges i old_effective (moteinfo_upd i (\<lambda>m. m\<lparr>mi_declared := Some d\<rparr>) st))"

definition register_mote :: "register_mote_req \<Rightarrow> pstate \<Rightarrow> pstate" where
  "register_mote reg st =
     set_declared (rg_mote_id reg)
       \<lparr>di_nd_class = rg_nd_class reg, di_effect_pattern = rg_effect_pattern reg,
        di_critic_for = rg_critic_for reg, di_is_topology_shaper = rg_is_topology_shaper reg,
        di_parents = rg_parents reg, di_warrant_ref = rg_warrant_ref reg\<rparr> st"

section \<open>The incremental index equals the rebuild\<close>

text \<open>
  An index is read through \<open>adj\<close>: the adjacency list of a parent, empty when the key is
  absent. An index that keeps no empty list is determined by its adjacency lists.
\<close>

definition adj :: "('k::linorder, 'v list) btree \<Rightarrow> 'k \<Rightarrow> 'v list" where
  "adj idx p = (case map_of idx p of None \<Rightarrow> [] | Some v \<Rightarrow> v)"

definition index_inv :: "('k::linorder, 'v list) btree \<Rightarrow> bool" where
  "index_inv idx \<longleftrightarrow> bt_inv idx \<and> (\<forall>p. map_of idx p \<noteq> Some [])"

lemma index_ext:
  assumes "index_inv a" and "index_inv b" and "adj a = adj b"
  shows "a = b"
proof (rule bt_ext)
  show "map_of a = map_of b"
  proof
    fix p
    have "adj a p = adj b p"
      using assms by simp
    then show "map_of a p = map_of b p"
      using assms(1,2) by (auto simp: adj_def index_inv_def split: option.splits)
  qed
qed (use assms in \<open>simp_all add: index_inv_def\<close>)

lemma index_inv_Nil [simp]: "index_inv []"
  by (simp add: index_inv_def)

lemma adj_Nil [simp]: "adj [] p = []"
  by (simp add: adj_def)

lemma adj_entry_upd: "adj (bt_entry_upd k [] f idx) p = (if p = k then f (adj idx k) else adj idx p)"
  by (auto simp: adj_def split: option.splits)

lemma index_inv_entry_upd:
  assumes "index_inv idx" and "\<And>v. f v \<noteq> []"
  shows "index_inv (bt_entry_upd k [] f idx)"
  using assms by (auto simp: index_inv_def split: option.splits)

lemma adj_remove_child:
  "adj (remove_child_entries parent c idx) p =
     (if p = parent then filter (\<lambda>x. fst x \<noteq> c) (adj idx p) else adj idx p)"
  by (auto simp: adj_def remove_child_entries_def Let_def case_prod_unfold split: option.splits)

lemma index_inv_remove_child: "index_inv idx \<Longrightarrow> index_inv (remove_child_entries parent c idx)"
  by (auto simp: index_inv_def remove_child_entries_def Let_def split: option.splits)

lemma adj_remove_all:
  "adj (fold (\<lambda>(p, _). remove_child_entries p c) es idx) p =
     (if p \<in> fst ` set es then filter (\<lambda>x. fst x \<noteq> c) (adj idx p) else adj idx p)"
  by (induction es arbitrary: idx) (auto simp: adj_remove_child)

lemma index_inv_remove_all:
  "index_inv idx \<Longrightarrow> index_inv (fold (\<lambda>(p, _). remove_child_entries p c) es idx)"
  by (induction es arbitrary: idx) (auto simp: index_inv_remove_child)

text \<open>The entries a child with effective parents \<open>es\<close> contributes to the list of \<open>p\<close>.\<close>

definition contrib :: "mote_id \<Rightarrow> (mote_id \<times> edge_meta) list \<Rightarrow> mote_id \<Rightarrow> (mote_id \<times> edge_meta) list" where
  "contrib c es p = map (\<lambda>x. (c, snd x)) (filter (\<lambda>x. fst x = p) es)"

lemma contrib_simps [simp]:
  "contrib c [] p = []"
  "contrib c (x # es) p = (if fst x = p then (c, snd x) # contrib c es p else contrib c es p)"
  by (simp_all add: contrib_def)

lemma fst_set_contrib: "x \<in> set (contrib c es p) \<Longrightarrow> fst x = c"
  by (auto simp: contrib_def)

lemma contrib_eq_Nil: "p \<notin> fst ` set es \<Longrightarrow> contrib c es p = []"
  by (induction es) auto

lemma adj_push_all:
  "adj (fold (push_child c) es idx) p = adj idx p @ contrib c es p"
  by (induction es arbitrary: idx) (auto simp: push_child_def adj_entry_upd)

lemma index_inv_push_child: "index_inv idx \<Longrightarrow> index_inv (push_child c x idx)"
  by (simp add: push_child_def index_inv_entry_upd)

lemma index_inv_push_all: "index_inv idx \<Longrightarrow> index_inv (fold (push_child c) es idx)"
  by (induction es arbitrary: idx) (simp_all add: index_inv_push_child)

lemma adj_push_motes:
  "adj (fold (\<lambda>c idx. fold (push_child c) (ps c) idx) cs idx) p =
     adj idx p @ concat (map (\<lambda>c. contrib c (ps c) p) cs)"
  by (induction cs arbitrary: idx) (simp_all add: adj_push_all)

lemma index_inv_push_motes:
  "index_inv idx \<Longrightarrow> index_inv (fold (\<lambda>c idx. fold (push_child c) (ps c) idx) cs idx)"
  by (induction cs arbitrary: idx) (simp_all add: index_inv_push_all)

lemma adj_map_values:
  "f [] = [] \<Longrightarrow> adj (map (\<lambda>(p, v). (p, f v)) idx) p = f (adj idx p)"
  by (auto simp: adj_def map_of_map split: option.splits)

lemma index_inv_map_sort: "index_inv idx \<Longrightarrow> index_inv (map (\<lambda>(p, v). (p, sort_key g v)) idx)"
proof -
  assume inv: "index_inv idx"
  have "map_of (map (\<lambda>(p, v). (p, sort_key g v)) idx) p \<noteq> Some []" for p
    using inv by (auto simp: index_inv_def map_of_map sort_key_def[symmetric]
        dest!: arg_cong[where f = length])
  moreover have "map fst (map (\<lambda>(p, v). (p, sort_key g v)) idx) = map fst idx"
    by (induction idx) auto
  ultimately show ?thesis
    using inv by (simp add: index_inv_def bt_inv_def del: map_map)
qed

text \<open>The adjacency list of the rebuilt index, and that it is sorted by child.\<close>

definition adj_spec :: "pstate \<Rightarrow> mote_id \<Rightarrow> (mote_id \<times> edge_meta) list" where
  "adj_spec st p = concat (map (\<lambda>c. contrib c (parents_of_id st c) p) (bt_keys (st_motes st)))"

lemma sorted_concat_contrib:
  "sorted_wrt (<) cs \<Longrightarrow> sorted (map fst (concat (map (\<lambda>c. contrib c (ps c) p) cs)))"
proof (induction cs)
  case (Cons c cs)
  have "sorted (map fst (contrib c (ps c) p))"
    by (auto simp: contrib_def comp_def sorted_wrt_iff_nth_less)
  with Cons show ?case
    by (auto simp: sorted_append dest!: fst_set_contrib intro: less_imp_le)
qed simp

lemma bt_keys_sorted: "bt_inv m \<Longrightarrow> sorted_wrt (<) (bt_keys m)"
  by (simp add: bt_inv_def bt_keys_def)

lemma adj_rebuild: "bt_inv (st_motes st) \<Longrightarrow> adj (rebuild_children st) p = adj_spec st p"
  by (simp add: rebuild_children_def adj_map_values adj_push_motes adj_spec_def
      sorted_concat_contrib bt_keys_sorted sort_key_id_if_sorted)

lemma index_inv_rebuild: "index_inv (rebuild_children st)"
  by (simp add: rebuild_children_def index_inv_map_sort index_inv_push_motes)

text \<open>
  Inserting the new edges of \<open>c\<close> into a list split around \<open>c\<close> puts them, in order,
  between the smaller and the larger children.
\<close>

definition insert_entry :: "mote_id \<Rightarrow> edge_meta \<Rightarrow> (mote_id \<times> edge_meta) list \<Rightarrow> (mote_id \<times> edge_meta) list" where
  "insert_entry c e v =
     takeWhile (\<lambda>x. fst x \<le> c) v @ [(c, e)] @ dropWhile (\<lambda>x. fst x \<le> c) v"

lemma insert_entry_split:
  assumes "\<And>x. x \<in> set lo \<Longrightarrow> fst x \<le> c" and "\<And>x. x \<in> set hi \<Longrightarrow> c < fst x"
  shows "insert_entry c e (lo @ hi) = lo @ (c, e) # hi"
proof -
  have "takeWhile (\<lambda>x. fst x \<le> c) hi = [] \<and> dropWhile (\<lambda>x. fst x \<le> c) hi = hi"
    using assms(2) by (cases hi) (auto simp: not_le)
  then show ?thesis
    using assms(1) by (simp add: insert_entry_def takeWhile_append2 dropWhile_append2)
qed

lemma adj_insert_all:
  assumes "\<And>x. x \<in> set lo \<Longrightarrow> fst x \<le> c" and "\<And>x. x \<in> set hi \<Longrightarrow> c < fst x"
    and "adj idx p = lo @ hi"
  shows "adj (fold (\<lambda>(p, e). insert_child_edge p c e) es idx) p = lo @ contrib c es p @ hi"
  using assms
proof (induction es arbitrary: idx lo)
  case (Cons x es)
  obtain q e where x: "x = (q, e)" by (cases x)
  let ?idx = "insert_child_edge q c e idx"
  have adj: "adj ?idx p = (if p = q then insert_entry c e (adj idx p) else adj idx p)"
    by (auto simp: insert_child_edge_def adj_entry_upd insert_entry_def)
  show ?case
  proof (cases "p = q")
    case True
    then have "adj ?idx p = (lo @ [(c, e)]) @ hi"
      using adj Cons.prems insert_entry_split[of lo c hi e] by simp
    moreover have "\<And>x. x \<in> set (lo @ [(c, e)]) \<Longrightarrow> fst x \<le> c"
      using Cons.prems by auto
    ultimately show ?thesis
      using Cons.IH[of "lo @ [(c, e)]" ?idx] Cons.prems True by (simp add: x)
  next
    case False
    then show ?thesis
      using Cons.IH[of lo ?idx] Cons.prems adj by (auto simp: x)
  qed
qed simp

lemma index_inv_insert_all:
  "index_inv idx \<Longrightarrow> index_inv (fold (\<lambda>(p, e). insert_child_edge p c e) es idx)"
proof (induction es arbitrary: idx)
  case (Cons x es)
  then show ?case
    by (cases x) (simp add: insert_child_edge_def index_inv_entry_upd)
qed simp

text \<open>The key list of the Mote map, split around one key.\<close>

definition keys_below :: "('k::linorder, 'v) btree \<Rightarrow> 'k \<Rightarrow> 'k list" where
  "keys_below m c = filter (\<lambda>k. k < c) (bt_keys m)"

definition keys_above :: "('k::linorder, 'v) btree \<Rightarrow> 'k \<Rightarrow> 'k list" where
  "keys_above m c = filter (\<lambda>k. c < k) (bt_keys m)"

lemma sorted_keys_split:
  "sorted_wrt (<) ks \<Longrightarrow>
     ks = filter (\<lambda>k. k < c) ks @ (if c \<in> set ks then [c] else []) @ filter (\<lambda>k. c < k) ks"
  for c :: "'k::linorder"
proof (induction ks)
  case (Cons k ks)
  consider "k < c" | "k = c" | "c < k" by force
  then show ?case
  proof cases
    case 1
    then show ?thesis using Cons by auto
  next
    case 2
    then have "filter (\<lambda>k. k < c) ks = []" "filter (\<lambda>k. c < k) ks = ks"
      using Cons.prems by (auto simp: filter_empty_conv filter_id_conv)
    then show ?thesis using 2 Cons.prems by auto
  next
    case 3
    then have "filter (\<lambda>k. k < c) ks = []" "filter (\<lambda>k. c < k) ks = ks" "c \<notin> set ks"
      using Cons.prems by (auto simp: filter_empty_conv filter_id_conv)
    then show ?thesis using 3 by auto
  qed
qed simp

lemma keys_split:
  "bt_inv m \<Longrightarrow> bt_keys m = keys_below m c @ (if c \<in> set (bt_keys m) then [c] else []) @ keys_above m c"
  unfolding keys_below_def keys_above_def by (rule sorted_keys_split) (rule bt_keys_sorted)

lemma keys_below_insert [simp]: "keys_below (bt_insert c v m) c = keys_below m c"
  by (induction m) (auto simp: keys_below_def bt_keys_def)

lemma keys_above_insert [simp]: "keys_above (bt_insert c v m) c = keys_above m c"
  by (induction m) (auto simp: keys_above_def bt_keys_def)

lemma moteinfo_upd_motes:
  "st_motes (moteinfo_upd i f st) = bt_insert i (f (moteinfo st i)) (st_motes st)"
  by (simp add: moteinfo_upd_def moteinfo_def bt_entry_upd_def split: option.splits)

lemma moteinfo_upd_simps [simp]:
  "st_children (moteinfo_upd i f st) = st_children st"
  "st_last_seq (moteinfo_upd i f st) = st_last_seq st"
  "st_react_rounds (moteinfo_upd i f st) = st_react_rounds st"
  "st_react_index (moteinfo_upd i f st) = st_react_index st"
  "st_react_turn_motes (moteinfo_upd i f st) = st_react_turn_motes st"
  "st_react_tool_round_of_turn (moteinfo_upd i f st) = st_react_tool_round_of_turn st"
  "st_approvals (moteinfo_upd i f st) = st_approvals st"
  "st_approval_index (moteinfo_upd i f st) = st_approval_index st"
  by (simp_all add: moteinfo_upd_def)

lemma moteinfo_moteinfo_upd [simp]:
  "moteinfo (moteinfo_upd i f st) j = (if j = i then f (moteinfo st i) else moteinfo st j)"
  by (auto simp: moteinfo_def[of "moteinfo_upd i f st"] moteinfo_upd_motes, simp add: moteinfo_def)

lemma effective_parents_default [simp]: "effective_parents mote_info_default = []"
  by (simp add: effective_parents_def mote_info_default_def)

lemma parents_of_id_moteinfo: "parents_of_id st i = effective_parents (moteinfo st i)"
  by (simp add: parents_of_id_def moteinfo_def split: option.splits)

lemma adj_spec_split:
  assumes "bt_inv (st_motes st)"
  shows "adj_spec st p =
     concat (map (\<lambda>k. contrib k (parents_of_id st k) p) (keys_below (st_motes st) c)) @
     contrib c (parents_of_id st c) p @
     concat (map (\<lambda>k. contrib k (parents_of_id st k) p) (keys_above (st_motes st) c))"
proof (cases "c \<in> set (bt_keys (st_motes st))")
  case True
  then show ?thesis
    unfolding adj_spec_def by (subst keys_split[OF assms, of c]) simp
next
  case False
  then have "map_of (st_motes st) c = None"
    by (simp add: bt_keys_def map_of_eq_None_iff)
  then have "parents_of_id st c = []"
    by (simp add: parents_of_id_def)
  then show ?thesis
    unfolding adj_spec_def using False by (subst keys_split[OF assms, of c]) simp
qed

definition children_ok :: "pstate \<Rightarrow> bool" where
  "children_ok st \<longleftrightarrow> bt_inv (st_motes st) \<and> st_children st = rebuild_children st"

lemma reindex_simps [simp]:
  "st_motes (reindex_child_edges c old st) = st_motes st"
  "parents_of_id (reindex_child_edges c old st) = parents_of_id st"
  "rebuild_children (reindex_child_edges c old st) = rebuild_children st"
  by (simp_all add: reindex_child_edges_def parents_of_id_def rebuild_children_def fun_eq_iff)

lemma filter_contrib:
  "filter (\<lambda>x. fst x \<noteq> c) (contrib k es p) = (if k = c then [] else contrib k es p)"
  by (auto simp: contrib_def filter_empty_conv)

lemma filter_concat_contrib:
  "c \<notin> set ks \<Longrightarrow>
     filter (\<lambda>x. fst x \<noteq> c) (concat (map (\<lambda>k. contrib k (ps k) p) ks)) =
     concat (map (\<lambda>k. contrib k (ps k) p) ks)"
  by (induction ks) (auto simp: filter_contrib)

lemma reindex_children_ok:
  assumes ok: "children_ok st"
  shows "children_ok (reindex_child_edges c (parents_of_id st c) (moteinfo_upd c f st))"
proof -
  let ?st = "moteinfo_upd c f st"
  let ?m = "st_motes st"
  let ?lo = "\<lambda>p. concat (map (\<lambda>k. contrib k (parents_of_id st k) p) (keys_below ?m c))"
  let ?hi = "\<lambda>p. concat (map (\<lambda>k. contrib k (parents_of_id st k) p) (keys_above ?m c))"
  let ?rem = "fold (\<lambda>(p, _). remove_child_entries p c) (parents_of_id st c) (st_children st)"
  have inv: "bt_inv ?m" and ch: "st_children st = rebuild_children st"
    using ok by (simp_all add: children_ok_def)
  have inv': "bt_inv (st_motes ?st)"
    using inv by (simp add: moteinfo_upd_motes)
  have same: "parents_of_id ?st k = parents_of_id st k" if "k \<noteq> c" for k
    using that by (simp add: parents_of_id_moteinfo)
  have rem: "adj ?rem p = ?lo p @ ?hi p" for p
  proof -
    have "adj ?rem p = filter (\<lambda>x. fst x \<noteq> c) (adj_spec st p)"
      using adj_rebuild[OF inv] contrib_eq_Nil[of p "parents_of_id st c" c]
      by (auto simp: adj_remove_all ch adj_spec_split[OF inv, of p c] filter_concat_contrib
          filter_contrib keys_below_def keys_above_def)
    also have "\<dots> = ?lo p @ ?hi p"
      by (simp add: adj_spec_split[OF inv, of p c] filter_concat_contrib filter_contrib
          keys_below_def keys_above_def)
    finally show ?thesis .
  qed
  have lo: "fst x \<le> c" if "x \<in> set (?lo p)" for x p
    using that by (auto simp: keys_below_def dest!: fst_set_contrib)
  have hi: "c < fst x" if "x \<in> set (?hi p)" for x p
    using that by (auto simp: keys_above_def dest!: fst_set_contrib)
  have spec': "adj_spec ?st p = ?lo p @ contrib c (parents_of_id ?st c) p @ ?hi p" for p
  proof -
    have "map (\<lambda>k. contrib k (parents_of_id ?st k) p) (keys_below ?m c) =
          map (\<lambda>k. contrib k (parents_of_id st k) p) (keys_below ?m c)"
      by (rule map_cong) (auto simp: same keys_below_def)
    moreover have "map (\<lambda>k. contrib k (parents_of_id ?st k) p) (keys_above ?m c) =
          map (\<lambda>k. contrib k (parents_of_id st k) p) (keys_above ?m c)"
      by (rule map_cong) (auto simp: same keys_above_def)
    ultimately show ?thesis
      by (simp add: adj_spec_split[OF inv', of p c] moteinfo_upd_motes del: map_eq_conv)
  qed
  have "st_children (reindex_child_edges c (parents_of_id st c) ?st) = rebuild_children ?st"
  proof (rule index_ext)
    show "index_inv (st_children (reindex_child_edges c (parents_of_id st c) ?st))"
      by (simp add: reindex_child_edges_def index_inv_insert_all index_inv_remove_all ch index_inv_rebuild)
    show "adj (st_children (reindex_child_edges c (parents_of_id st c) ?st)) = adj (rebuild_children ?st)"
      using adj_insert_all[OF lo hi rem]
      by (simp add: fun_eq_iff reindex_child_edges_def adj_rebuild[OF inv'] spec')
  qed (rule index_inv_rebuild)
  then show ?thesis
    using inv' by (simp add: children_ok_def)
qed

lemma children_ok_default [simp]: "children_ok pstate_default"
  by (simp add: children_ok_def pstate_default_def rebuild_children_def bt_keys_def)

lemma set_declared_children_ok: "children_ok st \<Longrightarrow> children_ok (set_declared i d st)"
  by (simp add: set_declared_def reindex_children_ok)

lemma register_mote_children_ok: "children_ok st \<Longrightarrow> children_ok (register_mote reg st)"
  by (simp add: register_mote_def set_declared_children_ok)

text \<open>Changes that keep every effective parent list keep the index right.\<close>

lemma children_ok_cong:
  assumes ok: "children_ok st" and inv: "bt_inv (st_motes st')"
    and keys: "bt_keys (st_motes st') = bt_keys (st_motes st)"
    and par: "parents_of_id st' = parents_of_id st" and ch: "st_children st' = st_children st"
  shows "children_ok st'"
  using assms by (simp add: children_ok_def rebuild_children_def)

lemma moteinfo_upd_children_ok:
  assumes ok: "children_ok st" and eff: "\<And>m. effective_parents (f m) = effective_parents m"
  shows "children_ok (moteinfo_upd i f st)"
proof -
  have inv: "bt_inv (st_motes st)" and ch: "st_children st = rebuild_children st"
    using ok by (simp_all add: children_ok_def)
  have inv': "bt_inv (st_motes (moteinfo_upd i f st))"
    using inv by (simp add: moteinfo_upd_motes)
  have par: "parents_of_id (moteinfo_upd i f st) = parents_of_id st"
    by (auto simp: parents_of_id_moteinfo eff)
  have "adj (rebuild_children (moteinfo_upd i f st)) = adj (rebuild_children st)"
    using adj_spec_split[OF inv', of _ i] adj_spec_split[OF inv, of _ i]
    by (simp add: fun_eq_iff adj_rebuild[OF inv'] adj_rebuild[OF inv] par moteinfo_upd_motes)
  then have "rebuild_children (moteinfo_upd i f st) = rebuild_children st"
    by (intro index_ext index_inv_rebuild)
  then show ?thesis
    using inv' ch by (simp add: children_ok_def)
qed

end
