(* ===== verification/Kx_Projection_Fold.thy ===== *)
theory Kx_Projection_Fold
  imports Kx_Projection_State Kx_Journal_Log
begin

text \<open>
  The projection fold (\<open>crates/kx-projection/src/projection.rs\<close>): one journal entry at a
  time, with the topology materializer a parameter of the fold, and the read queries over
  the folded state. A fold mutates the projection and may fail, so it returns the result
  together with the state it leaves behind.
\<close>

section \<open>The fold\<close>

datatype projection_error =
    DuplicateCommitted mote_id
  | ContentStoreFetch content_ref rstring
  | TopologyDecodeFailed content_ref rstring
  | WarrantStoreFetch content_ref rstring
  | WarrantDecodeFailed content_ref rstring
  | RoleNotRegistered role_id nat
  | NarrowingFailed nat rstring

text \<open>
  The materializer of a projection is an optional trait object: on a \<open>Committed\<close> entry it
  answers with an error, with nothing, or with the children to register.
\<close>

type_synonym materializer =
  "mote_id \<Rightarrow> mote_def_hash \<Rightarrow> content_ref \<Rightarrow> content_ref \<Rightarrow> (projection_error, register_mote_req list option) result"

definition advance_seq :: "u64 \<Rightarrow> pstate \<Rightarrow> pstate" where
  "advance_seq s st = st\<lparr>st_last_seq := max (st_last_seq st) s\<rparr>"

definition fold_failed_info :: "failure_reason \<Rightarrow> rstring \<Rightarrow> mote_info \<Rightarrow> mote_info" where
  "fold_failed_info reason_class detail info =
     (if mi_committed info \<noteq> None then info
      else
        let i1 = info\<lparr>mi_failed_pending_reattempt := True\<rparr>;
            i2 = (if \<not> is_pre_commit_crash reason_class
                  then let j = i1\<lparr>mi_terminal_failure_observed := True\<rparr> in
                    if mi_failure_reason j = None
                    then j\<lparr>mi_failure_reason := Some reason_class, mi_failure_detail := detail\<rparr>
                    else j
                  else i1)
        in if reason_class = QuarantinedAtLeastOnce then i2\<lparr>mi_quarantined := True\<rparr> else i2)"

definition fold_repudiated_info :: "u64 \<Rightarrow> mote_info \<Rightarrow> mote_info" where
  "fold_repudiated_info target_committed_seq info =
     (case mi_committed info of
        Some c \<Rightarrow>
          if ci_seq c = target_committed_seq
          then info\<lparr>mi_committed := Some (c\<lparr>ci_repudiated := True\<rparr>)\<rparr>
          else info
      | None \<Rightarrow>
          if mi_effect_staged_observed info then info\<lparr>mi_inconsistent := True\<rparr> else info)"

fun fold_react_metadata :: "journal_entry \<Rightarrow> pstate \<Rightarrow> pstate" where
  "fold_react_metadata (ReactRound e) st =
     advance_seq (ra_seq e)
       (index_last_react_round (st\<lparr>st_react_rounds := st_react_rounds st @ [e]\<rparr>))"
| "fold_react_metadata (Approval e) st =
     advance_seq (ap_seq e) (index_last_approval (st\<lparr>st_approvals := st_approvals st @ [e]\<rparr>))"
| "fold_react_metadata _ st = st"

fun fold_run_metadata :: "journal_entry \<Rightarrow> pstate \<Rightarrow> pstate" where
  "fold_run_metadata (RunRegistered e) st =
     advance_seq (rr_seq e)
       (st\<lparr>st_run_registration := Some (rr_instance_id e, rr_recipe_fingerprint e)\<rparr>)"
| "fold_run_metadata (RunVersionsResolved e) st =
     advance_seq (rv_seq e)
       (st\<lparr>st_run_resolved_versions := st_run_resolved_versions st @
          [\<lparr>rs_instance_id = rv_instance_id e, rs_warrant_ref = rv_warrant_ref e,
            rs_model_id = rv_model_id e, rs_capability = rv_capability e\<rparr>]\<rparr>)"
| "fold_run_metadata (DigestSealed e) st = advance_seq (dg_seq e) st"
| "fold_run_metadata (ReplanRound e) st =
     advance_seq (rp_seq e) (st\<lparr>st_replan_rounds := st_replan_rounds st @ [e]\<rparr>)"
| "fold_run_metadata (ReRankRound e) st =
     advance_seq (rk_seq e) (st\<lparr>st_rerank_rounds := st_rerank_rounds st @ [e]\<rparr>)"
| "fold_run_metadata (TimerArmed e) st =
     advance_seq (tm_seq e) (st\<lparr>st_timers := st_timers st @ [e]\<rparr>)"
| "fold_run_metadata e st = fold_react_metadata e st"

definition committed_info_of :: "committed_entry \<Rightarrow> committed_info" where
  "committed_info_of e = \<lparr>ci_seq = c_seq e, ci_result_ref = c_result_ref e,
     ci_nondeterminism = c_nondeterminism e, ci_parents_in_entry = c_parents e,
     ci_warrant_ref = c_warrant_ref e, ci_mote_def_hash = c_mote_def_hash e, ci_repudiated = False\<rparr>"

definition fold_committed_entry ::
  "materializer option \<Rightarrow> committed_entry \<Rightarrow> pstate \<Rightarrow> (projection_error, unit) result \<times> pstate"
where
  "fold_committed_entry mat e st =
     (let i = c_mote_id e; old_effective = parents_of_id st i in
      if mi_committed (moteinfo st i) \<noteq> None then (Inl (DuplicateCommitted i), st)
      else
        let st1 = moteinfo_upd i (\<lambda>m. m\<lparr>mi_committed := Some (committed_info_of e)\<rparr>) st;
            st2 = reindex_child_edges i old_effective (advance_seq (c_seq e) st1)
        in case mat of
             None \<Rightarrow> (Inr (), st2)
           | Some m \<Rightarrow>
               (case m i (c_mote_def_hash e) (c_result_ref e) (c_warrant_ref e) of
                  Inl err \<Rightarrow> (Inl err, st2)
                | Inr None \<Rightarrow> (Inr (), st2)
                | Inr (Some children) \<Rightarrow> (Inr (), fold register_mote children st2)))"

fun fold_step ::
  "materializer option \<Rightarrow> journal_entry \<Rightarrow> pstate \<Rightarrow> (projection_error, unit) result \<times> pstate"
where
  "fold_step mat (Proposed e) st =
     (Inr (), advance_seq (p_seq e) (moteinfo_upd (p_mote_id e)
        (\<lambda>m. m\<lparr>mi_has_proposed := True, mi_failed_pending_reattempt := False\<rparr>) st))"
| "fold_step mat (Committed e) st = fold_committed_entry mat e st"
| "fold_step mat (Failed e) st =
     (Inr (), advance_seq (f_seq e)
        (moteinfo_upd (f_mote_id e) (fold_failed_info (f_reason_class e) (f_detail e)) st))"
| "fold_step mat (Repudiated e) st =
     (Inr (), advance_seq (r_seq e)
        (moteinfo_upd (r_target_mote_id e) (fold_repudiated_info (r_target_committed_seq e)) st))"
| "fold_step mat (EffectStaged e) st =
     (Inr (), advance_seq (es_seq e)
        (moteinfo_upd (es_mote_id e) (\<lambda>m. m\<lparr>mi_effect_staged_observed := True\<rparr>) st))"
| "fold_step mat e st = (Inr (), fold_run_metadata e st)"

definition fold_entry ::
  "materializer option \<Rightarrow> journal_entry \<Rightarrow> pstate \<Rightarrow> (projection_error, u64) result \<times> pstate"
where
  "fold_entry mat e st =
     (let prev = st_last_seq st; (r, st') = fold_step mat e st
      in (and_then r (\<lambda>_. Inr prev), st'))"

text \<open>\<open>fold_many\<close>: fold until the first error, and the frontier reached.\<close>

fun fold_many_loop ::
  "materializer option \<Rightarrow> journal_entry list \<Rightarrow> u64 \<Rightarrow> pstate \<Rightarrow> (projection_error, u64) result \<times> pstate"
where
  "fold_many_loop mat [] l st = (Inr l, st)"
| "fold_many_loop mat (e # es) l st =
     (case fold_entry mat e st of
        (Inl err, st') \<Rightarrow> (Inl err, st')
      | (Inr _, st') \<Rightarrow> fold_many_loop mat es (st_last_seq st') st')"

definition fold_many ::
  "materializer option \<Rightarrow> journal_entry list \<Rightarrow> pstate \<Rightarrow> (projection_error, u64) result \<times> pstate"
where
  "fold_many mat es st = fold_many_loop mat es (st_last_seq st) st"

text \<open>
  \<open>from_journal\<close> and \<open>from_journal_with_materializer\<close>: read \<open>0..(max_seq + 1)\<close> and fold.
\<close>

fun fold_all ::
  "materializer option \<Rightarrow> journal_entry list \<Rightarrow> pstate \<Rightarrow> (projection_error, pstate) result"
where
  "fold_all mat [] st = Inr st"
| "fold_all mat (e # es) st =
     (case fold_entry mat e st of
        (Inl err, _) \<Rightarrow> Inl err
      | (Inr _, st') \<Rightarrow> fold_all mat es st')"

definition from_journal_mat :: "materializer option \<Rightarrow> journal \<Rightarrow> (projection_error, pstate) result" where
  "from_journal_mat mat j =
     (let max_seq = current_seq j in
      fold_all mat (read_entries_by_seq 0 (max_seq + 1) j) pstate_default)"

definition from_journal :: "journal \<Rightarrow> (projection_error, pstate) result" where
  "from_journal = from_journal_mat None"

section \<open>Read queries\<close>

definition committed_of :: "pstate \<Rightarrow> mote_id \<Rightarrow> committed_info option" where
  "committed_of st i = (case map_of (st_motes st) i of None \<Rightarrow> None | Some m \<Rightarrow> mi_committed m)"

definition children_of :: "pstate \<Rightarrow> mote_id \<Rightarrow> (mote_id \<times> edge_meta) list" where
  "children_of st i = (case map_of (st_children st) i of None \<Rightarrow> [] | Some v \<Rightarrow> v)"

definition result_ref_of :: "pstate \<Rightarrow> mote_id \<Rightarrow> content_ref option" where
  "result_ref_of st i = map_option ci_result_ref (committed_of st i)"

definition nondeterminism_of :: "pstate \<Rightarrow> mote_id \<Rightarrow> nd_class option" where
  "nondeterminism_of st i = map_option ci_nondeterminism (committed_of st i)"

definition committed_seq_of :: "pstate \<Rightarrow> mote_id \<Rightarrow> u64 option" where
  "committed_seq_of st i = map_option ci_seq (committed_of st i)"

definition failure_reason_of :: "pstate \<Rightarrow> mote_id \<Rightarrow> failure_reason option" where
  "failure_reason_of st i =
     (case map_of (st_motes st) i of None \<Rightarrow> None | Some m \<Rightarrow> mi_failure_reason m)"

definition failure_detail_of :: "pstate \<Rightarrow> mote_id \<Rightarrow> rstring" where
  "failure_detail_of st i =
     (case map_of (st_motes st) i of None \<Rightarrow> [] | Some m \<Rightarrow> mi_failure_detail m)"

definition is_repudiated :: "pstate \<Rightarrow> mote_id \<Rightarrow> bool" where
  "is_repudiated st i = (state_of_id st i = MsRepudiated)"

definition warrant_ref_of :: "pstate \<Rightarrow> mote_id \<Rightarrow> content_ref option" where
  "warrant_ref_of st i =
     (case map_of (st_motes st) i of
        None \<Rightarrow> None
      | Some m \<Rightarrow>
          (case mi_declared m of
             Some d \<Rightarrow> Some (di_warrant_ref d)
           | None \<Rightarrow> map_option ci_warrant_ref (mi_committed m)))"

definition iter_motes :: "pstate \<Rightarrow> (mote_id \<times> mote_state) list" where
  "iter_motes st = map (\<lambda>i. (i, state_of_id st i)) (bt_keys (st_motes st))"

definition iter_motes_in_state :: "pstate \<Rightarrow> mote_state \<Rightarrow> mote_id list" where
  "iter_motes_in_state st s = filter (\<lambda>i. state_of_id st i = s) (bt_keys (st_motes st))"

definition committed_count :: "pstate \<Rightarrow> nat" where
  "committed_count st = length (iter_motes_in_state st MsCommitted)"

text \<open>\<open>Iterator::max_by\<close> keeps the later of two equal elements.\<close>

fun max_by :: "('a \<Rightarrow> 'a \<Rightarrow> bool) \<Rightarrow> 'a list \<Rightarrow> 'a option" where
  "max_by gt [] = None"
| "max_by gt (x # xs) = Some (fold (\<lambda>y best. if gt best y then best else y) xs x)"

definition latest_replan_round :: "pstate \<Rightarrow> replan_round_record option" where
  "latest_replan_round st =
     max_by (\<lambda>a b. rp_round a > rp_round b \<or> rp_round a = rp_round b \<and> rp_seq a < rp_seq b)
       (st_replan_rounds st)"

definition rerank_rounds_of :: "pstate \<Rightarrow> array16 \<Rightarrow> rerank_round_record list" where
  "rerank_rounds_of st inst = filter (\<lambda>r. rk_instance_id r = inst) (st_rerank_rounds st)"

definition timers_of :: "pstate \<Rightarrow> array16 \<Rightarrow> timer_record list" where
  "timers_of st inst = filter (\<lambda>t. tm_instance_id t = inst) (st_timers st)"

definition latest_rerank_round :: "pstate \<Rightarrow> mote_id \<Rightarrow> rerank_round_record option" where
  "latest_rerank_round st i =
     max_by (\<lambda>a b. rk_seq a > rk_seq b) (filter (\<lambda>r. rk_rerank_mote_id r = i) (st_rerank_rounds st))"

definition latest_rerank_round_by_base :: "pstate \<Rightarrow> array16 \<Rightarrow> content_ref \<Rightarrow> rerank_round_record option" where
  "latest_rerank_round_by_base st inst base =
     max_by (\<lambda>a b. rk_seq a > rk_seq b)
       (filter (\<lambda>r. rk_instance_id r = inst \<and> rk_base_results_ref r = base) (st_rerank_rounds st))"

definition react_rounds_of :: "pstate \<Rightarrow> array16 \<Rightarrow> array32 option \<Rightarrow> react_round_record list" where
  "react_rounds_of st inst salt =
     (case map_of (st_react_index st) inst of
        None \<Rightarrow> []
      | Some chs \<Rightarrow>
          (case map_of chs salt of
             None \<Rightarrow> []
           | Some idxs \<Rightarrow> map (\<lambda>i. st_react_rounds st ! i) idxs))"

definition react_chains :: "pstate \<Rightarrow> (array16 \<times> array32 option) list" where
  "react_chains st =
     concat (map (\<lambda>(inst, chs). map (\<lambda>salt. (inst, salt)) (bt_keys chs)) (st_react_index st))"

definition is_react_turn_mote :: "pstate \<Rightarrow> mote_id \<Rightarrow> bool" where
  "is_react_turn_mote st i \<longleftrightarrow> i \<in> st_react_turn_motes st"

definition react_tool_round_of_turn :: "pstate \<Rightarrow> mote_id \<Rightarrow> react_round_record option" where
  "react_tool_round_of_turn st i =
     map_option (\<lambda>k. st_react_rounds st ! k) (map_of (st_react_tool_round_of_turn st) i)"

definition latest_react_round :: "pstate \<Rightarrow> array16 \<Rightarrow> array32 option \<Rightarrow> react_round_record option" where
  "latest_react_round st inst salt =
     max_by (\<lambda>a b. ra_turn a > ra_turn b \<or> ra_turn a = ra_turn b \<and> ra_seq a > ra_seq b)
       (react_rounds_of st inst salt)"

fun is_requested :: "approval_state \<Rightarrow> bool" where
  "is_requested (Requested _ _ _ _ _) = True"
| "is_requested _ = False"

definition pending_approvals :: "pstate \<Rightarrow> approval_record list" where
  "pending_approvals st =
     filter (\<lambda>r. is_requested (ap_state r))
       (List.map_filter (\<lambda>(_, idx). nth_opt (st_approvals st) idx) (st_approval_index st))"

definition idempotency_class_for_tool :: "pstate \<Rightarrow> rstring \<Rightarrow> idempotency_class_tag option" where
  "idempotency_class_for_tool st tool_id =
     map_option rc_idempotency_class
       (List.find (\<lambda>cap. rc_tool_id cap = tool_id)
          (List.map_filter rs_capability (st_run_resolved_versions st)))"

section \<open>The fold, one Mote at a time\<close>

text \<open>
  Which Mote an entry is about, and what it does to that Mote's information. The facts of
  a Mote are its information without the declaration, which only registration changes.
\<close>

fun entry_target :: "journal_entry \<Rightarrow> mote_id option" where
  "entry_target (Proposed e) = Some (p_mote_id e)"
| "entry_target (Committed e) = Some (c_mote_id e)"
| "entry_target (Failed e) = Some (f_mote_id e)"
| "entry_target (Repudiated e) = Some (r_target_mote_id e)"
| "entry_target (EffectStaged e) = Some (es_mote_id e)"
| "entry_target _ = None"

fun info_step :: "journal_entry \<Rightarrow> mote_info \<Rightarrow> mote_info" where
  "info_step (Proposed e) m = m\<lparr>mi_has_proposed := True, mi_failed_pending_reattempt := False\<rparr>"
| "info_step (Committed e) m =
     (if mi_committed m \<noteq> None then m else m\<lparr>mi_committed := Some (committed_info_of e)\<rparr>)"
| "info_step (Failed e) m = fold_failed_info (f_reason_class e) (f_detail e) m"
| "info_step (Repudiated e) m = fold_repudiated_info (r_target_committed_seq e) m"
| "info_step (EffectStaged e) m = m\<lparr>mi_effect_staged_observed := True\<rparr>"
| "info_step _ m = m"

definition facts :: "mote_info \<Rightarrow> mote_info" where
  "facts m = m\<lparr>mi_declared := None\<rparr>"

definition state_of_info :: "mote_info \<Rightarrow> mote_state" where
  "state_of_info m =
     (if mi_inconsistent m then MsInconsistent
      else (case mi_committed m of
          Some c \<Rightarrow> if ci_repudiated c then MsRepudiated else MsCommitted
        | None \<Rightarrow>
            if mi_terminal_failure_observed m then MsFailed
            else if mi_effect_staged_observed m then MsPending
            else if mi_failed_pending_reattempt m then MsFailed
            else if mi_has_proposed m then MsScheduled
            else MsPending))"

lemma state_of_id_info: "state_of_id st i = state_of_info (moteinfo st i)"
  by (simp add: state_of_id_def state_of_info_def moteinfo_def mote_info_default_def split: option.splits)

lemma state_of_info_facts [simp]: "state_of_info (facts m) = state_of_info m"
  by (simp add: state_of_info_def facts_def)

lemma committed_of_info: "committed_of st i = mi_committed (moteinfo st i)"
  by (simp add: committed_of_def moteinfo_def mote_info_default_def split: option.splits)

lemma can_redispatch_info:
  "can_redispatch_world_effect_id st i \<longleftrightarrow>
     mi_effect_staged_observed (moteinfo st i) \<and> mi_committed (moteinfo st i) = None \<and>
     \<not> mi_terminal_failure_observed (moteinfo st i) \<and> \<not> mi_inconsistent (moteinfo st i)"
  by (auto simp: can_redispatch_world_effect_id_def moteinfo_def mote_info_default_def split: option.splits)

lemma facts_info_step [simp]: "facts (info_step e m) = info_step e (facts m)"
  by (cases e) (auto simp: facts_def fold_failed_info_def fold_repudiated_info_def Let_def split: option.splits)

lemma facts_default [simp]: "facts mote_info_default = mote_info_default"
  by (simp add: facts_def mote_info_default_def)

lemma moteinfo_st_motes: "st_motes st' = st_motes st \<Longrightarrow> moteinfo st' = moteinfo st"
  by (simp add: moteinfo_def fun_eq_iff)

lemma moteinfo_advance_seq [simp]: "moteinfo (advance_seq s st) = moteinfo st"
  by (rule moteinfo_st_motes) (simp add: advance_seq_def)

lemma moteinfo_reindex [simp]: "moteinfo (reindex_child_edges c old st) = moteinfo st"
  by (rule moteinfo_st_motes) simp

lemma st_motes_run_metadata [simp]: "st_motes (fold_run_metadata e st) = st_motes st"
  by (cases e) (simp_all add: advance_seq_def index_last_react_round_def index_last_approval_def Let_def)

lemma moteinfo_run_metadata [simp]: "moteinfo (fold_run_metadata e st) = moteinfo st"
  by (rule moteinfo_st_motes) simp

lemma facts_register_mote [simp]: "facts (moteinfo (register_mote reg st) i) = facts (moteinfo st i)"
  by (simp add: register_mote_def set_declared_def facts_def)

lemma facts_register_all [simp]: "facts (moteinfo (fold register_mote regs st) i) = facts (moteinfo st i)"
  by (induction regs arbitrary: st) simp_all

lemma facts_committed:
  "facts (m\<lparr>mi_committed := c\<rparr>) = (facts m)\<lparr>mi_committed := c\<rparr>"
  "mi_committed (facts m) = mi_committed m"
  by (simp_all add: facts_def)

lemma fold_step_facts:
  "facts (moteinfo (snd (fold_step mat e st)) i) =
     (if entry_target e = Some i then info_step e (facts (moteinfo st i)) else facts (moteinfo st i))"
proof (cases e)
  case (Committed c)
  then show ?thesis
    by (auto simp: fold_committed_entry_def Let_def facts_committed split: option.splits sum.splits)
qed (auto simp flip: facts_info_step simp del: fold_run_metadata.simps)

lemma fold_entry_snd [simp]: "snd (fold_entry mat e st) = snd (fold_step mat e st)"
  by (simp add: fold_entry_def Let_def case_prod_unfold)

lemma fold_entry_eq_Inr:
  "fold_entry mat e st = (Inr v, st') \<longleftrightarrow> v = st_last_seq st \<and> fold_step mat e st = (Inr (), st')"
  by (cases "fold_step mat e st"; cases "fst (fold_step mat e st)") (auto simp: fold_entry_def)

lemma fold_all_facts:
  "fold_all mat es st = Inr st' \<Longrightarrow>
     facts (moteinfo st' i) =
       fold info_step (filter (\<lambda>e. entry_target e = Some i) es) (facts (moteinfo st i))"
proof (induction es arbitrary: st)
  case (Cons e es)
  then obtain v st1 where "fold_entry mat e st = (Inr v, st1)" and rest: "fold_all mat es st1 = Inr st'"
    by (auto split: prod.splits sum.splits)
  then have "st1 = snd (fold_step mat e st)"
    by (metis fold_entry_snd snd_conv)
  then show ?case
    using Cons.IH[OF rest] fold_step_facts[of mat e st i] by simp
qed simp

section \<open>The reverse index is kept by every fold\<close>

lemma children_ok_motes:
  "children_ok st \<Longrightarrow> st_motes st' = st_motes st \<Longrightarrow> st_children st' = st_children st \<Longrightarrow> children_ok st'"
  by (simp add: children_ok_def rebuild_children_def parents_of_id_def)

lemma advance_seq_children_ok [simp]: "children_ok st \<Longrightarrow> children_ok (advance_seq s st)"
  by (erule children_ok_motes) (simp_all add: advance_seq_def)

lemma run_metadata_children_ok: "children_ok st \<Longrightarrow> children_ok (fold_run_metadata e st)"
  by (erule children_ok_motes, simp, cases e)
    (simp_all add: advance_seq_def index_last_react_round_def index_last_approval_def Let_def)

lemma register_all_children_ok: "children_ok st \<Longrightarrow> children_ok (fold register_mote regs st)"
  by (induction regs arbitrary: st) (simp_all add: register_mote_children_ok)

lemma fold_failed_info_keeps [simp]:
  "mi_committed (fold_failed_info r d m) = mi_committed m"
  "mi_declared (fold_failed_info r d m) = mi_declared m"
  "mi_effect_staged_observed (fold_failed_info r d m) = mi_effect_staged_observed m"
  "mi_inconsistent (fold_failed_info r d m) = mi_inconsistent m"
  by (simp_all add: fold_failed_info_def Let_def)

lemma effective_parents_failed [simp]: "effective_parents (fold_failed_info r d m) = effective_parents m"
  by (simp add: effective_parents_def cong: option.case_cong)

lemma effective_parents_repudiated [simp]: "effective_parents (fold_repudiated_info q m) = effective_parents m"
  by (auto simp: fold_repudiated_info_def effective_parents_def split: option.splits)

lemma effective_parents_flags [simp]:
  "effective_parents (m\<lparr>mi_has_proposed := a, mi_failed_pending_reattempt := b\<rparr>) = effective_parents m"
  "effective_parents (m\<lparr>mi_effect_staged_observed := a\<rparr>) = effective_parents m"
  by (simp_all add: effective_parents_def cong: option.case_cong)

lemma advance_reindex: "reindex_child_edges c old (advance_seq s st) = advance_seq s (reindex_child_edges c old st)"
  by (simp add: reindex_child_edges_def advance_seq_def parents_of_id_def)

lemma fold_step_children_ok: "children_ok st \<Longrightarrow> children_ok (snd (fold_step mat e st))"
proof (cases e)
  case (Committed c)
  assume "children_ok st"
  then have "children_ok (reindex_child_edges (c_mote_id c) (parents_of_id st (c_mote_id c))
      (advance_seq (c_seq c)
        (moteinfo_upd (c_mote_id c) (\<lambda>m. m\<lparr>mi_committed := Some (committed_info_of c)\<rparr>) st)))"
    by (simp add: advance_reindex reindex_children_ok)
  with \<open>children_ok st\<close> show ?thesis
    by (simp add: Committed fold_committed_entry_def Let_def register_all_children_ok
        split: option.splits sum.splits)
qed (auto intro!: advance_seq_children_ok moteinfo_upd_children_ok run_metadata_children_ok
      simp del: fold_run_metadata.simps)

end
