(* ===== verification/Kx_Projection_Laws.thy ===== *)
theory Kx_Projection_Laws
  imports Kx_Projection_Fold
begin

text \<open>
  What the fold computes. The state of a Mote after a replay is read off the log by
  \<open>log_state\<close>, without any intermediate flags; flags are only ever raised; the derived
  indices are exact; and a journal whose \<open>Committed\<close> entries are keyed by their Mote replays
  without error.
\<close>

section \<open>Occurrence of entries in a log\<close>

definition occurs :: "('a list \<Rightarrow> 'a \<Rightarrow> bool) \<Rightarrow> 'a list \<Rightarrow> bool" where
  "occurs P es \<longleftrightarrow> (\<exists>xs x ys. es = xs @ x # ys \<and> P xs x)"

lemma occurs_Nil [simp]: "\<not> occurs P []"
  by (simp add: occurs_def)

lemma occurs_Cons: "occurs P (x # xs) \<longleftrightarrow> P [] x \<or> occurs (\<lambda>ys. P (x # ys)) xs"
proof
  assume "occurs P (x # xs)"
  then obtain as a bs where "x # xs = as @ a # bs" "P as a"
    by (auto simp: occurs_def)
  then show "P [] x \<or> occurs (\<lambda>ys. P (x # ys)) xs"
    by (cases as) (auto simp: occurs_def)
next
  assume "P [] x \<or> occurs (\<lambda>ys. P (x # ys)) xs"
  then show "occurs P (x # xs)"
    unfolding occurs_def by (metis append_Cons append_Nil)
qed

lemma occurs_snoc [simp]: "occurs P (es @ [e]) \<longleftrightarrow> occurs P es \<or> P es e"
proof
  assume "occurs P (es @ [e])"
  then obtain xs x ys where split: "es @ [e] = xs @ x # ys" and P: "P xs x"
    by (auto simp: occurs_def)
  show "occurs P es \<or> P es e"
  proof (cases ys rule: rev_cases)
    case Nil
    then show ?thesis using split P by simp
  next
    case (snoc zs z)
    then show ?thesis using split P by (auto simp: occurs_def)
  qed
next
  assume "occurs P es \<or> P es e"
  then show "occurs P (es @ [e])"
    by (auto simp: occurs_def) (metis append.assoc append_Cons)
qed

fun is_proposed :: "mote_id \<Rightarrow> journal_entry \<Rightarrow> bool" where
  "is_proposed i (Proposed e) = (p_mote_id e = i)"
| "is_proposed i _ = False"

fun is_committed :: "mote_id \<Rightarrow> journal_entry \<Rightarrow> bool" where
  "is_committed i (Committed e) = (c_mote_id e = i)"
| "is_committed i _ = False"

fun is_staged :: "mote_id \<Rightarrow> journal_entry \<Rightarrow> bool" where
  "is_staged i (EffectStaged e) = (es_mote_id e = i)"
| "is_staged i _ = False"

fun is_failed :: "mote_id \<Rightarrow> journal_entry \<Rightarrow> bool" where
  "is_failed i (Failed e) = (f_mote_id e = i)"
| "is_failed i _ = False"

fun is_terminal_failed :: "mote_id \<Rightarrow> journal_entry \<Rightarrow> bool" where
  "is_terminal_failed i (Failed e) = (f_mote_id e = i \<and> \<not> is_pre_commit_crash (f_reason_class e))"
| "is_terminal_failed i _ = False"

fun is_repudiation :: "mote_id \<Rightarrow> journal_entry \<Rightarrow> bool" where
  "is_repudiation i (Repudiated e) = (r_target_mote_id e = i)"
| "is_repudiation i _ = False"

fun repudiates :: "journal_entry \<Rightarrow> journal_entry \<Rightarrow> bool" where
  "repudiates (Repudiated r) (Committed c) =
     (r_target_mote_id r = c_mote_id c \<and> r_target_committed_seq r = c_seq c)"
| "repudiates _ _ = False"

section \<open>The state of a Mote, read off the log\<close>

definition log_committed :: "mote_id \<Rightarrow> journal_entry list \<Rightarrow> bool" where
  "log_committed i es \<longleftrightarrow> list_ex (is_committed i) es"

definition log_staged :: "mote_id \<Rightarrow> journal_entry list \<Rightarrow> bool" where
  "log_staged i es \<longleftrightarrow> list_ex (is_staged i) es"

definition log_proposed :: "mote_id \<Rightarrow> journal_entry list \<Rightarrow> bool" where
  "log_proposed i es \<longleftrightarrow> list_ex (is_proposed i) es"

text \<open>A repudiation of a Mote whose effect was staged and that never committed.\<close>

definition log_inconsistent :: "mote_id \<Rightarrow> journal_entry list \<Rightarrow> bool" where
  "log_inconsistent i = occurs (\<lambda>before e. is_repudiation i e \<and> log_staged i before \<and> \<not> log_committed i before)"

text \<open>A failure that is not a pre-commit crash, before any commit.\<close>

definition log_terminal :: "mote_id \<Rightarrow> journal_entry list \<Rightarrow> bool" where
  "log_terminal i = occurs (\<lambda>before e. is_terminal_failed i e \<and> \<not> log_committed i before)"

text \<open>A repudiation that names the sequence number of an earlier commit.\<close>

definition log_repudiated :: "mote_id \<Rightarrow> journal_entry list \<Rightarrow> bool" where
  "log_repudiated i = occurs (\<lambda>before e. list_ex (\<lambda>c. is_committed i c \<and> repudiates e c) before)"

text \<open>A failure before any commit, with no later proposal.\<close>

definition log_reattempt :: "mote_id \<Rightarrow> journal_entry list \<Rightarrow> bool" where
  "log_reattempt i es \<longleftrightarrow>
     (\<exists>xs e ys. es = xs @ e # ys \<and> is_failed i e \<and> \<not> log_committed i xs \<and> \<not> log_proposed i ys)"

definition log_state :: "mote_id \<Rightarrow> journal_entry list \<Rightarrow> mote_state" where
  "log_state i es =
     (if log_inconsistent i es then MsInconsistent
      else if log_committed i es then (if log_repudiated i es then MsRepudiated else MsCommitted)
      else if log_terminal i es then MsFailed
      else if log_staged i es then MsPending
      else if log_reattempt i es then MsFailed
      else if log_proposed i es then MsScheduled
      else MsPending)"

lemma log_simps [simp]:
  "\<not> log_committed i []" "log_committed i (es @ [e]) \<longleftrightarrow> log_committed i es \<or> is_committed i e"
  "\<not> log_staged i []" "log_staged i (es @ [e]) \<longleftrightarrow> log_staged i es \<or> is_staged i e"
  "\<not> log_proposed i []" "log_proposed i (es @ [e]) \<longleftrightarrow> log_proposed i es \<or> is_proposed i e"
  by (simp_all add: log_committed_def log_staged_def log_proposed_def)

lemma log_reattempt_snoc:
  "log_reattempt i (es @ [e]) \<longleftrightarrow>
     is_failed i e \<and> \<not> log_committed i es \<or> log_reattempt i es \<and> \<not> is_proposed i e"
    (is "?l \<longleftrightarrow> ?r")
proof
  assume ?l
  then obtain xs x ys where split: "es @ [e] = xs @ x # ys"
    and x: "is_failed i x" "\<not> log_committed i xs" "\<not> log_proposed i ys"
    by (auto simp: log_reattempt_def)
  show ?r
  proof (cases ys rule: rev_cases)
    case Nil
    then show ?thesis using split x by simp
  next
    case (snoc zs z)
    then show ?thesis using split x by (auto simp: log_reattempt_def)
  qed
next
  assume ?r
  then show ?l
  proof
    assume "is_failed i e \<and> \<not> log_committed i es"
    then show ?l
      unfolding log_reattempt_def by (intro exI[of _ es] exI[of _ e] exI[of _ "[]"]) simp
  next
    assume "log_reattempt i es \<and> \<not> is_proposed i e"
    then obtain xs x ys where "es = xs @ x # ys" "is_failed i x" "\<not> log_committed i xs"
      "\<not> log_proposed i (ys @ [e])"
      by (auto simp: log_reattempt_def)
    then show ?l
      unfolding log_reattempt_def by (intro exI[of _ xs] exI[of _ x] exI[of _ "ys @ [e]"]) simp
  qed
qed

text \<open>The flags the fold keeps are these readings of the log.\<close>

definition step_for :: "mote_id \<Rightarrow> journal_entry \<Rightarrow> mote_info \<Rightarrow> mote_info" where
  "step_for i e m = (if entry_target e = Some i then info_step e m else m)"

lemma step_for_simps [simp]:
  "entry_target e = Some i \<Longrightarrow> step_for i e m = info_step e m"
  "entry_target e \<noteq> Some i \<Longrightarrow> step_for i e m = m"
  by (simp_all add: step_for_def)

lemma default_info_simps [simp]:
  "mi_committed mote_info_default = None"
  "mi_failure_reason mote_info_default = None"
  "mi_failure_detail mote_info_default = []"
  by (simp_all add: mote_info_default_def)

lemma fold_step_for: "fold info_step (filter (\<lambda>e. entry_target e = Some i) es) = fold (step_for i) es"
  by (induction es) (auto simp: step_for_def fun_eq_iff)

text \<open>The commit of a Mote in a log: the first one.\<close>

fun log_commit :: "mote_id \<Rightarrow> journal_entry list \<Rightarrow> committed_entry option" where
  "log_commit i [] = None"
| "log_commit i (Committed c # es) = (if c_mote_id c = i then Some c else log_commit i es)"
| "log_commit i (_ # es) = log_commit i es"

definition one_commit :: "mote_id \<Rightarrow> journal_entry list \<Rightarrow> bool" where
  "one_commit i es \<longleftrightarrow> \<not> occurs (\<lambda>before e. is_committed i e \<and> log_committed i before) es"

lemma log_commit_snoc:
  "log_commit i (es @ [e]) =
     (case log_commit i es of Some c \<Rightarrow> Some c
      | None \<Rightarrow> (case e of Committed c \<Rightarrow> if c_mote_id c = i then Some c else None | _ \<Rightarrow> None))"
  by (induction i es rule: log_commit.induct) (auto split: journal_entry.splits)

lemma log_commit_None: "log_commit i es = None \<longleftrightarrow> \<not> log_committed i es"
  by (induction i es rule: log_commit.induct) (auto simp: log_committed_def)

lemma log_commit_unique:
  "one_commit i es \<Longrightarrow> log_commit i es = Some c \<Longrightarrow>
     list_ex (\<lambda>x. is_committed i x \<and> repudiates e x) es \<longleftrightarrow> repudiates e (Committed c)"
proof (induction es rule: rev_induct)
  case (snoc x es)
  show ?case
  proof (cases "log_commit i es")
    case None
    then have "\<not> log_committed i es" by (simp add: log_commit_None)
    then have "\<not> list_ex (\<lambda>x. is_committed i x \<and> repudiates e x) es"
      by (auto simp: log_committed_def list_ex_iff)
    then show ?thesis
      using snoc.prems None by (cases x) (auto simp: log_commit_snoc split: if_splits)
  next
    case (Some d)
    then have "log_committed i es" by (metis log_commit_None option.distinct(1))
    then have "\<not> is_committed i x" using snoc.prems by (simp add: one_commit_def)
    then show ?thesis
      using snoc Some by (simp add: one_commit_def log_commit_snoc)
  qed
qed simp

definition log_info_ok :: "mote_id \<Rightarrow> journal_entry list \<Rightarrow> mote_info \<Rightarrow> bool" where
  "log_info_ok i es m \<longleftrightarrow>
     mi_inconsistent m = log_inconsistent i es \<and>
     mi_terminal_failure_observed m = log_terminal i es \<and>
     mi_effect_staged_observed m = log_staged i es \<and>
     mi_failed_pending_reattempt m = log_reattempt i es \<and>
     mi_has_proposed m = log_proposed i es \<and>
     mi_committed m = map_option (\<lambda>c. (committed_info_of c)\<lparr>ci_repudiated := log_repudiated i es\<rparr>) (log_commit i es)"

lemma log_occurs_snoc:
  "log_inconsistent i (es @ [e]) \<longleftrightarrow>
     log_inconsistent i es \<or> is_repudiation i e \<and> log_staged i es \<and> \<not> log_committed i es"
  "log_terminal i (es @ [e]) \<longleftrightarrow> log_terminal i es \<or> is_terminal_failed i e \<and> \<not> log_committed i es"
  "log_repudiated i (es @ [e]) \<longleftrightarrow>
     log_repudiated i es \<or> list_ex (\<lambda>c. is_committed i c \<and> repudiates e c) es"
  by (simp_all add: log_inconsistent_def log_terminal_def log_repudiated_def)

lemma log_occurs_Nil [simp]:
  "\<not> log_inconsistent i []" "\<not> log_terminal i []" "\<not> log_repudiated i []" "\<not> log_reattempt i []"
  by (simp_all add: log_inconsistent_def log_terminal_def log_repudiated_def log_reattempt_def)

lemma log_repudiated_committed: "log_repudiated i es \<Longrightarrow> log_committed i es"
  by (induction es rule: rev_induct) (auto simp: log_occurs_snoc log_committed_def list_ex_iff)

lemma not_repudiates:
  "entry_target e \<noteq> Some i \<Longrightarrow> \<not> (is_committed i c \<and> repudiates e c)"
  by (cases e; cases c) auto

lemmas log_snoc = log_occurs_snoc log_reattempt_snoc log_commit_snoc

lemma log_info_step:
  assumes one: "one_commit i (es @ [e])" and ok: "log_info_ok i es m"
  shows "log_info_ok i (es @ [e]) (step_for i e m)"
proof (cases "entry_target e = Some i")
  case False
  then have "\<not> list_ex (\<lambda>c. is_committed i c \<and> repudiates e c) es"
    using not_repudiates by (auto simp: list_ex_iff)
  then show ?thesis
    using ok False by (cases e) (auto simp: log_info_ok_def step_for_def log_snoc split: option.splits)
next
  case True
  show ?thesis
  proof (cases "log_commit i es")
    case None
    then have nc: "\<not> log_committed i es" by (simp add: log_commit_None)
    then have nr: "\<not> log_repudiated i es" using log_repudiated_committed by blast
    have "\<not> list_ex (\<lambda>c. is_committed i c \<and> repudiates e c) es"
      using nc by (auto simp: log_committed_def list_ex_iff)
    then show ?thesis
      using ok True None nc nr
      by (cases e) (auto simp: log_info_ok_def step_for_def log_snoc fold_failed_info_def
          fold_repudiated_info_def committed_info_of_def Let_def)
  next
    case (Some c)
    then have lc: "log_committed i es" by (metis log_commit_None option.distinct(1))
    then have "\<not> is_committed i e" and one': "one_commit i es"
      using one by (simp_all add: one_commit_def)
    moreover have "list_ex (\<lambda>x. is_committed i x \<and> repudiates e x) es \<longleftrightarrow> repudiates e (Committed c)"
      by (rule log_commit_unique[OF one' Some])
    moreover have "c_mote_id c = i"
      using Some by (induction i es rule: log_commit.induct) (auto split: if_splits)
    ultimately show ?thesis
      using ok True Some lc
      by (cases e) (auto simp: log_info_ok_def step_for_def log_snoc fold_failed_info_def
          fold_repudiated_info_def committed_info_of_def)
  qed
qed

lemma fold_log_info: "one_commit i es \<Longrightarrow> log_info_ok i es (fold (step_for i) es mote_info_default)"
proof (induction es rule: rev_induct)
  case Nil
  then show ?case by (simp add: log_info_ok_def mote_info_default_def)
next
  case (snoc e es)
  then have "log_info_ok i es (fold (step_for i) es mote_info_default)"
    by (simp add: one_commit_def)
  then show ?case
    using log_info_step[OF snoc.prems] by simp
qed

section \<open>Live projections\<close>

text \<open>
  A projection in use: registrations and folds in any order, stopping at the first error.
  A replay is the case without registrations.
\<close>

datatype proj_op = Register register_mote_req | FoldE journal_entry

fun run_ops :: "materializer option \<Rightarrow> proj_op list \<Rightarrow> pstate \<Rightarrow> (projection_error, pstate) result" where
  "run_ops mat [] st = Inr st"
| "run_ops mat (Register reg # ops) st = run_ops mat ops (register_mote reg st)"
| "run_ops mat (FoldE e # ops) st =
     (case fold_entry mat e st of
        (Inl err, _) \<Rightarrow> Inl err
      | (Inr _, st') \<Rightarrow> run_ops mat ops st')"

fun entries_of :: "proj_op list \<Rightarrow> journal_entry list" where
  "entries_of [] = []"
| "entries_of (Register _ # ops) = entries_of ops"
| "entries_of (FoldE e # ops) = e # entries_of ops"

lemma fold_all_run_ops: "fold_all mat es st = run_ops mat (map FoldE es) st"
  by (induction es arbitrary: st) (auto split: prod.splits sum.splits)

lemma entries_of_FoldE [simp]: "entries_of (map FoldE es) = es"
  by (induction es) auto

lemma entries_of_append [simp]: "entries_of (xs @ ys) = entries_of xs @ entries_of ys"
  by (induction xs rule: entries_of.induct) auto

lemma run_ops_append: "run_ops mat (xs @ ys) st = and_then (run_ops mat xs st) (run_ops mat ys)"
  by (induction mat xs st rule: run_ops.induct) (auto split: prod.splits sum.splits)

lemma run_ops_FoldE:
  "run_ops mat [FoldE e] st = Inr st' \<longleftrightarrow> fold_step mat e st = (Inr (), st')"
  by (auto simp: fold_entry_def Let_def and_then_def split: prod.splits sum.splits)

lemma run_ops_facts:
  "run_ops mat ops st = Inr st' \<Longrightarrow>
     facts (moteinfo st' i) = fold (step_for i) (entries_of ops) (facts (moteinfo st i))"
proof (induction mat ops st rule: run_ops.induct)
  case (3 mat e ops st)
  then obtain v st1 where e: "fold_entry mat e st = (Inr v, st1)" and rest: "run_ops mat ops st1 = Inr st'"
    by (auto split: prod.splits sum.splits)
  then have "st1 = snd (fold_step mat e st)"
    by (metis fold_entry_snd snd_conv)
  then show ?case
    using 3(1)[OF e[symmetric] refl rest] fold_step_facts[of mat e st i] by (simp add: step_for_def)
qed simp_all

text \<open>A run that succeeds has seen at most one commit of each Mote.\<close>

lemma moteinfo_default [simp]: "moteinfo pstate_default i = mote_info_default"
  by (simp add: moteinfo_def pstate_default_def)

lemma committed_iff_log:
  assumes "run_ops mat ops pstate_default = Inr st" and "one_commit i (entries_of ops)"
  shows "mi_committed (moteinfo st i) = None \<longleftrightarrow> \<not> log_committed i (entries_of ops)"
proof -
  have "log_info_ok i (entries_of ops) (facts (moteinfo st i))"
    using fold_log_info[OF assms(2)] run_ops_facts[OF assms(1), of i] by simp
  then show ?thesis
    by (simp add: log_info_ok_def facts_committed log_commit_None)
qed

lemma fold_step_Committed_ok:
  "fold_step mat (Committed c) st = (Inr (), st') \<Longrightarrow> mi_committed (moteinfo st (c_mote_id c)) = None"
  by (auto simp: fold_committed_entry_def Let_def split: if_splits)

lemma run_ops_one_commit: "run_ops mat ops pstate_default = Inr st \<Longrightarrow> one_commit i (entries_of ops)"
proof (induction ops arbitrary: st rule: rev_induct)
  case Nil
  then show ?case by (simp add: one_commit_def)
next
  case (snoc x ops)
  then obtain st1 where st1: "run_ops mat ops pstate_default = Inr st1" and x: "run_ops mat [x] st1 = Inr st"
    by (auto simp: run_ops_append and_then_eq_Inr)
  have one: "one_commit i (entries_of ops)" by (rule snoc.IH[OF st1])
  show ?case
  proof (cases x)
    case (FoldE e)
    have "\<not> (is_committed i e \<and> log_committed i (entries_of ops))"
    proof
      assume c: "is_committed i e \<and> log_committed i (entries_of ops)"
      then obtain c where "e = Committed c" "c_mote_id c = i" by (cases e) auto
      then have "mi_committed (moteinfo st1 i) = None"
        using x unfolding FoldE run_ops_FoldE by (metis fold_step_Committed_ok)
      then show False
        using committed_iff_log[OF st1 one] c by simp
    qed
    then show ?thesis
      using one FoldE by (simp add: one_commit_def)
  qed (use one in simp)
qed

lemma run_ops_log_info:
  "run_ops mat ops pstate_default = Inr st \<Longrightarrow> log_info_ok i (entries_of ops) (facts (moteinfo st i))"
  using run_ops_facts[of mat ops pstate_default st i] fold_log_info[OF run_ops_one_commit, of mat ops st i]
  by simp

lemma run_ops_state: "run_ops mat ops pstate_default = Inr st \<Longrightarrow> state_of_id st i = log_state i (entries_of ops)"
proof (cases "log_commit i (entries_of ops)")
  case None
  moreover assume "run_ops mat ops pstate_default = Inr st"
  moreover have "\<not> log_committed i (entries_of ops)"
    using None by (simp add: log_commit_None)
  ultimately show ?thesis
    using run_ops_log_info[of mat ops st i]
    by (simp add: state_of_id_info log_info_ok_def state_of_info_def log_state_def facts_def)
next
  case (Some c)
  moreover assume "run_ops mat ops pstate_default = Inr st"
  moreover have "log_committed i (entries_of ops)"
    using Some by (metis log_commit_None option.distinct(1))
  ultimately show ?thesis
    using run_ops_log_info[of mat ops st i]
    by (simp add: state_of_id_info log_info_ok_def state_of_info_def log_state_def facts_def)
qed

lemma run_ops_redispatch:
  "run_ops mat ops pstate_default = Inr st \<Longrightarrow>
     can_redispatch_world_effect_id st i \<longleftrightarrow>
       log_staged i (entries_of ops) \<and> \<not> log_committed i (entries_of ops) \<and>
       \<not> log_terminal i (entries_of ops) \<and> \<not> log_inconsistent i (entries_of ops)"
  using run_ops_log_info[of mat ops st i]
  by (auto simp: can_redispatch_info log_info_ok_def facts_def log_commit_None)

section \<open>Facts are only ever added\<close>

text \<open>
  \<open>info_extends a b\<close>: every raised flag of \<open>a\<close> is raised in \<open>b\<close>, a commit keeps its content
  and at most becomes repudiated, and a recorded failure is never replaced.
\<close>

definition commit_extends :: "committed_info option \<Rightarrow> committed_info option \<Rightarrow> bool" where
  "commit_extends a b \<longleftrightarrow>
     (case a of None \<Rightarrow> True | Some c \<Rightarrow> b = Some c \<or> b = Some (c\<lparr>ci_repudiated := True\<rparr>))"

definition info_extends :: "mote_info \<Rightarrow> mote_info \<Rightarrow> bool" where
  "info_extends a b \<longleftrightarrow>
     (mi_has_proposed a \<longrightarrow> mi_has_proposed b) \<and>
     (mi_effect_staged_observed a \<longrightarrow> mi_effect_staged_observed b) \<and>
     (mi_terminal_failure_observed a \<longrightarrow> mi_terminal_failure_observed b) \<and>
     (mi_inconsistent a \<longrightarrow> mi_inconsistent b) \<and>
     (mi_quarantined a \<longrightarrow> mi_quarantined b) \<and>
     (mi_failure_reason a \<noteq> None \<longrightarrow>
        mi_failure_reason b = mi_failure_reason a \<and> mi_failure_detail b = mi_failure_detail a) \<and>
     commit_extends (mi_committed a) (mi_committed b)"

lemma commit_extends_simps [simp]:
  "commit_extends a a" "commit_extends None b"
  "commit_extends (Some c) (Some (c\<lparr>ci_repudiated := True\<rparr>))"
  "\<not> commit_extends (Some c) None"
  by (simp_all add: commit_extends_def split: option.splits)

lemma commit_extends_trans:
  assumes "commit_extends a b" and "commit_extends b c"
  shows "commit_extends a c"
proof (cases a)
  case (Some x)
  then have "b = Some x \<or> b = Some (x\<lparr>ci_repudiated := True\<rparr>)"
    using assms(1) by (simp add: commit_extends_def)
  then show ?thesis
    using assms(2) Some by (elim disjE) (simp_all add: commit_extends_def)
qed simp

lemma info_extends_refl [simp]: "info_extends a a"
  by (simp add: info_extends_def)

lemma info_extends_trans:
  assumes "info_extends a b" and "info_extends b c"
  shows "info_extends a c"
  using assms commit_extends_trans[of "mi_committed a" "mi_committed b" "mi_committed c"]
  unfolding info_extends_def by (elim conjE, intro conjI impI; simp)

lemma info_extends_failed: "info_extends m (fold_failed_info r d m)"
  by (cases "mi_committed m"; cases "mi_failure_reason m"; cases "is_pre_commit_crash r")
    (simp_all add: info_extends_def fold_failed_info_def Let_def)

lemma info_extends_repudiated: "info_extends m (fold_repudiated_info q m)"
  by (cases "mi_committed m") (simp_all add: info_extends_def fold_repudiated_info_def)

lemma info_extends_step: "info_extends m (info_step e m)"
  by (cases e; cases "mi_committed m")
    (simp_all add: info_extends_failed info_extends_repudiated, simp_all add: info_extends_def)

lemma info_extends_step_for: "info_extends m (fold (step_for i) es m)"
proof (induction es arbitrary: m)
  case (Cons e es)
  have "info_extends m (step_for i e m)"
    by (simp add: step_for_def info_extends_step)
  from info_extends_trans[OF this Cons.IH] show ?case
    by simp
qed simp

lemma info_extends_facts: "info_extends (facts a) (facts b) = info_extends a b"
  by (simp add: info_extends_def facts_def)

lemma run_ops_extends:
  assumes "run_ops mat ops st = Inr st'"
  shows "info_extends (moteinfo st i) (moteinfo st' i)"
proof -
  have "info_extends (facts (moteinfo st i)) (facts (moteinfo st' i))"
    unfolding run_ops_facts[OF assms] by (rule info_extends_step_for)
  then show ?thesis
    by (simp only: info_extends_facts)
qed

lemma extends_redispatch:
  assumes "info_extends (moteinfo st i) (moteinfo st' i)"
    and "mi_effect_staged_observed (moteinfo st i)" and "\<not> can_redispatch_world_effect_id st i"
  shows "\<not> can_redispatch_world_effect_id st' i"
  using assms unfolding can_redispatch_info info_extends_def
  by (cases "mi_committed (moteinfo st i)"; cases "mi_committed (moteinfo st' i)") auto

text \<open>The recorded failure is the first terminal one before any commit.\<close>

fun first_terminal :: "mote_id \<Rightarrow> journal_entry list \<Rightarrow> failed_entry option" where
  "first_terminal i [] = None"
| "first_terminal i (Committed c # es) = (if c_mote_id c = i then None else first_terminal i es)"
| "first_terminal i (Failed f # es) =
     (if f_mote_id f = i \<and> \<not> is_pre_commit_crash (f_reason_class f) then Some f else first_terminal i es)"
| "first_terminal i (_ # es) = first_terminal i es"

definition failure_pair :: "mote_info \<Rightarrow> failure_reason option \<times> rstring" where
  "failure_pair m = (mi_failure_reason m, mi_failure_detail m)"

lemma failure_pair_fixed:
  "mi_committed m \<noteq> None \<or> mi_failure_reason m \<noteq> None \<Longrightarrow>
     failure_pair (fold (step_for i) es m) = failure_pair m"
proof (induction es arbitrary: m)
  case (Cons e es)
  have "failure_pair (step_for i e m) = failure_pair m \<and>
      (mi_committed (step_for i e m) \<noteq> None \<or> mi_failure_reason (step_for i e m) \<noteq> None)"
    using Cons.prems
    by (cases e) (auto simp: failure_pair_def step_for_def fold_failed_info_def fold_repudiated_info_def
        Let_def split: option.splits)
  then show ?case
    using Cons.IH by simp
qed simp

lemma failure_pair_first:
  "mi_committed m = None \<Longrightarrow> mi_failure_reason m = None \<Longrightarrow> mi_failure_detail m = [] \<Longrightarrow>
     failure_pair (fold (step_for i) es m) =
       (case first_terminal i es of None \<Rightarrow> (None, []) | Some f \<Rightarrow> (Some (f_reason_class f), f_detail f))"
proof (induction es arbitrary: m)
  case Nil
  then show ?case by (simp add: failure_pair_def)
next
  case (Cons e es)
  have fixed: ?case if "e = Committed c" "c_mote_id c = i" for c
    using that Cons.prems failure_pair_fixed[of "step_for i e m" i es]
    by (simp add: failure_pair_def)
  have fixed': ?case if "e = Failed f" "f_mote_id f = i" "\<not> is_pre_commit_crash (f_reason_class f)" for f
    using that Cons.prems failure_pair_fixed[of "step_for i e m" i es]
    by (simp add: failure_pair_def fold_failed_info_def Let_def)
  have step: ?case if "first_terminal i (e # es) = first_terminal i es"
      "mi_committed (step_for i e m) = None" "mi_failure_reason (step_for i e m) = None"
      "mi_failure_detail (step_for i e m) = []"
    using that Cons.IH by simp
  show ?case
  proof (cases e)
    case (Committed c)
    then show ?thesis using fixed step Cons.prems by (cases "c_mote_id c = i") (auto simp: step_for_def)
  next
    case (Failed f)
    then show ?thesis using fixed' step Cons.prems
      by (cases "f_mote_id f = i \<and> \<not> is_pre_commit_crash (f_reason_class f)")
        (auto simp: step_for_def fold_failed_info_def Let_def)
  qed (rule step; use Cons.prems in \<open>simp add: step_for_def fold_repudiated_info_def\<close>)+
qed

lemma failure_of_info:
  "(failure_reason_of st i, failure_detail_of st i) = failure_pair (facts (moteinfo st i))"
  by (simp add: failure_reason_of_def failure_detail_of_def failure_pair_def facts_def moteinfo_def
      mote_info_default_def split: option.splits)

lemma run_ops_failure:
  assumes "run_ops mat ops pstate_default = Inr st"
  shows "(failure_reason_of st i, failure_detail_of st i) =
    (case first_terminal i (entries_of ops) of None \<Rightarrow> (None, []) | Some f \<Rightarrow> (Some (f_reason_class f), f_detail f))"
  using run_ops_facts[OF assms, of i] failure_pair_first[of mote_info_default i "entries_of ops"]
  by (simp add: failure_of_info)

section \<open>A replay fails only on a second commit\<close>

lemma run_ops_no_error:
  assumes "\<And>i. one_commit i (entries_of ops)"
  shows "\<exists>st. run_ops None ops pstate_default = Inr st"
  using assms
proof (induction ops rule: rev_induct)
  case (snoc x ops)
  have one: "one_commit i (entries_of ops)" for i
    using snoc.prems[of i] by (cases x) (simp_all add: one_commit_def)
  then obtain st where st: "run_ops None ops pstate_default = Inr st"
    using snoc.IH by blast
  have "\<exists>st'. run_ops None [x] st = Inr st'"
  proof (cases x)
    case (FoldE e)
    have "\<not> (is_committed i e \<and> log_committed i (entries_of ops))" for i
      using snoc.prems[of i] FoldE by (simp add: one_commit_def)
    then have "e = Committed c \<Longrightarrow> mi_committed (moteinfo st (c_mote_id c)) = None" for c
      using committed_iff_log[OF st one, of "c_mote_id c"] is_committed.simps(1) by blast
    then have "\<exists>st'. fold_step None e st = (Inr (), st')"
      by (cases e) (simp_all add: fold_committed_entry_def Let_def)
    then show ?thesis
      unfolding FoldE run_ops_FoldE .
  qed simp
  then show ?case
    using st by (simp add: run_ops_append)
qed simp

lemma fold_all_no_error:
  "(\<And>i. one_commit i es) \<Longrightarrow> \<exists>st. fold_all None es pstate_default = Inr st"
  using run_ops_no_error[of "map FoldE es"] by (simp add: fold_all_run_ops)

text \<open>The frontier: the largest sequence number folded.\<close>

lemma last_seq_advance [simp]: "st_last_seq (advance_seq s st) = max (st_last_seq st) s"
  by (simp add: advance_seq_def)

lemma last_seq_reindex [simp]: "st_last_seq (reindex_child_edges c old st) = st_last_seq st"
  by (simp add: reindex_child_edges_def)

lemma last_seq_register [simp]: "st_last_seq (register_mote reg st) = st_last_seq st"
  by (simp add: register_mote_def set_declared_def)

lemma last_seq_register_all [simp]: "st_last_seq (fold register_mote regs st) = st_last_seq st"
  by (induction regs arbitrary: st) simp_all

lemma last_seq_index [simp]:
  "st_last_seq (index_last_react_round st) = st_last_seq st"
  "st_last_seq (index_last_approval st) = st_last_seq st"
  by (simp_all add: index_last_react_round_def index_last_approval_def Let_def)

lemma fold_step_last_seq:
  "fold_step mat e st = (Inr (), st') \<Longrightarrow> st_last_seq st' = max (st_last_seq st) (entry_seq e)"
  by (cases e) (auto simp: fold_committed_entry_def Let_def split: if_splits option.splits sum.splits)

lemma run_ops_last_seq:
  "run_ops mat ops st = Inr st' \<Longrightarrow>
     st_last_seq st' = fold max (map entry_seq (entries_of ops)) (st_last_seq st)"
proof (induction mat ops st rule: run_ops.induct)
  case (3 mat e ops st)
  then obtain v st1 where e: "fold_entry mat e st = (Inr v, st1)" and rest: "run_ops mat ops st1 = Inr st'"
    by (auto split: prod.splits sum.splits)
  then show ?case
    using 3(1)[OF e[symmetric] refl rest] fold_step_last_seq[of mat e st st1]
    by (simp add: fold_entry_eq_Inr max.commute)
qed simp_all

section \<open>The derived indices of the run metadata are exact\<close>

definition idxs_of :: "('a \<Rightarrow> bool) \<Rightarrow> 'a list \<Rightarrow> nat list" where
  "idxs_of P xs = filter (\<lambda>k. P (xs ! k)) [0..<length xs]"

lemma idxs_of_Nil [simp]: "idxs_of P [] = []"
  by (simp add: idxs_of_def)

lemma idxs_of_snoc [simp]: "idxs_of P (xs @ [x]) = idxs_of P xs @ (if P x then [length xs] else [])"
proof -
  have "filter (\<lambda>k. P ((xs @ [x]) ! k)) [0..<length xs] = filter (\<lambda>k. P (xs ! k)) [0..<length xs]"
    by (rule filter_cong) (simp_all add: nth_append)
  then show ?thesis
    by (simp add: idxs_of_def)
qed

lemma idxs_of_bound: "k \<in> set (idxs_of P xs) \<Longrightarrow> k < length xs"
  by (simp add: idxs_of_def)

lemma map_nth_idxs_of: "map ((!) xs) (idxs_of P xs) = filter P xs"
proof (induction xs rule: rev_induct)
  case (snoc x xs)
  have "map ((!) (xs @ [x])) (idxs_of P xs) = map ((!) xs) (idxs_of P xs)"
    by (rule map_cong) (auto simp: nth_append dest: idxs_of_bound)
  then show ?case
    using snoc by simp
qed simp

lemma idxs_of_eq_Nil: "idxs_of P xs = [] \<longleftrightarrow> filter P xs = []"
  by (metis map_nth_idxs_of map_is_Nil_conv)

definition last_opt :: "'a list \<Rightarrow> 'a option" where
  "last_opt xs = (if xs = [] then None else Some (last xs))"

lemma last_opt_simps [simp]: "last_opt [] = None" "last_opt [x] = Some x"
  by (simp_all add: last_opt_def)

lemma last_opt_append: "last_opt (xs @ ys) = (if ys = [] then last_opt xs else last_opt ys)"
  by (simp add: last_opt_def)

lemma last_opt_map: "last_opt (map f xs) = map_option f (last_opt xs)"
  by (simp add: last_opt_def last_map)

definition chain_of :: "array16 \<Rightarrow> array32 option \<Rightarrow> react_round_record \<Rightarrow> bool" where
  "chain_of inst salt r \<longleftrightarrow> ra_instance_id r = inst \<and> ra_step_salt r = salt"

definition react_index_ok :: "pstate \<Rightarrow> bool" where
  "react_index_ok st \<longleftrightarrow>
     bt_inv (st_react_index st) \<and>
     (\<forall>inst chs. map_of (st_react_index st) inst = Some chs \<longrightarrow> bt_inv chs) \<and>
     (\<forall>inst salt. (case map_of (st_react_index st) inst of None \<Rightarrow> None | Some chs \<Rightarrow> map_of chs salt) =
        (let v = idxs_of (chain_of inst salt) (st_react_rounds st) in if v = [] then None else Some v)) \<and>
     st_react_turn_motes st = ra_turn_mote_id ` set (st_react_rounds st) \<and>
     (\<forall>i. map_of (st_react_tool_round_of_turn st) i =
        last_opt (idxs_of (\<lambda>r. ra_turn_mote_id r = i \<and> is_tool_branch (ra_branch r)) (st_react_rounds st)))"

definition approval_index_ok :: "pstate \<Rightarrow> bool" where
  "approval_index_ok st \<longleftrightarrow>
     (\<forall>rid. map_of (st_approval_index st) rid =
        last_opt (idxs_of (\<lambda>a. ap_request_id a = rid) (st_approvals st)))"

lemma react_index_push:
  assumes "react_index_ok st"
  shows "react_index_ok (index_last_react_round (st\<lparr>st_react_rounds := st_react_rounds st @ [r]\<rparr>))"
proof -
  let ?st = "index_last_react_round (st\<lparr>st_react_rounds := st_react_rounds st @ [r]\<rparr>)"
  let ?chs = "case map_of (st_react_index st) (ra_instance_id r) of None \<Rightarrow> [] | Some c \<Rightarrow> c"
  have chs: "bt_inv ?chs"
    using assms by (auto simp: react_index_ok_def split: option.splits)
  have idx: "st_react_index ?st = bt_insert (ra_instance_id r)
      (bt_entry_upd (ra_step_salt r) [] (\<lambda>v. v @ [length (st_react_rounds st)]) ?chs) (st_react_index st)"
    by (simp add: index_last_react_round_def Let_def)
  have old: "(case map_of (st_react_index st) inst of None \<Rightarrow> None | Some c \<Rightarrow> map_of c salt) =
      (if idxs_of (chain_of inst salt) (st_react_rounds st) = [] then None
       else Some (idxs_of (chain_of inst salt) (st_react_rounds st)))" for inst salt
    using assms by (simp add: react_index_ok_def Let_def)
  have old': "map_of ?chs salt =
      (if idxs_of (chain_of (ra_instance_id r) salt) (st_react_rounds st) = [] then None
       else Some (idxs_of (chain_of (ra_instance_id r) salt) (st_react_rounds st)))" for salt
    using old[where inst = "ra_instance_id r" and salt = salt] by (auto split: option.splits if_splits)
  have "(case map_of (st_react_index ?st) inst of None \<Rightarrow> None | Some c \<Rightarrow> map_of c salt) =
      (let v = idxs_of (chain_of inst salt) (st_react_rounds ?st) in if v = [] then None else Some v)"
    for inst salt
  proof (cases "inst = ra_instance_id r")
    case True
    then show ?thesis
      using old'[of salt]
      by (cases "salt = ra_step_salt r")
        (auto simp: idx index_last_react_round_def Let_def chain_of_def)
  next
    case False
    then show ?thesis
      using old[where inst = inst and salt = salt] by (simp add: idx index_last_react_round_def Let_def chain_of_def)
  qed
  moreover have "bt_inv (st_react_index ?st) \<and>
      (\<forall>inst c. map_of (st_react_index ?st) inst = Some c \<longrightarrow> bt_inv c)"
    using assms chs by (auto simp: idx react_index_ok_def)
  ultimately show ?thesis
    using assms by (auto simp: react_index_ok_def index_last_react_round_def Let_def last_opt_append)
qed

lemma approval_index_push:
  "approval_index_ok st \<Longrightarrow>
     approval_index_ok (index_last_approval (st\<lparr>st_approvals := st_approvals st @ [a]\<rparr>))"
  by (auto simp: approval_index_ok_def index_last_approval_def Let_def last_opt_append)

text \<open>The metadata part of the state: the folded rounds and approvals, with their indices.\<close>

fun react_entries :: "journal_entry list \<Rightarrow> react_round_record list" where
  "react_entries [] = []"
| "react_entries (ReactRound e # es) = e # react_entries es"
| "react_entries (_ # es) = react_entries es"

fun approval_entries :: "journal_entry list \<Rightarrow> approval_record list" where
  "approval_entries [] = []"
| "approval_entries (Approval e # es) = e # approval_entries es"
| "approval_entries (_ # es) = approval_entries es"

definition same_metadata :: "pstate \<Rightarrow> pstate \<Rightarrow> bool" where
  "same_metadata a b \<longleftrightarrow>
     st_react_rounds a = st_react_rounds b \<and> st_react_index a = st_react_index b \<and>
     st_react_turn_motes a = st_react_turn_motes b \<and>
     st_react_tool_round_of_turn a = st_react_tool_round_of_turn b \<and>
     st_approvals a = st_approvals b \<and> st_approval_index a = st_approval_index b"

definition metadata_ok :: "journal_entry list \<Rightarrow> pstate \<Rightarrow> bool" where
  "metadata_ok es st \<longleftrightarrow>
     st_react_rounds st = react_entries es \<and> react_index_ok st \<and>
     st_approvals st = approval_entries es \<and> approval_index_ok st"

lemma metadata_ok_cong: "same_metadata a b \<Longrightarrow> metadata_ok es a = metadata_ok es b"
  by (simp add: same_metadata_def metadata_ok_def react_index_ok_def approval_index_ok_def)

lemma same_metadata_simps [simp]:
  "same_metadata st (advance_seq s st') = same_metadata st st'"
  "same_metadata st (moteinfo_upd i f st') = same_metadata st st'"
  "same_metadata st (reindex_child_edges c old st') = same_metadata st st'"
  "same_metadata st (register_mote reg st') = same_metadata st st'"
  "same_metadata st st"
  by (simp_all add: same_metadata_def advance_seq_def reindex_child_edges_def register_mote_def set_declared_def)

lemma same_metadata_register_all [simp]:
  "same_metadata st (fold register_mote regs st') = same_metadata st st'"
  by (induction regs arbitrary: st') simp_all

lemma react_entries_append [simp]: "react_entries (es @ es') = react_entries es @ react_entries es'"
  by (induction es rule: react_entries.induct) auto

lemma approval_entries_append [simp]:
  "approval_entries (es @ es') = approval_entries es @ approval_entries es'"
  by (induction es rule: approval_entries.induct) auto

lemma metadata_ok_advance: "metadata_ok es (advance_seq s st) = metadata_ok es st"
  by (rule metadata_ok_cong) (simp add: same_metadata_def advance_seq_def)

lemma fold_step_metadata:
  assumes "metadata_ok es st"
  shows "metadata_ok (es @ [e]) (snd (fold_step mat e st))"
proof (cases e)
  case (ReactRound r)
  have "metadata_ok (es @ [e]) (index_last_react_round (st\<lparr>st_react_rounds := st_react_rounds st @ [r]\<rparr>))"
    using assms react_index_push[of st r]
    by (simp add: ReactRound metadata_ok_def approval_index_ok_def index_last_react_round_def Let_def)
  then show ?thesis
    by (simp add: ReactRound metadata_ok_advance)
next
  case (Approval a)
  have "metadata_ok (es @ [e]) (index_last_approval (st\<lparr>st_approvals := st_approvals st @ [a]\<rparr>))"
    using assms approval_index_push[of st a]
    by (simp add: Approval metadata_ok_def react_index_ok_def index_last_approval_def Let_def)
  then show ?thesis
    by (simp add: Approval metadata_ok_advance)
next
  case (Committed c)
  have "same_metadata st (snd (fold_step mat e st))"
    by (simp add: Committed fold_committed_entry_def Let_def split: option.splits sum.splits)
  then have "metadata_ok es (snd (fold_step mat e st))"
    using assms metadata_ok_cong by blast
  then show ?thesis
    by (simp add: Committed metadata_ok_def)
qed (use assms in \<open>simp_all add: metadata_ok_def react_index_ok_def approval_index_ok_def advance_seq_def\<close>)

lemma metadata_ok_default: "metadata_ok [] pstate_default"
  by (simp add: metadata_ok_def react_index_ok_def approval_index_ok_def pstate_default_def)

lemma run_ops_metadata: "run_ops mat ops pstate_default = Inr st \<Longrightarrow> metadata_ok (entries_of ops) st"
proof (induction ops arbitrary: st rule: rev_induct)
  case Nil
  then show ?case by (simp add: metadata_ok_default)
next
  case (snoc x ops)
  then obtain st1 where st1: "run_ops mat ops pstate_default = Inr st1" and x: "run_ops mat [x] st1 = Inr st"
    by (auto simp: run_ops_append and_then_eq_Inr)
  have ok: "metadata_ok (entries_of ops) st1" by (rule snoc.IH[OF st1])
  show ?case
  proof (cases x)
    case (FoldE e)
    then have "fold_step mat e st1 = (Inr (), st)"
      using x run_ops_FoldE by metis
    then show ?thesis
      using fold_step_metadata[OF ok, of e mat] FoldE by simp
  next
    case (Register reg)
    moreover have "metadata_ok (entries_of ops) (register_mote reg st1)"
      using ok metadata_ok_cong[of st1 "register_mote reg st1"] by simp
    ultimately show ?thesis
      using x by simp
  qed
qed

lemma react_rounds_of_ok:
  "react_index_ok st \<Longrightarrow> react_rounds_of st inst salt = filter (chain_of inst salt) (st_react_rounds st)"
proof -
  assume ok: "react_index_ok st"
  have "(case map_of (st_react_index st) inst of None \<Rightarrow> None | Some chs \<Rightarrow> map_of chs salt) =
      (if idxs_of (chain_of inst salt) (st_react_rounds st) = [] then None
       else Some (idxs_of (chain_of inst salt) (st_react_rounds st)))"
    using ok by (simp add: react_index_ok_def Let_def)
  then have "react_rounds_of st inst salt =
      map (\<lambda>k. st_react_rounds st ! k) (idxs_of (chain_of inst salt) (st_react_rounds st))"
    by (auto simp: react_rounds_of_def split: option.splits if_splits)
  then show ?thesis
    using map_nth_idxs_of[of "st_react_rounds st" "chain_of inst salt"] by simp
qed

lemma mem_react_chains:
  assumes "bt_inv (st_react_index st)"
  shows "(inst, salt) \<in> set (react_chains st) \<longleftrightarrow>
    (\<exists>chs v. map_of (st_react_index st) inst = Some chs \<and> map_of chs salt = Some v)"
proof -
  have "(inst, salt) \<in> set (react_chains st) \<longleftrightarrow>
      (\<exists>chs. (inst, chs) \<in> set (st_react_index st) \<and> salt \<in> fst ` set chs)"
    by (auto simp: react_chains_def bt_keys_def)
  also have "\<dots> \<longleftrightarrow> (\<exists>chs. map_of (st_react_index st) inst = Some chs \<and> salt \<in> dom (map_of chs))"
    using bt_inv_distinct[OF assms] by (simp add: dom_map_of_conv_image_fst)
  finally show ?thesis
    by (simp add: dom_def)
qed

lemma react_chains_ok:
  assumes ok: "react_index_ok st"
  shows "set (react_chains st) = (\<lambda>r. (ra_instance_id r, ra_step_salt r)) ` set (st_react_rounds st)"
proof -
  have "x \<in> set (react_chains st) \<longleftrightarrow>
      (\<exists>r \<in> set (st_react_rounds st). x = (ra_instance_id r, ra_step_salt r))" for x
  proof (cases x)
    case (Pair inst salt)
    have look: "(case map_of (st_react_index st) inst of None \<Rightarrow> None | Some chs \<Rightarrow> map_of chs salt) =
      (if filter (chain_of inst salt) (st_react_rounds st) = [] then None
       else Some (idxs_of (chain_of inst salt) (st_react_rounds st)))"
      using ok by (simp add: react_index_ok_def Let_def idxs_of_eq_Nil)
    have "x \<in> set (react_chains st) \<longleftrightarrow>
        (case map_of (st_react_index st) inst of None \<Rightarrow> None | Some chs \<Rightarrow> map_of chs salt) \<noteq> None"
      using ok mem_react_chains[of st inst salt]
      by (cases "map_of (st_react_index st) inst") (simp_all add: Pair react_index_ok_def)
    also have "\<dots> \<longleftrightarrow> filter (chain_of inst salt) (st_react_rounds st) \<noteq> []"
      unfolding look by simp
    finally show ?thesis
      by (auto simp: Pair filter_empty_conv chain_of_def)
  qed
  then show ?thesis
    by blast
qed

lemma last_idxs_of:
  "last_opt (filter P xs) = map_option ((!) xs) (last_opt (idxs_of P xs))"
  by (simp add: map_nth_idxs_of flip: last_opt_map)

lemma last_idxs_bound: "last_opt (idxs_of P xs) = Some k \<Longrightarrow> k < length xs"
  using idxs_of_bound[of k P xs] by (auto simp: last_opt_def split: if_splits)

lemma approval_latest_ok:
  "approval_index_ok st \<Longrightarrow>
     approval_latest_for st rid = last_opt (filter (\<lambda>a. ap_request_id a = rid) (st_approvals st))"
  unfolding last_idxs_of
  by (auto simp: approval_index_ok_def approval_latest_for_def nth_opt_def split: option.splits
      dest: last_idxs_bound)

lemma tool_round_ok:
  "react_index_ok st \<Longrightarrow>
     react_tool_round_of_turn st i =
       last_opt (filter (\<lambda>r. ra_turn_mote_id r = i \<and> is_tool_branch (ra_branch r)) (st_react_rounds st))"
  unfolding last_idxs_of by (simp add: react_index_ok_def react_tool_round_of_turn_def)

end
