(* ===== verification/Kx_Projection_Properties.thy ===== *)
theory Kx_Projection_Properties
  imports Kx_Projection_Laws
begin

text \<open>
  The properties of the projection: its state read off the log, safe re-dispatch, monotone
  facts, exact indices, and total replay of a well-keyed journal.
\<close>

section \<open>Reachable projections\<close>

text \<open>
  Every state a projection can be left in, errors included: a fold that fails has already
  changed the state it was given.
\<close>

inductive proj_reach :: "materializer option \<Rightarrow> pstate \<Rightarrow> bool" for mat where
  new: "proj_reach mat pstate_default"
| register: "proj_reach mat st \<Longrightarrow> proj_reach mat (register_mote reg st)"
| foldE: "proj_reach mat st \<Longrightarrow> fold_entry mat e st = (r, st') \<Longrightarrow> proj_reach mat st'"

inductive_cases proj_reachE: "proj_reach mat st"

lemma proj_reach_children_ok: "proj_reach mat st \<Longrightarrow> children_ok st"
proof (induction rule: proj_reach.induct)
  case (foldE st e r st')
  then show ?case
    using fold_step_children_ok[of st mat e] by (metis fold_entry_snd snd_conv)
qed (simp_all add: register_mote_children_ok)

lemma run_ops_reach: "proj_reach mat st \<Longrightarrow> run_ops mat ops st = Inr st' \<Longrightarrow> proj_reach mat st'"
proof (induction mat ops st rule: run_ops.induct)
  case (3 mat e ops st)
  then show ?case
    by (auto split: prod.splits sum.splits intro: proj_reach.foldE)
qed (auto intro: proj_reach.intros)

section \<open>Replaying a journal\<close>

fun well_keyed :: "journal_entry \<Rightarrow> bool" where
  "well_keyed (Committed c) = (c_idempotency_key c = c_mote_id c)"
| "well_keyed _ = True"

lemma unique_keys_one_commit:
  assumes "facts_unique es" and "\<forall>e \<in> set es. well_keyed e"
  shows "one_commit i es"
proof -
  have "\<not> (is_committed i e \<and> log_committed i xs)" if "es = xs @ e # ys" for xs e ys
  proof
    assume "is_committed i e \<and> log_committed i xs"
    then obtain c d where e: "e = Committed c" "c_mote_id c = i" and d: "Committed d \<in> set xs" "c_mote_id d = i"
      by (cases e) (auto simp: log_committed_def list_ex_iff elim: is_committed.elims)
    then have "c_idempotency_key c = i" "c_idempotency_key d = i"
      using bspec[OF assms(2), of e] bspec[OF assms(2), of "Committed d"] that e d by simp_all
    moreover have "Committed d \<in> set (filter dedupes xs)" "dedupes e"
      using d e by (simp_all add: dedupes_def)
    ultimately have "(entry_kind e, idempotency_key e) \<in> (\<lambda>e. (entry_kind e, idempotency_key e)) ` set (filter dedupes xs)"
      using e by (intro image_eqI[of _ _ "Committed d"]) simp_all
    then show False
      using assms(1) that \<open>dedupes e\<close> by (simp add: facts_unique_def)
  qed
  then show ?thesis
    by (auto simp: one_commit_def occurs_def)
qed

lemma read_from_zero:
  assumes "journal_inv blake3 j" and "length (j_entries j) + 1 < 2 ^ 64"
  shows "read_entries_by_seq 0 (current_seq j + 1) j = j_entries j"
proof -
  have dense: "seqs_dense (j_entries j)" and len: "length (j_entries j) < 2 ^ 64"
    using assms by (simp_all add: journal_inv_def)
  have "1 \<le> entry_seq e" if mem: "e \<in> set (j_entries j)" for e
  proof -
    obtain k where k: "k < length (j_entries j)" "e = j_entries j ! k"
      using mem by (auto simp: in_set_conv_nth)
    then have "unat (entry_seq e) = Suc k"
      using entry_seq_nth[OF dense _ len] by simp
    then show ?thesis
      by (simp add: word_le_nat_alt)
  qed
  then have "filter (\<lambda>e. 0 \<le> entry_seq e \<and> entry_seq e < current_seq j + 1) (j_entries j) =
      filter (\<lambda>e. 1 \<le> entry_seq e \<and> entry_seq e < current_seq j + 1) (j_entries j)"
    by (intro filter_cong refl) simp
  then have "read_entries_by_seq 0 (current_seq j + 1) j = read_entries_by_seq 1 (current_seq j + 1) j"
    by (simp only: read_entries_by_seq_def)
  then show ?thesis
    using read_all[OF assms] by simp
qed

lemma fold_max_mono: "m \<le> fold max xs m" for m :: "'a::linorder"
  by (induction xs arbitrary: m) (auto intro: order_trans[OF max.cobounded2])

lemma fold_max_sorted: "sorted xs \<Longrightarrow> \<forall>x \<in> set xs. m \<le> x \<Longrightarrow> fold max xs m = (if xs = [] then m else last xs)"
  for m :: "'a::linorder"
  by (induction xs arbitrary: m) (auto simp: max_def)

lemma journal_frontier:
  assumes "journal_inv blake3 j" and "length (j_entries j) < 2 ^ 64"
  shows "fold max (map entry_seq (j_entries j)) 0 = current_seq j"
proof (cases "j_entries j = []")
  case True
  then show ?thesis
    using assms by (simp add: journal_inv_def current_seq_def)
next
  case False
  have dense: "seqs_dense (j_entries j)"
    using assms by (simp add: journal_inv_def)
  have "sorted (map entry_seq (j_entries j))"
    using seqs_dense_sorted[OF dense assms(2)] by (simp add: strict_sorted_iff)
  then have "fold max (map entry_seq (j_entries j)) 0 = last (map entry_seq (j_entries j))"
    using False by (simp add: fold_max_sorted)
  also have "\<dots> = of_nat (length (j_entries j))"
    using False dense by (simp add: last_conv_nth seqs_dense_def del: of_nat_Suc)
  finally show ?thesis
    using assms by (simp add: journal_inv_def current_seq_def)
qed

lemma from_journal_replay:
  assumes "journal_inv blake3 j" and "length (j_entries j) + 1 < 2 ^ 64"
    and "from_journal_mat mat j = Inr st"
  shows "run_ops mat (map FoldE (j_entries j)) pstate_default = Inr st"
  using assms(3) read_from_zero[OF assms(1,2)] by (simp add: from_journal_mat_def fold_all_run_ops)

section \<open>Properties\<close>

text \<open>
  C4: after any interleaving of registrations and folds that succeeds, the state of every
  Mote is the declarative reading of the folded log: an uncommitted staged effect that was
  repudiated is inconsistent, then commit and repudiation, then a terminal failure (which
  wins over a staged effect), then a staged effect in flight, then a retryable failure not
  followed by a proposal, then a proposal. Registrations do not influence it.
\<close>

theorem projection_state_from_log:
  assumes "run_ops mat ops pstate_default = Inr st"
  shows "state_of_id st i = log_state i (entries_of ops)"
  by (rule run_ops_state[OF assms])

text \<open>
  C5: a world effect may be re-dispatched exactly when the log has it staged, holds no
  commit and no terminal failure of that Mote, and no repudiation after the staging.
\<close>

theorem redispatch_exact:
  assumes "run_ops mat ops pstate_default = Inr st"
  defines "es \<equiv> entries_of ops"
  shows "can_redispatch_world_effect_id st i \<longleftrightarrow>
    log_staged i es \<and> \<not> log_committed i es \<and> \<not> list_ex (is_terminal_failed i) es \<and> \<not> log_inconsistent i es"
proof -
  have "log_terminal i es \<longleftrightarrow> list_ex (is_terminal_failed i) es" if "\<not> log_committed i es"
    using that by (induction es rule: rev_induct) (auto simp: log_occurs_snoc)
  then show ?thesis
    using run_ops_redispatch[OF assms(1)] unfolding es_def by blast
qed

text \<open>
  Folding more of the log only adds facts about a Mote. No flag is reset, a commit keeps
  its content and can at most become repudiated, and the recorded failure reason and detail
  never change.
\<close>

theorem projection_facts_only_grow:
  assumes "run_ops mat ops st = Inr st'"
  shows "info_extends (moteinfo st i) (moteinfo st' i)"
  by (rule run_ops_extends[OF assms])

text \<open>
  Once the effect of a Mote has been staged and its re-dispatch is refused, no further
  registration or fold ever permits it again.
\<close>

theorem redispatch_refusal_is_final:
  assumes "run_ops mat ops1 pstate_default = Inr st1" and "log_staged i (entries_of ops1)"
    and "\<not> can_redispatch_world_effect_id st1 i" and "run_ops mat ops2 st1 = Inr st2"
  shows "\<not> can_redispatch_world_effect_id st2 i"
proof -
  have "mi_effect_staged_observed (moteinfo st1 i)"
    using run_ops_log_info[OF assms(1), of i] assms(2) by (simp add: log_info_ok_def facts_def)
  then show ?thesis
    using extends_redispatch[OF run_ops_extends[OF assms(4)]] assms(3) by blast
qed

text \<open>
  C27: in every reachable projection, also after a fold that failed, the incrementally kept
  reverse edge index equals the index rebuilt from scratch from the parents of all Motes.
\<close>

theorem children_index_exact:
  assumes "proj_reach mat st"
  shows "st_children st = rebuild_children st"
  using proj_reach_children_ok[OF assms] by (simp add: children_ok_def)

text \<open>
  The failure a Mote reports, reason and detail together, is that of its first terminal
  failure before any commit.
\<close>

theorem failure_is_first_terminal:
  assumes "run_ops mat ops pstate_default = Inr st"
  shows "(failure_reason_of st i, failure_detail_of st i) =
    (case first_terminal i (entries_of ops) of
       None \<Rightarrow> (None, [])
     | Some f \<Rightarrow> (Some (f_reason_class f), f_detail f))"
  by (rule run_ops_failure[OF assms])

text \<open>
  The derived metadata indices answer as a scan of the log would: the rounds of a chain
  in log order, exactly the chains that have a round, the tool-firing round of a turn, and the
  latest approval of a request.
\<close>

theorem metadata_indices_exact:
  assumes "run_ops mat ops pstate_default = Inr st"
  defines "rounds \<equiv> react_entries (entries_of ops)"
  shows "react_rounds_of st inst salt =
      filter (\<lambda>r. ra_instance_id r = inst \<and> ra_step_salt r = salt) rounds \<and>
    set (react_chains st) = (\<lambda>r. (ra_instance_id r, ra_step_salt r)) ` set rounds \<and>
    react_tool_round_of_turn st i =
      last_opt (filter (\<lambda>r. ra_turn_mote_id r = i \<and> is_tool_branch (ra_branch r)) rounds) \<and>
    approval_latest_for st rid =
      last_opt (filter (\<lambda>a. ap_request_id a = rid) (approval_entries (entries_of ops)))"
proof -
  have ok: "metadata_ok (entries_of ops) st"
    by (rule run_ops_metadata[OF assms(1)])
  then have "react_index_ok st" "approval_index_ok st" "st_react_rounds st = rounds"
    "st_approvals st = approval_entries (entries_of ops)"
    by (simp_all add: metadata_ok_def rounds_def)
  then show ?thesis
    using react_rounds_of_ok[of st inst salt] react_chains_ok[of st] tool_round_ok[of st i]
      approval_latest_ok[of st rid]
    by (simp add: chain_of_def[abs_def])
qed

lemma replay_run:
  assumes "journal_inv blake3 j" and "length (j_entries j) + 1 < 2 ^ 64"
    and "\<forall>e \<in> set (j_entries j). well_keyed e"
  shows "\<exists>st. from_journal j = Inr st \<and> run_ops None (map FoldE (j_entries j)) pstate_default = Inr st"
proof -
  have "one_commit i (j_entries j)" for i
    using assms by (intro unique_keys_one_commit) (simp_all add: journal_inv_def)
  then obtain st where "run_ops None (map FoldE (j_entries j)) pstate_default = Inr st"
    using run_ops_no_error[of "map FoldE (j_entries j)"] by auto
  moreover from this have "from_journal j = Inr st"
    using read_from_zero[OF assms(1,2)] by (simp add: from_journal_def from_journal_mat_def fold_all_run_ops)
  ultimately show ?thesis by blast
qed

text \<open>
  C20: a journal in which every \<open>Committed\<close> entry carries its Mote id as the key always
  replays: no duplicate commit is met, the frontier is the head of the journal, and every
  Mote is in the state its log says.
\<close>

theorem journal_replay_total:
  assumes "journal_inv blake3 j" and "length (j_entries j) + 1 < 2 ^ 64"
    and "\<forall>e \<in> set (j_entries j). well_keyed e"
  shows "\<exists>st. from_journal j = Inr st \<and> st_last_seq st = current_seq j \<and>
    (\<forall>i. state_of_id st i = log_state i (j_entries j))"
proof -
  obtain st where st: "from_journal j = Inr st" "run_ops None (map FoldE (j_entries j)) pstate_default = Inr st"
    using replay_run[OF assms] by blast
  then have "st_last_seq st = current_seq j"
    using run_ops_last_seq[OF st(2)] journal_frontier[OF assms(1)] assms(2)
    by (simp add: pstate_default_def)
  then show ?thesis
    using st run_ops_state[OF st(2)] by simp
qed

text \<open>
  The interleaving of different Motes does not matter. Two runs whose logs agree on the
  entries about a Mote leave that Mote in the same state with the same commit and failure.
\<close>

theorem projection_interleaving:
  assumes "run_ops mat ops1 pstate_default = Inr st1" and "run_ops mat ops2 pstate_default = Inr st2"
    and "filter (\<lambda>e. entry_target e = Some i) (entries_of ops1) =
         filter (\<lambda>e. entry_target e = Some i) (entries_of ops2)"
  shows "state_of_id st1 i = state_of_id st2 i \<and> committed_of st1 i = committed_of st2 i \<and>
    failure_reason_of st1 i = failure_reason_of st2 i \<and> failure_detail_of st1 i = failure_detail_of st2 i"
proof -
  have eq: "facts (moteinfo st1 i) = facts (moteinfo st2 i)"
    using run_ops_facts[OF assms(1), of i] run_ops_facts[OF assms(2), of i] assms(3)
    by (simp flip: fold_step_for)
  have "state_of_id st1 i = state_of_id st2 i"
    using eq by (metis state_of_id_info state_of_info_facts)
  moreover have "committed_of st1 i = committed_of st2 i"
    using eq by (metis committed_of_info facts_committed(2))
  moreover have "(failure_reason_of st1 i, failure_detail_of st1 i) = (failure_reason_of st2 i, failure_detail_of st2 i)"
    unfolding failure_of_info eq ..
  ultimately show ?thesis
    by simp
qed

section \<open>Witnesses\<close>

definition ent_staged :: "mote_id \<Rightarrow> u64 \<Rightarrow> journal_entry" where
  "ent_staged i s = EffectStaged \<lparr>es_mote_id = i, es_idempotency_key = i, es_seq = s\<rparr>"

definition ent_failed :: "mote_id \<Rightarrow> failure_reason \<Rightarrow> rstring \<Rightarrow> u64 \<Rightarrow> journal_entry" where
  "ent_failed i r d s = Failed \<lparr>f_mote_id = i, f_idempotency_key = i, f_seq = s, f_reason_class = r,
     f_reporter_id = 0, f_detail = d\<rparr>"

definition ent_committed :: "mote_id \<Rightarrow> nd_class \<Rightarrow> parent_entry list \<Rightarrow> u64 \<Rightarrow> journal_entry" where
  "ent_committed i nd ps s = Committed \<lparr>c_mote_id = i, c_idempotency_key = i, c_seq = s,
     c_nondeterminism = nd, c_result_ref = 9, c_parents = ps, c_warrant_ref = 3, c_mote_def_hash = 4\<rparr>"

definition ent_approval :: "array16 \<Rightarrow> approval_state \<Rightarrow> u64 \<Rightarrow> journal_entry" where
  "ent_approval rid a s = Approval \<lparr>ap_instance_id = 1, ap_request_id = rid, ap_awaiting_mote_id = 7,
     ap_state = a, ap_seq = s\<rparr>"

lemmas sample_entry_defs = ent_staged_def ent_failed_def ent_committed_def ent_approval_def

text \<open>Mote 7 is staged, times out and is dead-lettered; Mote 8 depends on 5 and commits.\<close>

definition sample_ops :: "proj_op list" where
  "sample_ops =
     [FoldE (ent_staged 7 1),
      FoldE (ent_failed 7 TimedOut [] 2),
      Register \<lparr>rg_mote_id = 8, rg_nd_class = Pure, rg_effect_pattern = IdempotentByConstruction,
        rg_critic_for = None, rg_is_topology_shaper = False,
        rg_parents = [\<lparr>pr_parent_id = 5, pr_edge = \<lparr>em_kind = Data, em_non_cascade = False\<rparr>\<rparr>],
        rg_warrant_ref = 3\<rparr>,
      FoldE (ent_failed 7 DeadLettered [1] 3),
      FoldE (ent_failed 7 ExecutorRefused [2] 4),
      FoldE (ent_committed 8 Pure [] 5),
      FoldE (ent_approval 2 (Expired 1) 6)]"

lemma sample_ops_runs: "\<exists>st. run_ops None sample_ops pstate_default = Inr st"
  by (simp add: sample_ops_def sample_entry_defs fold_entry_def Let_def fold_committed_entry_def
      register_mote_def set_declared_def pstate_default_def moteinfo_def moteinfo_upd_def
      bt_entry_upd_def advance_seq_def reindex_child_edges_def fold_failed_info_def mote_info_default_def)

lemmas sample_log_simps = sample_ops_def sample_entry_defs log_state_def log_inconsistent_def log_terminal_def
  log_repudiated_def occurs_Cons log_committed_def log_staged_def

theorem projection_state_from_log_witness:
  "\<exists>st. run_ops None sample_ops pstate_default = Inr st \<and> state_of_id st 7 = MsFailed \<and>
     state_of_id st 8 = MsCommitted"
proof -
  obtain st where st: "run_ops None sample_ops pstate_default = Inr st"
    using sample_ops_runs by blast
  have "log_state 7 (entries_of sample_ops) = MsFailed" "log_state 8 (entries_of sample_ops) = MsCommitted"
    by (simp_all add: sample_log_simps)
  then show ?thesis
    using st projection_state_from_log[OF st, of 7] projection_state_from_log[OF st, of 8] by auto
qed

theorem redispatch_exact_witness:
  "\<exists>st. run_ops None (take 3 sample_ops) pstate_default = Inr st \<and> can_redispatch_world_effect_id st 7 \<and>
     \<not> can_redispatch_world_effect_id st 8"
proof -
  obtain st where st: "run_ops None (take 3 sample_ops) pstate_default = Inr st"
    using sample_ops_runs run_ops_append[of None "take 3 sample_ops" "drop 3 sample_ops" pstate_default]
    by (auto simp: and_then_eq_Inr)
  show ?thesis
    using st redispatch_exact[OF st, of 7] redispatch_exact[OF st, of 8]
    by (auto simp: sample_log_simps)
qed

theorem projection_facts_only_grow_witness:
  "\<exists>st. run_ops None sample_ops pstate_default = Inr st \<and> info_extends (moteinfo pstate_default 7) (moteinfo st 7)"
  using sample_ops_runs projection_facts_only_grow by blast

theorem redispatch_refusal_is_final_witness:
  "\<exists>st1 st2. run_ops None (take 4 sample_ops) pstate_default = Inr st1 \<and>
     run_ops None (drop 4 sample_ops) st1 = Inr st2 \<and> \<not> can_redispatch_world_effect_id st2 7"
proof -
  obtain st1 st2 where st: "run_ops None (take 4 sample_ops) pstate_default = Inr st1"
      "run_ops None (drop 4 sample_ops) st1 = Inr st2"
    using sample_ops_runs run_ops_append[of None "take 4 sample_ops" "drop 4 sample_ops" pstate_default]
    by (auto simp: and_then_eq_Inr)
  have "\<not> can_redispatch_world_effect_id st1 7"
    using run_ops_redispatch[OF st(1), of 7] by (simp add: sample_log_simps)
  then show ?thesis
    using st redispatch_refusal_is_final[OF st(1) _ _ st(2), of 7] by (auto simp: sample_log_simps)
qed

theorem children_index_exact_witness:
  "\<exists>st. run_ops None sample_ops pstate_default = Inr st \<and> st_children st = rebuild_children st"
  using sample_ops_runs run_ops_reach[OF proj_reach.new] children_index_exact by blast

theorem failure_is_first_terminal_witness:
  "\<exists>st. run_ops None sample_ops pstate_default = Inr st \<and>
     failure_reason_of st 7 = Some DeadLettered \<and> failure_detail_of st 7 = [1]"
proof -
  obtain st where st: "run_ops None sample_ops pstate_default = Inr st"
    using sample_ops_runs by blast
  then show ?thesis
    using failure_is_first_terminal[OF st, of 7] by (simp add: sample_ops_def sample_entry_defs)
qed

theorem metadata_indices_exact_witness:
  "\<exists>st. run_ops None sample_ops pstate_default = Inr st \<and>
     map_option ap_state (approval_latest_for st 2) = Some (Expired 1)"
proof -
  obtain st where st: "run_ops None sample_ops pstate_default = Inr st"
    using sample_ops_runs by blast
  then show ?thesis
    using metadata_indices_exact[OF st, where rid = 2] by (simp add: sample_ops_def sample_entry_defs)
qed

theorem journal_replay_total_witness:
  "\<exists>st. from_journal two_staged = Inr st \<and> state_of_id st 7 = log_state 7 (j_entries two_staged)"
  using journal_replay_total[OF two_staged_inv] by (auto simp: two_staged_def staged_def)

theorem projection_interleaving_witness:
  "\<exists>st1 st2. run_ops None [FoldE (ent_staged 7 1), FoldE (ent_staged 8 2)] pstate_default = Inr st1 \<and>
     run_ops None [FoldE (ent_staged 8 2), FoldE (ent_staged 7 1)] pstate_default = Inr st2 \<and>
     state_of_id st1 7 = state_of_id st2 7"
proof -
  obtain st1 st2 where st:
    "run_ops None [FoldE (ent_staged 7 1), FoldE (ent_staged 8 2)] pstate_default = Inr st1"
    "run_ops None [FoldE (ent_staged 8 2), FoldE (ent_staged 7 1)] pstate_default = Inr st2"
    by (simp add: sample_entry_defs fold_entry_def)
  then show ?thesis
    using projection_interleaving[OF st, of 7] by (simp add: sample_entry_defs)
qed

section \<open>Divergences from the documentation\<close>

text \<open>
  \<open>can_redispatch_world_effect\<close> is documented to stay false once it returned false; it is
  false before the staging and true after it.
\<close>

lemma redispatch_can_become_true:
  "\<exists>st st'. run_ops None [] pstate_default = Inr st \<and> \<not> can_redispatch_world_effect_id st 7 \<and>
     run_ops None [FoldE (ent_staged 7 1)] st = Inr st' \<and> can_redispatch_world_effect_id st' 7"
  by (simp add: sample_entry_defs fold_entry_def can_redispatch_world_effect_id_def pstate_default_def
      moteinfo_upd_def bt_entry_upd_def advance_seq_def mote_info_default_def)

text \<open>
  \<open>fold_many\<close> is documented to leave the state at the entry before the failing one; when the
  materializer fails, the commit of the failing entry has already been applied.
\<close>

lemma fold_many_keeps_failing_commit:
  "\<exists>err st. fold_many (Some (\<lambda>_ _ r _. Inl (ContentStoreFetch r []))) [ent_committed 7 Pure [] 1] pstate_default
     = (Inl err, st) \<and> state_of_id st 7 = MsCommitted"
  by (simp add: fold_many_def fold_entry_def sample_entry_defs fold_committed_entry_def Let_def
      state_of_id_info state_of_info_def committed_info_of_def mote_info_default_def)

end
