(* ===== verification/Kx_Projection_Ready.thy ===== *)
theory Kx_Projection_Ready
  imports Kx_Projection_Properties Kx_Critic_Types
begin

text \<open>
  The queries that drive scheduling (\<open>crates/kx-projection/src/helpers.rs\<close> and
  \<open>promotion.rs\<close>): the cascade of consumers behind a Mote, the critic promotion gate and the
  ready set with its per-pass memo of promotion states.
\<close>

section \<open>Transitive consumers\<close>

definition should_walk :: "edge_meta \<Rightarrow> bool" where
  "should_walk edge = (case em_kind edge of Data \<Rightarrow> True | Control \<Rightarrow> \<not> em_non_cascade edge)"

fun walk_child ::
  "(mote_id \<times> edge_meta) \<Rightarrow> (mote_id set \<times> mote_id list \<times> mote_id list) \<Rightarrow>
   (mote_id set \<times> mote_id list \<times> mote_id list)"
where
  "walk_child (child, edge) (visited, order, queue) =
     (if \<not> should_walk edge then (visited, order, queue)
      else if child \<in> visited then (visited, order, queue)
      else (insert child visited, order @ [child], queue @ [child]))"

definition walkable :: "(mote_id \<times> edge_meta) list \<Rightarrow> mote_id set" where
  "walkable cs = {c. \<exists>e. (c, e) \<in> set cs \<and> should_walk e}"

lemma walkable_Nil [simp]: "walkable [] = {}"
  by (simp add: walkable_def)

lemma walkable_Cons [simp]:
  "walkable ((c, e) # cs) = (if should_walk e then insert c (walkable cs) else walkable cs)"
  by (auto simp: walkable_def)

lemma walk_children:
  "\<exists>fresh. fold walk_child cs (visited, order, queue) = (visited \<union> set fresh, order @ fresh, queue @ fresh) \<and>
     distinct fresh \<and> set fresh = walkable cs - visited"
proof (induction cs arbitrary: visited order queue)
  case (Cons x cs)
  obtain c e where x: "x = (c, e)" by (cases x)
  show ?case
  proof (cases "should_walk e \<and> c \<notin> visited")
    case True
    obtain fresh where fresh: "fold walk_child cs (insert c visited, order @ [c], queue @ [c]) =
        (insert c visited \<union> set fresh, (order @ [c]) @ fresh, (queue @ [c]) @ fresh)"
        "distinct fresh" "set fresh = walkable cs - insert c visited"
      using Cons by blast
    then show ?thesis
      using True x by (intro exI[of _ "c # fresh"]) auto
  next
    case False
    obtain fresh where fresh: "fold walk_child cs (visited, order, queue) =
        (visited \<union> set fresh, order @ fresh, queue @ fresh)"
        "distinct fresh" "set fresh = walkable cs - visited"
      using Cons by blast
    then show ?thesis
      using False x by (intro exI[of _ fresh]) auto
  qed
qed simp

definition index_motes :: "child_index \<Rightarrow> mote_id set" where
  "index_motes idx = fst ` set (concat (map snd idx))"

lemma finite_index_motes [simp]: "finite (index_motes idx)"
  by (simp add: index_motes_def)

lemma walkable_adj: "walkable (adj idx p) \<subseteq> index_motes idx"
proof
  fix c assume c: "c \<in> walkable (adj idx p)"
  then obtain v where v: "map_of idx p = Some v"
    by (cases "map_of idx p") (simp_all add: adj_def)
  then obtain e where "(c, e) \<in> set v"
    using c by (auto simp: walkable_def adj_def)
  with v show "c \<in> index_motes idx"
    by (force simp: index_motes_def dest: map_of_SomeD)
qed

function consumers_loop :: "child_index \<Rightarrow> mote_id set \<Rightarrow> mote_id list \<Rightarrow> mote_id list \<Rightarrow> mote_id list" where
  "consumers_loop idx visited order [] = order"
| "consumers_loop idx visited order (current # queue) =
     (case fold walk_child (adj idx current) (visited, order, queue) of
        (visited', order', queue') \<Rightarrow> consumers_loop idx visited' order' queue')"
  by pat_completeness auto

termination
proof (relation "measure (\<lambda>(idx, visited, order, queue). card (index_motes idx - visited) + length queue)")
  fix idx :: child_index and visited order current queue visited' y order' queue'
  assume "(visited', y) = fold walk_child (adj idx current) (visited, order, queue)"
    and "(order', queue') = y"
  then obtain fresh where fresh: "visited' = visited \<union> set fresh" "queue' = queue @ fresh"
      "distinct fresh" "set fresh = walkable (adj idx current) - visited"
    using walk_children[of "adj idx current" visited order queue] by auto
  then have "set fresh \<subseteq> index_motes idx - visited"
    using walkable_adj by blast
  then have "card (index_motes idx - visited - set fresh) + card (set fresh) = card (index_motes idx - visited)"
    by (simp add: card_Diff_subset card_mono)
  moreover have "index_motes idx - visited' = index_motes idx - visited - set fresh"
    using fresh(1) by blast
  ultimately have "card (index_motes idx - visited') + length fresh = card (index_motes idx - visited)"
    using fresh(3) by (simp add: distinct_card)
  then show "((idx, visited', order', queue'), (idx, visited, order, current # queue)) \<in>
      measure (\<lambda>(idx, visited, order, queue). card (index_motes idx - visited) + length queue)"
    using fresh(2) by simp
qed simp

definition transitive_consumers :: "pstate \<Rightarrow> mote_id \<Rightarrow> mote_id list" where
  "transitive_consumers st root = consumers_loop (st_children st) {} [] [root]"

text \<open>The cascade relation of an index, and the closure the loop computes.\<close>

definition cascade :: "child_index \<Rightarrow> (mote_id \<times> mote_id) set" where
  "cascade idx = {(p, c). c \<in> walkable (adj idx p)}"

lemma consumers_loop_correct:
  assumes "visited = set order" and "distinct order"
    and "set queue \<subseteq> insert root visited" and "visited \<subseteq> (cascade idx)\<^sup>+ `` {root}"
    and "\<And>p. p \<in> insert root visited - set queue \<Longrightarrow> walkable (adj idx p) \<subseteq> visited"
  shows "distinct (consumers_loop idx visited order queue) \<and>
    set (consumers_loop idx visited order queue) = (cascade idx)\<^sup>+ `` {root}"
  using assms
proof (induction idx visited order queue rule: consumers_loop.induct)
  case (1 idx visited order)
  have "(cascade idx)\<^sup>+ `` {root} \<subseteq> visited"
  proof
    fix x assume "x \<in> (cascade idx)\<^sup>+ `` {root}"
    then have "(root, x) \<in> (cascade idx)\<^sup>+" by simp
    then show "x \<in> visited"
      using 1(5) by (induction rule: trancl_induct) (auto simp: cascade_def)
  qed
  then show ?case
    using 1 by auto
next
  case (2 idx visited order current queue)
  obtain fresh where step: "fold walk_child (adj idx current) (visited, order, queue) =
      (visited \<union> set fresh, order @ fresh, queue @ fresh)"
      "distinct fresh" "set fresh = walkable (adj idx current) - visited"
    using walk_children by blast
  have cur: "current \<in> insert root visited"
    using 2(4) by auto
  have reach: "set fresh \<subseteq> (cascade idx)\<^sup>+ `` {root}"
  proof
    fix c assume "c \<in> set fresh"
    then have edge: "(current, c) \<in> cascade idx"
      using step(3) by (simp add: cascade_def)
    then show "c \<in> (cascade idx)\<^sup>+ `` {root}"
      using cur 2(5) by (auto intro: trancl_into_trancl)
  qed
  have "distinct (consumers_loop idx (visited \<union> set fresh) (order @ fresh) (queue @ fresh)) \<and>
      set (consumers_loop idx (visited \<union> set fresh) (order @ fresh) (queue @ fresh)) = (cascade idx)\<^sup>+ `` {root}"
  proof (rule 2(1)[OF step(1)[symmetric] refl])
    show "walkable (adj idx p) \<subseteq> visited \<union> set fresh"
      if "p \<in> insert root (visited \<union> set fresh) - set (queue @ fresh)" for p
      using that 2(6)[of p] step(3) by (cases "p = current") auto
  qed (use 2(2-5) step(2,3) reach in auto)
  then show ?case
    by (simp add: step(1))
qed

lemma transitive_consumers_closure:
  "distinct (transitive_consumers st root) \<and>
   set (transitive_consumers st root) = (cascade (st_children st))\<^sup>+ `` {root}"
  unfolding transitive_consumers_def by (rule consumers_loop_correct) auto

section \<open>Promotion (promotion.rs)\<close>

type_synonym verdict_lookup = "content_ref \<Rightarrow> critic_verdict option"

text \<open>
  The content-addressed lookup: \<open>get\<close> is the content store's read, \<open>dec\<close> the third-party body
  codec, and a blob that does not decode is no verdict.
\<close>

definition content_store_verdicts ::
  "(bytes \<Rightarrow> (critic_verdict \<times> nat) option) \<Rightarrow> (content_ref \<Rightarrow> bytes option) \<Rightarrow> verdict_lookup"
where
  "content_store_verdicts dec get r =
     (case get r of
        None \<Rightarrow> None
      | Some bs \<Rightarrow> (case verdict_decode dec bs of Inl _ \<Rightarrow> None | Inr v \<Rightarrow> Some v))"

definition no_verdicts :: verdict_lookup where
  "no_verdicts _ = None"

definition critic_step ::
  "mote_id \<Rightarrow> verdict_lookup \<Rightarrow> mote_info \<Rightarrow> bool \<times> bool \<Rightarrow> bool \<times> bool"
where
  "critic_step producer lookup info = (\<lambda>(saw_critic, all_valid).
     (case mi_declared info of
        None \<Rightarrow> (saw_critic, all_valid)
      | Some d \<Rightarrow>
          if di_critic_for d \<noteq> Some producer then (saw_critic, all_valid)
          else (case mi_committed info of
              None \<Rightarrow> (True, False)
            | Some c \<Rightarrow>
                if ci_repudiated c then (True, False)
                else (case lookup (ci_result_ref c) of
                    Some v \<Rightarrow> if verdict_is_valid v then (True, all_valid) else (True, False)
                  | None \<Rightarrow> (True, False)))))"

definition promotion_state_with :: "pstate \<Rightarrow> mote_id \<Rightarrow> verdict_lookup \<Rightarrow> promotion_state" where
  "promotion_state_with st producer lookup =
     (let (saw_critic, all_valid) =
        fold (critic_step producer lookup) (map snd (st_motes st)) (False, True) in
      if \<not> saw_critic then NotApplicable else if all_valid then Promoted else Unpromoted)"

definition promotion_state_impl :: "pstate \<Rightarrow> mote_id \<Rightarrow> promotion_state" where
  "promotion_state_impl st i = NotApplicable"

section \<open>The ready set (helpers.rs)\<close>

type_synonym promo_memo = "(mote_id, promotion_state) btree"

definition promo_cached ::
  "(pstate \<Rightarrow> mote_id \<Rightarrow> promotion_state) \<Rightarrow> pstate \<Rightarrow> mote_id \<Rightarrow> promo_memo \<Rightarrow> promotion_state \<times> promo_memo"
where
  "promo_cached promotion st p memo =
     (case map_of memo p of
        Some r \<Rightarrow> (r, memo)
      | None \<Rightarrow> let r = promotion st p in (r, bt_insert p r memo))"

fun parents_loop ::
  "(pstate \<Rightarrow> mote_id \<Rightarrow> promotion_state) \<Rightarrow> pstate \<Rightarrow> declared_info \<Rightarrow> parent_ref list \<Rightarrow> promo_memo \<Rightarrow>
   bool \<times> promo_memo"
where
  "parents_loop promotion st d [] memo = (True, memo)"
| "parents_loop promotion st d (p # ps) memo =
     (let pid = pr_parent_id p in
      if state_of_id st pid \<noteq> MsCommitted then (False, memo)
      else if di_critic_for d = Some pid then parents_loop promotion st d ps memo
      else (case map_of (st_motes st) pid of
          None \<Rightarrow> parents_loop promotion st d ps memo
        | Some pinfo \<Rightarrow>
            (case mi_committed pinfo of
               None \<Rightarrow> parents_loop promotion st d ps memo
             | Some c \<Rightarrow>
                 if ci_nondeterminism c = WorldMutating
                 then (case promo_cached promotion st pid memo of
                     (promo, memo') \<Rightarrow>
                       if promo = Unpromoted then (False, memo')
                       else parents_loop promotion st d ps memo')
                 else parents_loop promotion st d ps memo)))"

fun ready_loop ::
  "(pstate \<Rightarrow> mote_id \<Rightarrow> promotion_state) \<Rightarrow> pstate \<Rightarrow> (mote_id \<times> mote_info) list \<Rightarrow> promo_memo \<Rightarrow>
   mote_id list \<Rightarrow> mote_id list"
where
  "ready_loop promotion st [] memo out = out"
| "ready_loop promotion st ((i, info) # ms) memo out =
     (if state_of_id st i \<noteq> MsPending then ready_loop promotion st ms memo out
      else (case mi_declared info of
          None \<Rightarrow> ready_loop promotion st ms memo out
        | Some d \<Rightarrow>
            (case parents_loop promotion st d (di_parents d) memo of
               (ok, memo') \<Rightarrow> ready_loop promotion st ms memo' (if ok then out @ [i] else out))))"

definition ready_set_impl_with :: "(pstate \<Rightarrow> mote_id \<Rightarrow> promotion_state) \<Rightarrow> pstate \<Rightarrow> mote_id list" where
  "ready_set_impl_with promotion st = ready_loop promotion st (st_motes st) [] []"

definition ready_set :: "pstate \<Rightarrow> mote_id list" where
  "ready_set st = ready_set_impl_with promotion_state_impl st"

definition ready_set_promoted :: "pstate \<Rightarrow> verdict_lookup \<Rightarrow> mote_id list" where
  "ready_set_promoted st lookup = ready_set_impl_with (\<lambda>s i. promotion_state_with s i lookup) st"

definition ready_set_auto :: "pstate \<Rightarrow> verdict_lookup option \<Rightarrow> mote_id list" where
  "ready_set_auto st verdicts =
     (if \<not> has_declared_critic st then ready_set st
      else (case verdicts of
          Some v \<Rightarrow> ready_set_promoted st v
        | None \<Rightarrow> ready_set_promoted st no_verdicts))"

section \<open>What the gate decides\<close>

text \<open>A critic of the producer whose committed verdict is \<open>Valid\<close>.\<close>

definition critic_of :: "mote_id \<Rightarrow> mote_info \<Rightarrow> bool" where
  "critic_of producer info \<longleftrightarrow> (\<exists>d. mi_declared info = Some d \<and> di_critic_for d = Some producer)"

definition passed :: "verdict_lookup \<Rightarrow> mote_info \<Rightarrow> bool" where
  "passed lookup info \<longleftrightarrow>
     (\<exists>c v. mi_committed info = Some c \<and> \<not> ci_repudiated c \<and> lookup (ci_result_ref c) = Some v \<and>
        verdict_is_valid v)"

lemma critic_step_eq:
  "critic_step producer lookup info (saw, ok) =
     (saw \<or> critic_of producer info, ok \<and> (critic_of producer info \<longrightarrow> passed lookup info))"
  by (auto simp: critic_step_def critic_of_def passed_def split: option.splits)

lemma critic_fold:
  "fold (critic_step producer lookup) infos (saw, ok) =
     (saw \<or> (\<exists>m \<in> set infos. critic_of producer m),
      ok \<and> (\<forall>m \<in> set infos. critic_of producer m \<longrightarrow> passed lookup m))"
  by (induction infos arbitrary: saw ok) (auto simp: critic_step_eq)

lemma promotion_state_with_eq:
  "promotion_state_with st producer lookup =
     (if \<not> (\<exists>m \<in> set (map snd (st_motes st)). critic_of producer m) then NotApplicable
      else if (\<forall>m \<in> set (map snd (st_motes st)). critic_of producer m \<longrightarrow> passed lookup m) then Promoted
      else Unpromoted)"
  unfolding promotion_state_with_def critic_fold by simp

lemma unpromoted_iff:
  "promotion_state_with st producer lookup = Unpromoted \<longleftrightarrow>
     (\<exists>m \<in> set (map snd (st_motes st)). critic_of producer m \<and> \<not> passed lookup m)"
  unfolding promotion_state_with_eq by auto

text \<open>The decision for one Mote without the memo.\<close>

definition gated_by :: "pstate \<Rightarrow> mote_id \<Rightarrow> bool" where
  "gated_by st p \<longleftrightarrow> (\<exists>c. committed_of st p = Some c \<and> ci_nondeterminism c = WorldMutating)"

definition parent_ok ::
  "(pstate \<Rightarrow> mote_id \<Rightarrow> promotion_state) \<Rightarrow> pstate \<Rightarrow> declared_info \<Rightarrow> mote_id \<Rightarrow> bool"
where
  "parent_ok promotion st d p \<longleftrightarrow>
     state_of_id st p = MsCommitted \<and>
     (di_critic_for d = Some p \<or> \<not> gated_by st p \<or> promotion st p \<noteq> Unpromoted)"

definition ready_spec ::
  "(pstate \<Rightarrow> mote_id \<Rightarrow> promotion_state) \<Rightarrow> pstate \<Rightarrow> mote_id \<Rightarrow> mote_info \<Rightarrow> bool"
where
  "ready_spec promotion st i info \<longleftrightarrow>
     state_of_id st i = MsPending \<and>
     (\<exists>d. mi_declared info = Some d \<and> (\<forall>p \<in> set (di_parents d). parent_ok promotion st d (pr_parent_id p)))"

definition memo_ok :: "(pstate \<Rightarrow> mote_id \<Rightarrow> promotion_state) \<Rightarrow> pstate \<Rightarrow> promo_memo \<Rightarrow> bool" where
  "memo_ok promotion st memo \<longleftrightarrow> (\<forall>p r. map_of memo p = Some r \<longrightarrow> r = promotion st p)"

lemma promo_cached_ok:
  "memo_ok promotion st memo \<Longrightarrow>
     fst (promo_cached promotion st p memo) = promotion st p \<and>
     memo_ok promotion st (snd (promo_cached promotion st p memo))"
  by (auto simp: memo_ok_def promo_cached_def Let_def split: option.splits)

lemma parents_loop_ok:
  "memo_ok promotion st memo \<Longrightarrow>
     fst (parents_loop promotion st d ps memo) = (\<forall>p \<in> set ps. parent_ok promotion st d (pr_parent_id p)) \<and>
     memo_ok promotion st (snd (parents_loop promotion st d ps memo))"
proof (induction ps arbitrary: memo)
  case (Cons p ps)
  let ?p = "pr_parent_id p"
  obtain promo memo' where cached: "promo_cached promotion st ?p memo = (promo, memo')"
    by (cases "promo_cached promotion st ?p memo")
  then have "promo = promotion st ?p" "memo_ok promotion st memo'"
    using promo_cached_ok[OF Cons.prems, of ?p] by simp_all
  then show ?case
    using Cons.IH[OF Cons.prems] Cons.IH[of memo'] Cons.prems cached
    by (auto simp: Let_def parent_ok_def gated_by_def committed_of_def split: option.splits)
qed simp

lemma ready_loop_ok:
  "memo_ok promotion st memo \<Longrightarrow>
     ready_loop promotion st ms memo out = out @ map fst (filter (\<lambda>(i, info). ready_spec promotion st i info) ms)"
proof (induction promotion st ms memo out rule: ready_loop.induct)
  case (2 promotion st i info ms memo out)
  show ?case
  proof (cases "state_of_id st i = MsPending")
    case True
    show ?thesis
    proof (cases "mi_declared info")
      case None
      then show ?thesis using 2 True by (simp add: ready_spec_def)
    next
      case (Some d)
      obtain ok memo' where loop: "parents_loop promotion st d (di_parents d) memo = (ok, memo')"
        by (cases "parents_loop promotion st d (di_parents d) memo")
      then have "ok = (\<forall>p \<in> set (di_parents d). parent_ok promotion st d (pr_parent_id p))"
          "memo_ok promotion st memo'"
        using parents_loop_ok[OF 2(4), of d "di_parents d"] by simp_all
      then show ?thesis
        using 2(3) True Some loop by (simp add: ready_spec_def)
    qed
  next
    case False
    then show ?thesis using 2 by (simp add: ready_spec_def)
  qed
qed simp

lemma ready_set_impl_with_eq:
  "ready_set_impl_with promotion st =
     map fst (filter (\<lambda>(i, info). ready_spec promotion st i info) (st_motes st))"
  by (simp add: ready_set_impl_with_def ready_loop_ok memo_ok_def)

section \<open>Properties\<close>

text \<open>Edges of the index are edges of the declared parents.\<close>

lemma mem_contrib: "(x, e) \<in> set (contrib c es p) \<longleftrightarrow> x = c \<and> (p, e) \<in> set es"
  by (force simp: contrib_def)

lemma mem_adj_spec:
  assumes "bt_inv (st_motes st)"
  shows "(c, e) \<in> set (adj_spec st p) \<longleftrightarrow> (p, e) \<in> set (parents_of_id st c)"
proof -
  have "c \<in> set (bt_keys (st_motes st))" if "(p, e) \<in> set (parents_of_id st c)"
  proof -
    have "map_of (st_motes st) c \<noteq> None"
      using that by (cases "map_of (st_motes st) c") (simp_all add: parents_of_id_def)
    then show ?thesis
      by (simp add: bt_keys_def map_of_eq_None_iff)
  qed
  then show ?thesis
    by (auto simp: adj_spec_def mem_contrib)
qed

lemma children_parents:
  assumes "children_ok st"
  shows "(c, e) \<in> set (adj (st_children st) p) \<longleftrightarrow> (p, e) \<in> set (parents_of_id st c)"
  using assms mem_adj_spec[of st] adj_rebuild[of st] by (simp add: children_ok_def)

definition cascading_parent :: "pstate \<Rightarrow> (mote_id \<times> mote_id) set" where
  "cascading_parent st = {(p, c). \<exists>e. (p, e) \<in> set (parents_of_id st c) \<and> should_walk e}"

text \<open>
  C37: the breadth-first cascade walk ends, lists no Mote twice, and returns exactly the Motes
  reachable from the root through one or more parent edges that cascade (every data edge, and
  every control edge not marked non-cascading).
\<close>

theorem transitive_consumers_exact:
  assumes "proj_reach mat st"
  shows "distinct (transitive_consumers st root) \<and>
    set (transitive_consumers st root) = {c. (root, c) \<in> (cascading_parent st)\<^sup>+}"
proof -
  have "cascade (st_children st) = cascading_parent st"
    using children_parents[OF proj_reach_children_ok[OF assms]]
    by (auto simp: cascade_def walkable_def cascading_parent_def)
  then show ?thesis
    using transitive_consumers_closure[of st root] by auto
qed

lemma reach_motes_inv: "proj_reach mat st \<Longrightarrow> bt_inv (st_motes st)"
  using proj_reach_children_ok by (auto simp: children_ok_def)

lemma no_critic_unpromoted:
  "\<not> has_declared_critic st \<Longrightarrow> promotion_state_with st p lookup \<noteq> Unpromoted"
  by (auto simp: unpromoted_iff has_declared_critic_def list_ex_iff critic_of_def split: option.splits)

lemma ready_spec_cong:
  assumes "\<And>p. (pr st p = Unpromoted) = (pr' st p = Unpromoted)"
  shows "ready_spec pr st = ready_spec pr' st"
  using assms by (simp add: ready_spec_def parent_ok_def fun_eq_iff)

definition effective_lookup :: "verdict_lookup option \<Rightarrow> verdict_lookup" where
  "effective_lookup verdicts = (case verdicts of Some v \<Rightarrow> v | None \<Rightarrow> no_verdicts)"

lemma ready_with_sorted:
  "bt_inv (st_motes st) \<Longrightarrow> sorted_wrt (<) (ready_set_impl_with promotion st)"
  by (auto simp: ready_set_impl_with_eq bt_inv_def sorted_wrt_map intro: sorted_wrt_filter)

lemma ready_with_mem:
  assumes "bt_inv (st_motes st)"
  shows "i \<in> set (ready_set_impl_with promotion st) \<longleftrightarrow> ready_spec promotion st i (moteinfo st i)"
proof -
  have "i \<in> set (ready_set_impl_with promotion st) \<longleftrightarrow>
      (\<exists>info. map_of (st_motes st) i = Some info \<and> ready_spec promotion st i info)"
    using bt_inv_distinct [OF assms] by (force simp: ready_set_impl_with_eq)
  then show ?thesis
    by (auto simp: moteinfo_def ready_spec_def mote_info_default_def split: option.splits)
qed

lemma ready_set_auto_eq:
  "ready_set_auto st verdicts =
     ready_set_impl_with (\<lambda>s p. promotion_state_with s p (effective_lookup verdicts)) st"
proof (cases "has_declared_critic st")
  case True
  then show ?thesis
    by (cases verdicts) (simp_all add: ready_set_auto_def ready_set_promoted_def effective_lookup_def)
next
  case False
  have "ready_spec promotion_state_impl st =
      ready_spec (\<lambda>s p. promotion_state_with s p (effective_lookup verdicts)) st"
    by (rule ready_spec_cong) (simp add: promotion_state_impl_def no_critic_unpromoted[OF False])
  then show ?thesis
    using False by (simp add: ready_set_auto_def ready_set_def ready_set_impl_with_eq)
qed

text \<open>
  C10: the ready set that feeds the scheduler, fast path and per-pass memo included, is
  ascending and holds exactly the declared pending Motes all of whose parents are committed
  and such that every world-mutating parent, other than the one the Mote is the critic of, has
  a committed, unrepudiated \<open>Valid\<close> verdict from each of its critics. Without a verdict store
  a producer with a critic blocks its consumers.
\<close>

theorem ready_set_auto_exact:
  assumes "proj_reach mat st"
  shows "sorted_wrt (<) (ready_set_auto st verdicts) \<and>
    (i \<in> set (ready_set_auto st verdicts) \<longleftrightarrow>
      state_of_id st i = MsPending \<and>
      (\<exists>d. mi_declared (moteinfo st i) = Some d \<and>
        (\<forall>p \<in> pr_parent_id ` set (di_parents d). state_of_id st p = MsCommitted \<and>
          (di_critic_for d = Some p \<or> nondeterminism_of st p \<noteq> Some WorldMutating \<or>
           (\<forall>m \<in> snd ` set (st_motes st). critic_of p m \<longrightarrow> passed (effective_lookup verdicts) m)))))"
proof -
  let ?pr = "\<lambda>s p. promotion_state_with s p (effective_lookup verdicts)"
  have inv: "bt_inv (st_motes st)" by (rule reach_motes_inv[OF assms])
  have "sorted_wrt (<) (ready_set_auto st verdicts)"
    by (simp add: ready_set_auto_eq ready_with_sorted [OF inv])
  moreover have "i \<in> set (ready_set_auto st verdicts) \<longleftrightarrow> ready_spec ?pr st i (moteinfo st i)"
    by (simp add: ready_set_auto_eq ready_with_mem [OF inv])
  moreover have "gated_by st p \<longleftrightarrow> nondeterminism_of st p = Some WorldMutating" for p
    by (auto simp: gated_by_def nondeterminism_of_def)
  ultimately show ?thesis
    by (simp add: ready_spec_def parent_ok_def unpromoted_iff)
qed

section \<open>Witnesses\<close>

text \<open>A world-mutating producer 1 with critic 2, a consumer 3 of both kinds of edge, and 4 behind it.\<close>

definition reg_of :: "mote_id \<Rightarrow> mote_id option \<Rightarrow> (mote_id \<times> edge_meta) list \<Rightarrow> register_mote_req" where
  "reg_of i critic ps = \<lparr>rg_mote_id = i, rg_nd_class = Pure, rg_effect_pattern = IdempotentByConstruction,
     rg_critic_for = critic, rg_is_topology_shaper = False,
     rg_parents = map (\<lambda>(p, e). \<lparr>pr_parent_id = p, pr_edge = e\<rparr>) ps, rg_warrant_ref = 3\<rparr>"

definition data_edge :: edge_meta where
  "data_edge = \<lparr>em_kind = Data, em_non_cascade = False\<rparr>"

definition quiet_edge :: edge_meta where
  "quiet_edge = \<lparr>em_kind = Control, em_non_cascade = True\<rparr>"

definition gate_ops :: "proj_op list" where
  "gate_ops =
     [FoldE (ent_committed 1 WorldMutating [] 1),
      Register (reg_of 2 (Some 1) [(1, data_edge)]),
      Register (reg_of 3 None [(1, data_edge)]),
      Register (reg_of 4 None [(3, data_edge)]),
      Register (reg_of 5 None [(1, quiet_edge)])]"

definition gate_state :: pstate where
  "gate_state = (case run_ops None gate_ops pstate_default of Inr st \<Rightarrow> st | Inl _ \<Rightarrow> pstate_default)"

lemmas run_eval = fold_entry_def Let_def fold_committed_entry_def register_mote_def set_declared_def
  pstate_default_def moteinfo_def moteinfo_upd_def bt_entry_upd_def advance_seq_def
  reindex_child_edges_def mote_info_default_def parents_of_id_def effective_parents_def
  committed_info_of_def insert_child_edge_def remove_child_entries_def

lemma gate_runs: "run_ops None gate_ops pstate_default = Inr gate_state"
  by (simp add: gate_state_def gate_ops_def reg_of_def ent_committed_def run_eval)

lemma gate_reach: "proj_reach None gate_state"
  by (rule run_ops_reach[OF proj_reach.new gate_runs])

theorem transitive_consumers_exact_witness:
  "distinct (transitive_consumers gate_state 1) \<and>
   set (transitive_consumers gate_state 1) = {c. (1, c) \<in> (cascading_parent gate_state)\<^sup>+}"
  by (rule transitive_consumers_exact[OF gate_reach])

theorem ready_set_auto_exact_witness:
  "2 \<in> set (ready_set_auto gate_state None) \<and> 3 \<notin> set (ready_set_auto gate_state None) \<and>
   sorted_wrt (<) (ready_set_auto gate_state None)"
proof -
  have st: "state_of_id gate_state 1 = MsCommitted" "state_of_id gate_state 2 = MsPending"
    "nondeterminism_of gate_state 1 = Some WorldMutating"
    by (simp_all add: gate_state_def gate_ops_def reg_of_def ent_committed_def run_eval state_of_id_def
        nondeterminism_of_def committed_of_def)
  have d2: "mi_declared (moteinfo gate_state 2) =
      Some \<lparr>di_nd_class = Pure, di_effect_pattern = IdempotentByConstruction, di_critic_for = Some 1,
        di_is_topology_shaper = False, di_parents = [\<lparr>pr_parent_id = 1, pr_edge = data_edge\<rparr>], di_warrant_ref = 3\<rparr>"
    by (simp add: gate_state_def gate_ops_def reg_of_def ent_committed_def run_eval)
  have d3: "mi_declared (moteinfo gate_state 3) =
      Some \<lparr>di_nd_class = Pure, di_effect_pattern = IdempotentByConstruction, di_critic_for = None,
        di_is_topology_shaper = False, di_parents = [\<lparr>pr_parent_id = 1, pr_edge = data_edge\<rparr>], di_warrant_ref = 3\<rparr>"
    by (simp add: gate_state_def gate_ops_def reg_of_def ent_committed_def run_eval)
  have "(2, moteinfo gate_state 2) \<in> set (st_motes gate_state)"
    by (simp add: gate_state_def gate_ops_def reg_of_def ent_committed_def run_eval)
  then have crit: "\<exists>m \<in> snd ` set (st_motes gate_state). critic_of 1 m \<and> \<not> passed (effective_lookup None) m"
    by (intro bexI[of _ "moteinfo gate_state 2"])
      (auto simp: critic_of_def d2 passed_def effective_lookup_def no_verdicts_def intro: rev_image_eqI)
  show ?thesis
    using ready_set_auto_exact[OF gate_reach, of None 2] ready_set_auto_exact[OF gate_reach, of None 3]
      st d2 d3 crit by auto
qed

end
