(* ===== verification/Kx_Warrant.thy ===== *)
theory Kx_Warrant
  imports Kx_Mote
begin

text \<open>
  Warrants (\<open>crates/kx-warrant\<close>): the capability envelope of a Mote, its monotone narrowing
  by a role, the tool requirement check and the role registry. The order \<open>warrant_le\<close> says
  that one warrant permits no more than another; \<open>intersect\<close> computes its meets.
\<close>

section \<open>Types (classes.rs, fields.rs, scope.rs, secret.rs, spec.rs)\<close>

datatype mote_class = McPure | McReadOnlyNondet | McWorldMutating

fun from_nd_class :: "nd_class \<Rightarrow> mote_class" where
  "from_nd_class Pure = McPure"
| "from_nd_class ReadOnlyNondet = McReadOnlyNondet"
| "from_nd_class WorldMutating = McWorldMutating"

fun to_nd_class :: "mote_class \<Rightarrow> nd_class" where
  "to_nd_class McPure = Pure"
| "to_nd_class McReadOnlyNondet = ReadOnlyNondet"
| "to_nd_class McWorldMutating = WorldMutating"

datatype executor_class = Bwrap | OciDaemon | CloudMicroVm | MacOsSandbox

datatype fs_mode = ReadOnly | ReadWrite | ExecOnly

fun fs_mode_is_subset_of :: "fs_mode \<Rightarrow> fs_mode \<Rightarrow> bool" where
  "fs_mode_is_subset_of ReadOnly ReadOnly = True"
| "fs_mode_is_subset_of ReadOnly ReadWrite = True"
| "fs_mode_is_subset_of ReadWrite ReadWrite = True"
| "fs_mode_is_subset_of ExecOnly ExecOnly = True"
| "fs_mode_is_subset_of _ _ = False"

datatype warrant_field =
    FsScopeF | NetScopeF | SyscallProfileF | ToolGrantsF | ModelRouteF | ResourceCeilingF
  | ExecutorClassF | EnvironmentRefF | SecretScopeF | CostCeilingF | TlsRequiredF

text \<open>\<open>FsScope\<close>: the mount points with their modes.\<close>

type_synonym fs_scope = "(rstring, fs_mode) btree"

definition fs_scope_is_subset_of :: "fs_scope \<Rightarrow> fs_scope \<Rightarrow> bool" where
  "fs_scope_is_subset_of self parent =
     list_all (\<lambda>(path, mode). case map_of parent path of
        None \<Rightarrow> False | Some p_mode \<Rightarrow> fs_mode_is_subset_of mode p_mode) self"

datatype net_scope = NetNone | EgressAllowlist "rstring set"

fun net_scope_is_subset_of :: "net_scope \<Rightarrow> net_scope \<Rightarrow> bool" where
  "net_scope_is_subset_of NetNone _ = True"
| "net_scope_is_subset_of (EgressAllowlist _) NetNone = False"
| "net_scope_is_subset_of (EgressAllowlist child) (EgressAllowlist parent) = (child \<subseteq> parent)"

datatype secret_scope = SecretNone | AllowList "rstring set"

fun secret_scope_is_subset_of :: "secret_scope \<Rightarrow> secret_scope \<Rightarrow> bool" where
  "secret_scope_is_subset_of SecretNone _ = True"
| "secret_scope_is_subset_of (AllowList _) SecretNone = False"
| "secret_scope_is_subset_of (AllowList child) (AllowList parent) = (child \<subseteq> parent)"

record tool_grant =
  tg_tool_id :: tool_name
  tg_tool_version :: tool_version

record model_route =
  mr_model_id :: model_id
  mr_max_input_tokens :: u32
  mr_max_output_tokens :: u32
  mr_max_calls :: u32

definition route_is_within :: "model_route \<Rightarrow> model_route \<Rightarrow> bool" where
  "route_is_within self parent \<longleftrightarrow>
     mr_max_input_tokens self \<le> mr_max_input_tokens parent \<and>
     mr_max_output_tokens self \<le> mr_max_output_tokens parent \<and>
     mr_max_calls self \<le> mr_max_calls parent"

definition narrow_quantitative :: "model_route \<Rightarrow> model_route \<Rightarrow> model_route" where
  "narrow_quantitative self parent =
     \<lparr>mr_model_id = mr_model_id self,
      mr_max_input_tokens = min (mr_max_input_tokens self) (mr_max_input_tokens parent),
      mr_max_output_tokens = min (mr_max_output_tokens self) (mr_max_output_tokens parent),
      mr_max_calls = min (mr_max_calls self) (mr_max_calls parent)\<rparr>"

record resource_ceiling =
  rl_cpu_milli :: u32
  rl_mem_bytes :: u64
  rl_wall_clock_ms :: u64
  rl_fd_count :: u32
  rl_disk_bytes :: u64

definition resource_narrow :: "resource_ceiling \<Rightarrow> resource_ceiling \<Rightarrow> resource_ceiling" where
  "resource_narrow self parent =
     \<lparr>rl_cpu_milli = min (rl_cpu_milli self) (rl_cpu_milli parent),
      rl_mem_bytes = min (rl_mem_bytes self) (rl_mem_bytes parent),
      rl_wall_clock_ms = min (rl_wall_clock_ms self) (rl_wall_clock_ms parent),
      rl_fd_count = min (rl_fd_count self) (rl_fd_count parent),
      rl_disk_bytes = min (rl_disk_bytes self) (rl_disk_bytes parent)\<rparr>"

text \<open>\<open>CostCeiling\<close> is its one field, in micro-dollars.\<close>

type_synonym cost_ceiling = u64

definition cost_narrow :: "cost_ceiling \<Rightarrow> cost_ceiling \<Rightarrow> cost_ceiling" where
  "cost_narrow self parent = min self parent"

record warrant_spec =
  ws_mote_class :: mote_class
  ws_nd_class :: mote_class
  ws_fs_scope :: fs_scope
  ws_net_scope :: net_scope
  ws_syscall_profile_ref :: content_ref
  ws_tool_grants :: "tool_grant set"
  ws_model_route :: model_route
  ws_resource_ceiling :: resource_ceiling
  ws_environment_ref :: "content_ref option"
  ws_executor_class :: executor_class
  ws_secret_scope :: secret_scope
  ws_cost_ceiling :: cost_ceiling
  ws_tls_required :: bool

definition warrant_default :: warrant_spec where
  "warrant_default =
     \<lparr>ws_mote_class = McPure, ws_nd_class = McPure, ws_fs_scope = [], ws_net_scope = NetNone,
      ws_syscall_profile_ref = 0, ws_tool_grants = {},
      ws_model_route = \<lparr>mr_model_id = [], mr_max_input_tokens = 0, mr_max_output_tokens = 0, mr_max_calls = 0\<rparr>,
      ws_resource_ceiling = \<lparr>rl_cpu_milli = 0, rl_mem_bytes = 0, rl_wall_clock_ms = 0, rl_fd_count = 0,
        rl_disk_bytes = 0\<rparr>,
      ws_environment_ref = None, ws_executor_class = Bwrap, ws_secret_scope = SecretNone,
      ws_cost_ceiling = 0, ws_tls_required = True\<rparr>"

record role =
  ro_name :: rstring
  ro_version :: u32
  ro_spec :: warrant_spec
  ro_description :: rstring

record tool_requirement =
  tr_net_scope_required :: net_scope
  tr_fs_scope_required :: fs_scope
  tr_syscall_profile_ref :: content_ref
  tr_min_resource_ceiling :: resource_ceiling

section \<open>Narrowing (narrow.rs) and the tool check (check.rs)\<close>

text \<open>The textual renderings inside the errors are left out.\<close>

datatype narrowing_error =
    AttemptedWiden warrant_field
  | EmptyIntersect warrant_field
  | SyscallProfileNotASubset content_ref
  | InvalidModelRoute

definition ensure :: "bool \<Rightarrow> 'e \<Rightarrow> ('e, unit) result" where
  "ensure b e = (if b then Inr () else Inl e)"

definition intersect :: "warrant_spec \<Rightarrow> role \<Rightarrow> (narrowing_error, warrant_spec) result" where
  "intersect parent role =
     (let proposed = ro_spec role; route = ws_model_route proposed in
      and_then (ensure (fs_scope_is_subset_of (ws_fs_scope proposed) (ws_fs_scope parent)) (AttemptedWiden FsScopeF)) (\<lambda>_.
      and_then (ensure (net_scope_is_subset_of (ws_net_scope proposed) (ws_net_scope parent)) (AttemptedWiden NetScopeF)) (\<lambda>_.
      and_then (ensure (ws_syscall_profile_ref proposed = ws_syscall_profile_ref parent)
        (SyscallProfileNotASubset (ws_syscall_profile_ref proposed))) (\<lambda>_.
      and_then (ensure (ws_tool_grants proposed \<subseteq> ws_tool_grants parent) (AttemptedWiden ToolGrantsF)) (\<lambda>_.
      and_then (ensure (secret_scope_is_subset_of (ws_secret_scope proposed) (ws_secret_scope parent))
        (AttemptedWiden SecretScopeF)) (\<lambda>_.
      and_then (ensure (\<not> (mr_max_input_tokens route = 0 \<or> mr_max_output_tokens route = 0 \<or> mr_max_calls route = 0))
        InvalidModelRoute) (\<lambda>_.
      Inr \<lparr>ws_mote_class = ws_mote_class proposed, ws_nd_class = ws_nd_class proposed,
           ws_fs_scope = ws_fs_scope proposed, ws_net_scope = ws_net_scope proposed,
           ws_syscall_profile_ref = ws_syscall_profile_ref proposed,
           ws_tool_grants = ws_tool_grants proposed,
           ws_model_route = narrow_quantitative route (ws_model_route parent),
           ws_resource_ceiling = resource_narrow (ws_resource_ceiling proposed) (ws_resource_ceiling parent),
           ws_environment_ref = ws_environment_ref proposed,
           ws_executor_class = ws_executor_class proposed,
           ws_secret_scope = ws_secret_scope proposed,
           ws_cost_ceiling = cost_narrow (ws_cost_ceiling proposed) (ws_cost_ceiling parent),
           ws_tls_required = (ws_tls_required proposed \<or> ws_tls_required parent)\<rparr>)))))))"

definition check_tool_requirement :: "tool_requirement \<Rightarrow> warrant_spec \<Rightarrow> (warrant_field, unit) result" where
  "check_tool_requirement req warrant =
     (let need = tr_min_resource_ceiling req; have_ceiling = ws_resource_ceiling warrant in
      and_then (ensure (fs_scope_is_subset_of (tr_fs_scope_required req) (ws_fs_scope warrant)) FsScopeF) (\<lambda>_.
      and_then (ensure (net_scope_is_subset_of (tr_net_scope_required req) (ws_net_scope warrant)) NetScopeF) (\<lambda>_.
      and_then (ensure (tr_syscall_profile_ref req = ws_syscall_profile_ref warrant) SyscallProfileF) (\<lambda>_.
      ensure (\<not> (rl_cpu_milli need > rl_cpu_milli have_ceiling \<or> rl_mem_bytes need > rl_mem_bytes have_ceiling \<or>
                 rl_wall_clock_ms need > rl_wall_clock_ms have_ceiling \<or> rl_fd_count need > rl_fd_count have_ceiling \<or>
                 rl_disk_bytes need > rl_disk_bytes have_ceiling)) ResourceCeilingF))))"

section \<open>Content references (refs.rs)\<close>

text \<open>
  The canonical bincode encoder and decoder of a warrant enter as \<open>enc\<close> and \<open>dec\<close>; the decoder
  reports how many bytes it has read.
\<close>

definition warrant_ref_of_spec :: "hash_fn \<Rightarrow> (warrant_spec \<Rightarrow> bytes) \<Rightarrow> warrant_spec \<Rightarrow> content_ref" where
  "warrant_ref_of_spec blake3 enc spec = blake3 (enc spec)"

definition decode_warrant ::
  "(bytes \<Rightarrow> (rstring, warrant_spec \<times> nat) result) \<Rightarrow> bytes \<Rightarrow> (rstring, warrant_spec) result" where
  "decode_warrant dec bs = and_then (dec bs) (\<lambda>(spec, _). Inr spec)"

section \<open>The role registry (registry.rs)\<close>

type_synonym role_registry = "(role_id, role) btree"

definition role_registry_new :: role_registry where
  "role_registry_new = []"

definition role_register :: "role_id \<Rightarrow> role \<Rightarrow> role_registry \<Rightarrow> role_registry" where
  "role_register i r reg = bt_insert i r reg"

definition role_resolve :: "role_registry \<Rightarrow> role_id \<Rightarrow> role option" where
  "role_resolve reg i = map_of reg i"

definition role_registry_len :: "role_registry \<Rightarrow> nat" where
  "role_registry_len reg = length reg"

lemma role_resolve_register:
  "bt_inv reg \<Longrightarrow> role_resolve (role_register i r reg) j = (if j = i then Some r else role_resolve reg j)"
  by (simp add: role_resolve_def role_register_def)

section \<open>The order of authority\<close>

text \<open>The count of consumed bytes is dropped, so bytes after the warrant are not refused.\<close>

lemma decode_warrant_ignores_tail:
  "dec (enc w @ tail) = Inr (w, length (enc w)) \<Longrightarrow> decode_warrant dec (enc w @ tail) = Inr w"
  by (simp add: decode_warrant_def)

lemma ensure_simps [simp, result_simps]:
  "ensure b e = Inr u \<longleftrightarrow> b" "ensure True e = Inr ()" "ensure False e = Inl e"
  by (simp_all add: ensure_def)

lemma fs_mode_refl [simp]: "fs_mode_is_subset_of m m"
  by (cases m) simp_all

lemma fs_mode_trans: "fs_mode_is_subset_of a b \<Longrightarrow> fs_mode_is_subset_of b c \<Longrightarrow> fs_mode_is_subset_of a c"
  by (cases a; cases b; cases c) simp_all

definition fs_perms :: "fs_mode \<Rightarrow> nat set" where
  "fs_perms m = (case m of ReadOnly \<Rightarrow> {0} | ReadWrite \<Rightarrow> {0, 1} | ExecOnly \<Rightarrow> {2})"

lemma fs_mode_perms: "fs_mode_is_subset_of a b \<longleftrightarrow> fs_perms a \<subseteq> fs_perms b"
  by (cases a; cases b) (auto simp: fs_perms_def)

lemma fs_scope_subset_iff:
  "fs_scope_is_subset_of a b \<longleftrightarrow>
     (\<forall>(path, m) \<in> set a. \<exists>m'. map_of b path = Some m' \<and> fs_mode_is_subset_of m m')"
  by (force simp: fs_scope_is_subset_of_def list_all_iff split: option.splits)

lemma fs_scope_refl: "bt_inv a \<Longrightarrow> fs_scope_is_subset_of a a"
  by (auto simp: fs_scope_subset_iff dest: bt_inv_distinct)

lemma fs_scope_trans:
  "fs_scope_is_subset_of a b \<Longrightarrow> fs_scope_is_subset_of b c \<Longrightarrow> fs_scope_is_subset_of a c"
  by (fastforce simp: fs_scope_subset_iff dest: map_of_SomeD intro: fs_mode_trans)

lemma net_scope_refl [simp]: "net_scope_is_subset_of a a"
  by (cases a) simp_all

lemma net_scope_trans:
  "net_scope_is_subset_of a b \<Longrightarrow> net_scope_is_subset_of b c \<Longrightarrow> net_scope_is_subset_of a c"
  by (cases a; cases b; cases c) auto

lemma secret_scope_refl [simp]: "secret_scope_is_subset_of a a"
  by (cases a) simp_all

lemma secret_scope_trans:
  "secret_scope_is_subset_of a b \<Longrightarrow> secret_scope_is_subset_of b c \<Longrightarrow> secret_scope_is_subset_of a c"
  by (cases a; cases b; cases c) auto

definition resource_le :: "resource_ceiling \<Rightarrow> resource_ceiling \<Rightarrow> bool" where
  "resource_le a b \<longleftrightarrow>
     rl_cpu_milli a \<le> rl_cpu_milli b \<and> rl_mem_bytes a \<le> rl_mem_bytes b \<and>
     rl_wall_clock_ms a \<le> rl_wall_clock_ms b \<and> rl_fd_count a \<le> rl_fd_count b \<and>
     rl_disk_bytes a \<le> rl_disk_bytes b"

definition warrant_le :: "warrant_spec \<Rightarrow> warrant_spec \<Rightarrow> bool" where
  "warrant_le a b \<longleftrightarrow>
     fs_scope_is_subset_of (ws_fs_scope a) (ws_fs_scope b) \<and>
     net_scope_is_subset_of (ws_net_scope a) (ws_net_scope b) \<and>
     ws_syscall_profile_ref a = ws_syscall_profile_ref b \<and>
     ws_tool_grants a \<subseteq> ws_tool_grants b \<and>
     secret_scope_is_subset_of (ws_secret_scope a) (ws_secret_scope b) \<and>
     route_is_within (ws_model_route a) (ws_model_route b) \<and>
     resource_le (ws_resource_ceiling a) (ws_resource_ceiling b) \<and>
     ws_cost_ceiling a \<le> ws_cost_ceiling b \<and>
     (ws_tls_required b \<longrightarrow> ws_tls_required a)"

definition warrant_wf :: "warrant_spec \<Rightarrow> bool" where
  "warrant_wf w \<longleftrightarrow> bt_inv (ws_fs_scope w)"

lemma warrant_le_refl: "warrant_wf w \<Longrightarrow> warrant_le w w"
  by (simp add: warrant_le_def warrant_wf_def fs_scope_refl route_is_within_def resource_le_def)

lemma warrant_le_trans: "warrant_le a b \<Longrightarrow> warrant_le b c \<Longrightarrow> warrant_le a c"
  unfolding warrant_le_def route_is_within_def resource_le_def
  by (elim conjE, intro conjI)
    (auto intro: fs_scope_trans net_scope_trans secret_scope_trans order_trans)

text \<open>What a role must satisfy to be narrowed into.\<close>

definition role_fits :: "warrant_spec \<Rightarrow> warrant_spec \<Rightarrow> bool" where
  "role_fits proposed parent \<longleftrightarrow>
     fs_scope_is_subset_of (ws_fs_scope proposed) (ws_fs_scope parent) \<and>
     net_scope_is_subset_of (ws_net_scope proposed) (ws_net_scope parent) \<and>
     ws_syscall_profile_ref proposed = ws_syscall_profile_ref parent \<and>
     ws_tool_grants proposed \<subseteq> ws_tool_grants parent \<and>
     secret_scope_is_subset_of (ws_secret_scope proposed) (ws_secret_scope parent) \<and>
     mr_max_input_tokens (ws_model_route proposed) \<noteq> 0 \<and>
     mr_max_output_tokens (ws_model_route proposed) \<noteq> 0 \<and>
     mr_max_calls (ws_model_route proposed) \<noteq> 0"

text \<open>The child warrant, once the checks have passed.\<close>

definition narrowed :: "warrant_spec \<Rightarrow> warrant_spec \<Rightarrow> warrant_spec" where
  "narrowed proposed parent = proposed
     \<lparr>ws_model_route := narrow_quantitative (ws_model_route proposed) (ws_model_route parent),
      ws_resource_ceiling := resource_narrow (ws_resource_ceiling proposed) (ws_resource_ceiling parent),
      ws_cost_ceiling := cost_narrow (ws_cost_ceiling proposed) (ws_cost_ceiling parent),
      ws_tls_required := ws_tls_required proposed \<or> ws_tls_required parent\<rparr>"

lemma intersect_Inr_iff:
  "intersect parent role = Inr w \<longleftrightarrow>
     role_fits (ro_spec role) parent \<and> w = narrowed (ro_spec role) parent"
  by (auto simp: intersect_def role_fits_def narrowed_def Let_def and_then_eq_Inr)

lemma intersect_ok_iff: "(\<exists>w. intersect parent role = Inr w) \<longleftrightarrow> role_fits (ro_spec role) parent"
  by (simp add: intersect_Inr_iff)

lemmas narrow_defs = narrow_quantitative_def resource_narrow_def cost_narrow_def
  route_is_within_def resource_le_def

lemma intersect_le_parent: "intersect parent role = Inr w \<Longrightarrow> warrant_le w parent"
  by (simp add: intersect_Inr_iff role_fits_def warrant_le_def narrowed_def narrow_defs)

lemma intersect_le_role:
  "warrant_wf (ro_spec role) \<Longrightarrow> intersect parent role = Inr w \<Longrightarrow> warrant_le w (ro_spec role)"
  by (simp add: intersect_Inr_iff warrant_le_def warrant_wf_def narrowed_def narrow_defs fs_scope_refl)

lemma intersect_greatest:
  "intersect parent role = Inr w \<Longrightarrow> warrant_le x parent \<Longrightarrow> warrant_le x (ro_spec role) \<Longrightarrow> warrant_le x w"
  by (simp add: intersect_Inr_iff warrant_le_def narrowed_def narrow_defs)

lemma intersect_wf: "warrant_wf (ro_spec role) \<Longrightarrow> intersect parent role = Inr w \<Longrightarrow> warrant_wf w"
  by (simp add: intersect_Inr_iff warrant_wf_def narrowed_def)

text \<open>The tool check: what it accepts, and that a wider warrant accepts it too.\<close>

lemma check_tool_requirement_iff:
  "check_tool_requirement req w = Inr () \<longleftrightarrow>
     fs_scope_is_subset_of (tr_fs_scope_required req) (ws_fs_scope w) \<and>
     net_scope_is_subset_of (tr_net_scope_required req) (ws_net_scope w) \<and>
     tr_syscall_profile_ref req = ws_syscall_profile_ref w \<and>
     resource_le (tr_min_resource_ceiling req) (ws_resource_ceiling w)"
  by (auto simp: check_tool_requirement_def Let_def and_then_eq_Inr resource_le_def not_less)

lemma resource_le_trans: "resource_le a b \<Longrightarrow> resource_le b c \<Longrightarrow> resource_le a c"
  by (auto simp: resource_le_def)

lemma check_tool_requirement_mono:
  assumes "check_tool_requirement req c = Inr ()" "warrant_le c p"
  shows "check_tool_requirement req p = Inr ()"
  using assms
  by (auto simp: check_tool_requirement_iff warrant_le_def
      intro: fs_scope_trans net_scope_trans resource_le_trans)

section \<open>Delegation\<close>

text \<open>
  The interface a delegating component relies on: an order of authority and a partial narrowing
  operation that stays below its parent. Whatever number of narrowing steps a spawn tree makes,
  the authority of a descendant is bounded by that of each of its ancestors.
\<close>

locale narrowing =
  fixes le :: "'w \<Rightarrow> 'w \<Rightarrow> bool"
    and narrow :: "'w \<Rightarrow> 'r \<Rightarrow> ('e, 'w) result"
    and wf_w :: "'w \<Rightarrow> bool"
    and wf_r :: "'r \<Rightarrow> bool"
  assumes le_refl: "wf_w w \<Longrightarrow> le w w"
    and le_trans: "le a b \<Longrightarrow> le b c \<Longrightarrow> le a c"
    and narrow_le: "narrow p r = Inr c \<Longrightarrow> le c p"
    and narrow_wf: "wf_r r \<Longrightarrow> narrow p r = Inr c \<Longrightarrow> wf_w c"
begin

inductive delegated :: "'w \<Rightarrow> 'w \<Rightarrow> bool" where
  delegated_root: "delegated p p"
| delegated_step: "delegated p c \<Longrightarrow> wf_r r \<Longrightarrow> narrow c r = Inr d \<Longrightarrow> delegated p d"

lemma delegated_le: "delegated p c \<Longrightarrow> wf_w p \<Longrightarrow> le c p \<and> wf_w c"
  by (induction rule: delegated.induct) (auto intro: le_refl le_trans narrow_le narrow_wf)

lemma delegated_trans: "delegated b c \<Longrightarrow> delegated a b \<Longrightarrow> delegated a c"
  by (induction rule: delegated.induct) (auto intro: delegated.intros)

end

interpretation wn: narrowing warrant_le intersect warrant_wf "\<lambda>r. warrant_wf (ro_spec r)"
  by unfold_locales
    (auto intro: warrant_le_refl warrant_le_trans intersect_le_parent intersect_wf)

text \<open>Narrowing along a list of roles, from the root of a spawn tree to a leaf.\<close>

fun narrow_all :: "warrant_spec \<Rightarrow> role list \<Rightarrow> (narrowing_error, warrant_spec) result" where
  "narrow_all w [] = Inr w"
| "narrow_all w (r # rs) = and_then (intersect w r) (\<lambda>c. narrow_all c rs)"

lemma narrow_all_delegated:
  "narrow_all w rs = Inr c \<Longrightarrow> \<forall>r\<in>set rs. warrant_wf (ro_spec r) \<Longrightarrow> wn.delegated w c"
proof (induction rs arbitrary: w)
  case Nil
  then show ?case by (simp add: wn.delegated_root)
next
  case (Cons r rs)
  then obtain d where "intersect w r = Inr d" "narrow_all d rs = Inr c"
    by (auto simp: and_then_eq_Inr)
  moreover from this Cons have "wn.delegated w d"
    by (auto intro: wn.delegated_step wn.delegated_root)
  ultimately show ?case
    using Cons by (auto intro: wn.delegated_trans)
qed

lemma narrow_all_append:
  "narrow_all w (rs @ ss) = and_then (narrow_all w rs) (\<lambda>c. narrow_all c ss)"
  by (induction rs arbitrary: w) (auto simp: and_then_def split: sum.splits)

text \<open>
  C9: \<open>intersect\<close> computes a meet. It succeeds exactly when the role stays inside the parent
  on every qualitative axis and asks for no zero ceiling; the child it returns permits no more
  than the parent and no more than the role, every warrant below both is below the child, and
  the axes without an order (Mote class, environment, executor, model) are those of the role.
\<close>

theorem intersect_is_meet:
  assumes "warrant_wf (ro_spec role)"
  shows "((\<exists>w. intersect parent role = Inr w) \<longleftrightarrow> role_fits (ro_spec role) parent) \<and>
    (\<forall>w. intersect parent role = Inr w \<longrightarrow>
      warrant_le w parent \<and> warrant_le w (ro_spec role) \<and>
      (\<forall>x. warrant_le x parent \<and> warrant_le x (ro_spec role) \<longrightarrow> warrant_le x w) \<and>
      ws_mote_class w = ws_mote_class (ro_spec role) \<and> ws_nd_class w = ws_nd_class (ro_spec role) \<and>
      ws_environment_ref w = ws_environment_ref (ro_spec role) \<and>
      ws_executor_class w = ws_executor_class (ro_spec role) \<and>
      mr_model_id (ws_model_route w) = mr_model_id (ws_model_route (ro_spec role)))"
proof (intro conjI allI impI)
  show "(\<exists>w. intersect parent role = Inr w) \<longleftrightarrow> role_fits (ro_spec role) parent"
    by (rule intersect_ok_iff)
qed (auto intro: intersect_le_parent intersect_le_role [OF assms] intersect_greatest
    simp: intersect_Inr_iff narrowed_def narrow_quantitative_def)

text \<open>A parent warrant with one write mount and a role that reads from it.\<close>

definition sample_parent :: warrant_spec where
  "sample_parent = warrant_default
     \<lparr>ws_fs_scope := [([47], ReadWrite)], ws_net_scope := EgressAllowlist {[1], [2]},
      ws_model_route := \<lparr>mr_model_id = [7], mr_max_input_tokens = 100, mr_max_output_tokens = 50, mr_max_calls = 3\<rparr>,
      ws_resource_ceiling := \<lparr>rl_cpu_milli = 1000, rl_mem_bytes = 64, rl_wall_clock_ms = 10, rl_fd_count = 4,
        rl_disk_bytes = 9\<rparr>,
      ws_cost_ceiling := 500, ws_tls_required := False\<rparr>"

definition sample_role :: role where
  "sample_role = \<lparr>ro_name = [114], ro_version = 1,
     ro_spec = sample_parent \<lparr>ws_fs_scope := [([47], ReadOnly)], ws_net_scope := EgressAllowlist {[2]},
       ws_model_route := \<lparr>mr_model_id = [8], mr_max_input_tokens = 200, mr_max_output_tokens = 10, mr_max_calls = 1\<rparr>,
       ws_cost_ceiling := 900, ws_tls_required := True\<rparr>,
     ro_description = []\<rparr>"

lemmas sample_warrants = sample_role_def sample_parent_def warrant_default_def

lemma sample_role_wf: "warrant_wf (ro_spec sample_role)"
  by (simp add: sample_warrants warrant_wf_def bt_inv_def)

lemma sample_role_fits: "role_fits (ro_spec sample_role) sample_parent"
  by (simp add: sample_warrants role_fits_def fs_scope_is_subset_of_def)

theorem intersect_is_meet_witness:
  "warrant_le (narrowed (ro_spec sample_role) sample_parent) sample_parent \<and>
   mr_model_id (ws_model_route (narrowed (ro_spec sample_role) sample_parent)) = [8]"
  using intersect_is_meet [OF sample_role_wf, of sample_parent] sample_role_fits
  by (simp add: intersect_Inr_iff sample_role_def)

text \<open>
  C22: Delegation never widens. However many roles a spawn tree narrows through, the leaf warrant
  is below the root warrant and below the warrant of every intermediate node, and every tool the
  leaf may call is a tool the root may call.
\<close>

theorem delegation_never_widens:
  assumes "narrow_all root (rs @ ss) = Inr leaf" and "warrant_wf root"
    and "\<forall>r\<in>set (rs @ ss). warrant_wf (ro_spec r)"
  shows "\<exists>mid. narrow_all root rs = Inr mid \<and> warrant_le leaf mid \<and> warrant_le mid root \<and> warrant_le leaf root \<and>
    (\<forall>req. check_tool_requirement req leaf = Inr () \<longrightarrow>
       check_tool_requirement req mid = Inr () \<and> check_tool_requirement req root = Inr ())"
proof -
  obtain mid where m: "narrow_all root rs = Inr mid" "narrow_all mid ss = Inr leaf"
    using assms(1) by (auto simp: narrow_all_append and_then_eq_Inr)
  have "warrant_le mid root \<and> warrant_wf mid"
    using narrow_all_delegated [OF m(1)] assms by (auto dest: wn.delegated_le)
  moreover from this have "warrant_le leaf mid"
    using narrow_all_delegated [OF m(2)] assms by (auto dest: wn.delegated_le)
  ultimately show ?thesis
    using m by (blast intro: warrant_le_trans check_tool_requirement_mono)
qed

definition sample_requirement :: tool_requirement where
  "sample_requirement = \<lparr>tr_net_scope_required = EgressAllowlist {[2]}, tr_fs_scope_required = [([47], ReadOnly)],
     tr_syscall_profile_ref = 0, tr_min_resource_ceiling = ws_resource_ceiling sample_parent\<rparr>"

lemma sample_requirement_ok:
  "check_tool_requirement sample_requirement (narrowed (ro_spec sample_role) sample_parent) = Inr ()"
  by (simp add: check_tool_requirement_iff sample_requirement_def narrowed_def sample_warrants
      fs_scope_is_subset_of_def narrow_defs)

theorem delegation_never_widens_witness:
  "check_tool_requirement sample_requirement sample_parent = Inr ()"
proof -
  have "narrow_all sample_parent ([sample_role] @ []) = Inr (narrowed (ro_spec sample_role) sample_parent)"
    using sample_role_fits by (simp add: and_then_eq_Inr intersect_Inr_iff)
  moreover have "warrant_wf sample_parent"
    by (simp add: sample_warrants warrant_wf_def bt_inv_def)
  ultimately show ?thesis
    using delegation_never_widens [of sample_parent "[sample_role]" "[]"] sample_role_wf sample_requirement_ok
    by auto
qed

text \<open>
  The zero-ceiling check reads the role only: under a parent whose own route is exhausted,
  \<open>intersect\<close> returns a child with zero ceilings rather than refusing.
\<close>

lemma intersect_exhausted_parent:
  "role_fits (ro_spec r) p \<Longrightarrow> mr_max_calls (ws_model_route p) = 0 \<Longrightarrow>
     \<exists>w. intersect p r = Inr w \<and> mr_max_calls (ws_model_route w) = 0"
  by (simp add: intersect_Inr_iff narrowed_def narrow_quantitative_def)

end
