(* ===== verification/Kx_Content.thy ===== *)
theory Kx_Content
  imports Kx_Mote
begin

text \<open>
  The content store (\<open>crates/kx-content\<close>): content references with their hexadecimal text form,
  the in-memory store, the store interface the other components use, and the image sniffer.
\<close>

section \<open>References\<close>

definition content_ref_of :: "hash_fn \<Rightarrow> bytes \<Rightarrow> content_ref" where
  "content_ref_of blake3 bs = blake3 bs"

text \<open>\<open>char::to_digit(16)\<close> on one ASCII byte, and the lower-case digit \<open>Hash::to_hex\<close> prints.\<close>

definition hex_digit :: "u8 \<Rightarrow> nat option" where
  "hex_digit c =
     (if 48 \<le> unat c \<and> unat c \<le> 57 then Some (unat c - 48)
      else if 97 \<le> unat c \<and> unat c \<le> 102 then Some (unat c - 87)
      else if 65 \<le> unat c \<and> unat c \<le> 70 then Some (unat c - 55)
      else None)"

definition hex_char :: "nat \<Rightarrow> u8" where
  "hex_char n = (if n < 10 then of_nat (48 + n) else of_nat (87 + n))"

definition to_hex :: "content_ref \<Rightarrow> rstring" where
  "to_hex r = concat (map (\<lambda>b. [hex_char (unat b div 16), hex_char (unat b mod 16)]) (bytes32 r))"

fun from_hex_pairs :: "bytes \<Rightarrow> bytes option" where
  "from_hex_pairs (h # l # rest) =
     Option.bind (hex_digit h) (\<lambda>hi. Option.bind (hex_digit l) (\<lambda>lo.
       map_option ((#) (of_nat (hi * 16 + lo))) (from_hex_pairs rest)))"
| "from_hex_pairs _ = Some []"

definition from_hex :: "rstring \<Rightarrow> content_ref option" where
  "from_hex s = (if length s \<noteq> 64 then None else map_option be_word (from_hex_pairs s))"

section \<open>The in-memory store (in_memory.rs)\<close>

type_synonym content_store = "content_ref \<rightharpoonup> bytes"

definition store_new :: content_store where
  "store_new = Map.empty"

definition store_put :: "hash_fn \<Rightarrow> bytes \<Rightarrow> content_store \<Rightarrow> content_ref \<times> content_store" where
  "store_put blake3 bs s =
     (let r = content_ref_of blake3 bs in
      (r, case s r of None \<Rightarrow> s(r \<mapsto> bs) | Some _ \<Rightarrow> s))"

definition store_get :: "content_store \<Rightarrow> content_ref \<Rightarrow> bytes option" where
  "store_get s r = s r"

definition store_delete :: "content_ref \<Rightarrow> content_store \<Rightarrow> content_store" where
  "store_delete r s = s(r := None)"

definition store_list_refs :: "content_store \<Rightarrow> content_ref set" where
  "store_list_refs s = dom s"

definition store_contains :: "content_store \<Rightarrow> content_ref \<Rightarrow> bool" where
  "store_contains s r \<longleftrightarrow> s r \<noteq> None"

section \<open>The store interface (lib.rs)\<close>

text \<open>
  \<open>ContentStore\<close> as its clients see it: a write may be refused by the backend. The error value
  carries no information the clients read.
\<close>

datatype store_error = StoreIo | HashMismatch

record 's store_ops =
  so_put :: "bytes \<Rightarrow> 's \<Rightarrow> (store_error, content_ref) result \<times> 's"
  so_get :: "'s \<Rightarrow> content_ref \<Rightarrow> bytes option"
  so_contains :: "'s \<Rightarrow> content_ref \<Rightarrow> bool"

definition mem_store_ops :: "hash_fn \<Rightarrow> content_store store_ops" where
  "mem_store_ops blake3 =
     \<lparr>so_put = (\<lambda>bs s. case store_put blake3 bs s of (r, s') \<Rightarrow> (Inr r, s')),
      so_get = store_get, so_contains = store_contains\<rparr>"

section \<open>Image sniffing (sniff.rs)\<close>

datatype image_format = Png | Jpeg | Gif | WebP | Bmp

definition starts_with :: "bytes \<Rightarrow> bytes \<Rightarrow> bool" where
  "starts_with bs p \<longleftrightarrow> take (length p) bs = p"

definition sniff_image_format :: "bytes \<Rightarrow> image_format option" where
  "sniff_image_format bs =
     (if starts_with bs [0x89, 0x50, 0x4E, 0x47, 0x0D, 0x0A, 0x1A, 0x0A] then Some Png
      else if starts_with bs [0xFF, 0xD8, 0xFF] then Some Jpeg
      else if starts_with bs (ascii ''GIF8'') then Some Gif
      else if starts_with bs (ascii ''BM'') then Some Bmp
      else if 12 \<le> length bs \<and> starts_with bs (ascii ''RIFF'') \<and> take 4 (drop 8 bs) = ascii ''WEBP''
        then Some WebP
      else None)"

section \<open>Laws\<close>

lemma starts_with_iff: "starts_with bs p \<longleftrightarrow> (\<exists>rest. bs = p @ rest)"
  by (metis append_eq_conv_conj append_take_drop_id starts_with_def)

lemma hex_digit_hex_char: "n < 16 \<Longrightarrow> hex_digit (hex_char n) = Some n"
proof -
  assume "n < 16"
  then have "unat (of_nat (48 + n) :: u8) = 48 + n" "unat (of_nat (87 + n) :: u8) = 87 + n"
    by (simp_all del: of_nat_add add: unat_of_nat_small)
  then show ?thesis
    using \<open>n < 16\<close> by (simp add: hex_digit_def hex_char_def del: of_nat_add)
qed

lemma from_hex_pairs_digits:
  "from_hex_pairs (concat (map (\<lambda>b. [hex_char (unat b div 16), hex_char (unat b mod 16)]) bs)) = Some bs"
proof (induction bs)
  case (Cons b bs)
  have "unat b < 256" using unsigned_less [of b, where ?'a = nat] by simp
  then have "unat b div 16 < 16" by simp
  moreover have "unat b div 16 * 16 + unat b mod 16 = unat b" by simp
  ultimately show ?case
    using Cons by (simp add: hex_digit_hex_char del: of_nat_add of_nat_mult)
qed simp

lemma length_to_hex: "length (to_hex r) = 64"
  unfolding to_hex_def length_concat map_map by (simp add: o_def sum_list_triv)

lemma from_hex_to_hex [simp]: "from_hex (to_hex r) = Some r"
  using from_hex_pairs_digits [of "bytes32 r", folded to_hex_def] by (simp add: from_hex_def length_to_hex)

definition store_wf :: "hash_fn \<Rightarrow> content_store \<Rightarrow> bool" where
  "store_wf blake3 s \<longleftrightarrow> (\<forall>r bs. s r = Some bs \<longrightarrow> blake3 bs = r)"

text \<open>
  What the clients of a store rely on: a successful write leaves an object of the written bytes'
  reference, and no write loses an object.
\<close>

locale store_port =
  fixes so :: "'s store_ops"
    and blake3 :: hash_fn
    and inv :: "'s \<Rightarrow> bool"
  assumes put_ok: "inv s \<Longrightarrow> so_put so bs s = (Inr r, s') \<Longrightarrow>
      inv s' \<and> r = blake3 bs \<and> (\<exists>x. so_get so s' r = Some x \<and> blake3 x = r)"
    and put_keeps: "so_put so bs s = (q, s') \<Longrightarrow> so_get so s r = Some x \<Longrightarrow> so_get so s' r = Some x"
    and put_err: "inv s \<Longrightarrow> so_put so bs s = (Inl e, s') \<Longrightarrow> inv s'"
    and contains_get: "so_contains so s r \<longleftrightarrow> so_get so s r \<noteq> None"
begin

lemma put_then_get:
  assumes "inv s" "so_put so bs s = (Inr r, s')" and "\<And>x. blake3 x = blake3 bs \<Longrightarrow> x = bs"
  shows "so_get so s' r = Some bs"
  using put_ok [OF assms(1,2)] assms(3) by auto

lemma put_inv: "inv s \<Longrightarrow> so_put so bs s = (q, s') \<Longrightarrow> inv s'"
  using put_ok put_err by (cases q) blast+

end

interpretation mem_store: store_port "mem_store_ops blake3" blake3 "store_wf blake3" for blake3
  by unfold_locales
    (auto simp: mem_store_ops_def store_put_def content_ref_of_def store_get_def store_contains_def
      store_wf_def Let_def split: option.splits if_splits)

text \<open>The life of a store: any sequence of writes and deletes.\<close>

datatype store_action = PutBytes bytes | DeleteRef content_ref

fun store_step :: "hash_fn \<Rightarrow> store_action \<Rightarrow> content_store \<Rightarrow> content_store" where
  "store_step blake3 (PutBytes bs) s = snd (store_put blake3 bs s)"
| "store_step blake3 (DeleteRef r) s = store_delete r s"

definition store_run :: "hash_fn \<Rightarrow> store_action list \<Rightarrow> content_store \<Rightarrow> content_store" where
  "store_run blake3 acts s = fold (store_step blake3) acts s"

lemma store_step_get:
  "store_get (store_step blake3 a s) q =
     (case a of
        PutBytes bs \<Rightarrow> if q = blake3 bs \<and> store_get s q = None then Some bs else store_get s q
      | DeleteRef r \<Rightarrow> if q = r then None else store_get s q)"
  by (cases a) (auto simp: store_get_def store_put_def store_delete_def content_ref_of_def Let_def split: option.splits)

lemma store_run_snoc: "store_run blake3 (acts @ [a]) s = store_step blake3 a (store_run blake3 acts s)"
  by (simp add: store_run_def)

text \<open>Every object is one that was written, under its hash.\<close>

lemma store_run_objects:
  "store_get (store_run blake3 acts store_new) q = Some x \<Longrightarrow> blake3 x = q \<and> PutBytes x \<in> set acts"
proof (induction acts rule: rev_induct)
  case Nil
  then show ?case by (simp add: store_run_def store_new_def store_get_def)
next
  case (snoc a acts)
  then show ?case by (auto simp: store_run_snoc store_step_get split: store_action.splits if_splits)
qed

text \<open>An object does not change before it is deleted.\<close>

lemma store_run_keeps:
  "store_get s q = Some x \<Longrightarrow> DeleteRef q \<notin> set acts \<Longrightarrow> store_get (store_run blake3 acts s) q = Some x"
proof (induction acts rule: rev_induct)
  case Nil
  then show ?case by (simp add: store_run_def)
next
  case (snoc a acts)
  then show ?case by (cases a) (auto simp: store_run_snoc store_step_get simp del: store_step.simps)
qed

text \<open>
  C32: Content addressing. Let a store be reached from the empty one by any writes and deletes.
  Every object in it is one of the written ones, under its own hash. A further write returns the
  hash of the bytes; an object that is already there under this hash is kept, even when its bytes
  differ, and otherwise the written bytes are there. No other object changes. From then on the
  object stays the same over any further writes and deletes until it is deleted itself, so with
  no collision it is the written bytes that are read; a delete removes this object alone.
\<close>

theorem content_addressing:
  assumes "s = store_run blake3 acts store_new" and "store_put blake3 bs s = (r, s')"
  shows "(\<forall>q x. store_get s q = Some x \<longrightarrow> blake3 x = q \<and> PutBytes x \<in> set acts) \<and> r = blake3 bs \<and>
    store_get s' r = Some (case store_get s r of Some old \<Rightarrow> old | None \<Rightarrow> bs) \<and>
    (\<forall>q. q \<noteq> r \<longrightarrow> store_get s' q = store_get s q) \<and>
    (\<forall>later. DeleteRef r \<notin> set later \<longrightarrow> store_get (store_run blake3 later s') r = store_get s' r \<and>
       ((\<forall>x. PutBytes x \<in> set acts \<and> blake3 x = blake3 bs \<longrightarrow> x = bs) \<longrightarrow>
          store_get (store_run blake3 later s') r = Some bs)) \<and>
    (\<forall>q. store_get (store_delete r s') q = (if q = r then None else store_get s q))"
proof -
  have s': "s' = store_step blake3 (PutBytes bs) s" and r: "r = blake3 bs"
    using assms(2) by (auto simp: store_put_def content_ref_of_def Let_def)
  have objects: "\<forall>q x. store_get s q = Some x \<longrightarrow> blake3 x = q \<and> PutBytes x \<in> set acts"
    unfolding assms(1) using store_run_objects by blast
  have get: "store_get s' q =
      (if q = r then Some (case store_get s r of Some old \<Rightarrow> old | None \<Rightarrow> bs) else store_get s q)" for q
    by (simp add: s' r store_step_get del: store_step.simps split: option.splits)
  then have keep: "store_get (store_run blake3 later s') r = store_get s' r" if "DeleteRef r \<notin> set later" for later
    using store_run_keeps that by simp
  have "store_get s' r = Some bs" if "\<forall>x. PutBytes x \<in> set acts \<and> blake3 x = blake3 bs \<longrightarrow> x = bs"
    using that objects r by (auto simp: get split: option.splits)
  then show ?thesis
    using objects r get keep by (auto simp: store_delete_def store_get_def)
qed

theorem content_addressing_witness:
  "store_put (\<lambda>_. 5) [2] (store_run (\<lambda>_. 5) [PutBytes [1]] store_new) = (5, store_run (\<lambda>_. 5) [PutBytes [1]] store_new) \<and>
   store_get (store_run (\<lambda>_. 5) [PutBytes [3], DeleteRef 6] (snd (store_put (\<lambda>_. 5) [2]
     (store_run (\<lambda>_. 5) [PutBytes [1]] store_new)))) 5 = Some [1]"
proof -
  let ?s = "store_run (\<lambda>_. 5) [PutBytes [1]] store_new"
  have put: "store_put (\<lambda>_. 5) [2] ?s = (5, ?s)" and get: "store_get ?s 5 = Some [1]"
    by (simp_all add: store_run_def store_put_def content_ref_of_def store_new_def store_get_def)
  from content_addressing [OF refl put] have
    "store_get (store_run (\<lambda>_. 5) [PutBytes [3], DeleteRef 6] ?s) 5 = store_get ?s 5" by simp
  then show ?thesis using put get by simp
qed

text \<open>
  The text form of a content reference, 64 lower-case hexadecimal digits, reads back as the
  reference; a text of any other length, or with a byte that is no hexadecimal digit, is refused.
\<close>

lemma content_ref_hex_exact:
  "from_hex (to_hex r) = Some r \<and> length (to_hex r) = 64 \<and>
   (from_hex s = None \<longleftrightarrow> length s \<noteq> 64 \<or> (\<exists>c\<in>set s. hex_digit c = None))"
proof -
  have "from_hex_pairs s = None \<longleftrightarrow> (\<exists>c\<in>set s. hex_digit c = None)" if "even (length s)" for s
    using that
  proof (induction s rule: from_hex_pairs.induct)
    case (1 h l rest)
    then show ?case by (cases "hex_digit h"; cases "hex_digit l") simp_all
  qed simp_all
  then show ?thesis
    using length_to_hex from_hex_to_hex [of r] by (auto simp: from_hex_def [of s])
qed

end
