(* ===== verification/Kx_Capability.thy ===== *)
theory Kx_Capability
  imports Kx_Warrant Kx_Content
begin

text \<open>
  The capability broker (\<open>crates/kx-capability\<close>): the only door to the outside world. The model
  has the registry of capabilities, the per-call check against the Mote, the request and the
  warrant, and the three operations dispatch, read-back probe and compensation. A capability is
  foreign code: it enters as its replies, functions of the request and of the world they act on.
\<close>

section \<open>Requests, replies, errors (request.rs, capability.rs, errors.rs)\<close>

record effect_request =
  er_payload :: bytes
  er_pattern :: effect_pattern
  er_idempotency_key :: "array32 option"
  er_net_scope :: net_scope
  er_fs_scope :: fs_scope
  er_secret_scope :: secret_scope

record broker_handle =
  bh_staged_ref :: content_ref
  bh_capability :: tool_name
  bh_capability_version :: tool_version

datatype capability_failure_reason =
    AuthDenied | RateLimited | NetworkUnreachable | CallTimeout | InvalidResponse
  | CredentialUnresolved rstring | OtherFailure rstring

datatype broker_error =
    UnknownCapability tool_name
  | UnsupportedPattern tool_name effect_pattern
  | CapabilityExceedsWarrant warrant_field
  | CapabilityFailure tool_name capability_failure_reason
  | SandboxRefused tool_name rstring
  | StageWriteFailed tool_name store_error

fun is_permanent :: "broker_error \<Rightarrow> bool" where
  "is_permanent (UnknownCapability _) = True"
| "is_permanent (UnsupportedPattern _ _) = True"
| "is_permanent (CapabilityExceedsWarrant _) = True"
| "is_permanent (SandboxRefused _ _) = True"
| "is_permanent (StageWriteFailed _ _) = False"
| "is_permanent (CapabilityFailure _ AuthDenied) = True"
| "is_permanent (CapabilityFailure _ (CredentialUnresolved _)) = True"
| "is_permanent (CapabilityFailure _ RateLimited) = False"
| "is_permanent (CapabilityFailure _ NetworkUnreachable) = False"
| "is_permanent (CapabilityFailure _ CallTimeout) = False"
| "is_permanent (CapabilityFailure _ InvalidResponse) = False"
| "is_permanent (CapabilityFailure _ (OtherFailure _)) = False"

text \<open>The quoting of a credential name inside the message (\<open>{name:?}\<close>) is the parameter \<open>quote\<close>.\<close>

fun model_facing_detail :: "(rstring \<Rightarrow> rstring) \<Rightarrow> broker_error \<Rightarrow> rstring" where
  "model_facing_detail quote (CapabilityFailure _ (OtherFailure detail)) = detail"
| "model_facing_detail quote (CapabilityFailure _ AuthDenied) =
     ascii ''the external system denied authentication''"
| "model_facing_detail quote (CapabilityFailure _ RateLimited) =
     ascii ''the external system rate-limited this call''"
| "model_facing_detail quote (CapabilityFailure _ NetworkUnreachable) =
     ascii ''the external system was unreachable''"
| "model_facing_detail quote (CapabilityFailure _ CallTimeout) =
     ascii ''the call exceeded its time budget''"
| "model_facing_detail quote (CapabilityFailure _ InvalidResponse) =
     ascii (''the external system'' @ [CHR 0x27] @ ''s response did not match the expected shape'')"
| "model_facing_detail quote (CapabilityFailure _ (CredentialUnresolved name)) =
     ascii ''the credential '' @ quote name @
     ascii '' this call needs is not stored on this host, so no request was sent; an operator must store it''"
| "model_facing_detail quote _ = []"

text \<open>A capability over a world of type \<open>'w\<close>.\<close>

record 'w capability =
  cap_name :: tool_name
  cap_version :: tool_version
  cap_supported_patterns :: "effect_pattern list"
  cap_required_secret_scope :: secret_scope
  cap_invoke :: "effect_request \<Rightarrow> 'w \<Rightarrow> (capability_failure_reason, bytes) result \<times> 'w"
  cap_probe :: "effect_request \<Rightarrow> 'w \<Rightarrow> (capability_failure_reason, bytes option) result \<times> 'w"
  cap_compensate :: "effect_request \<Rightarrow> 'w \<Rightarrow> (capability_failure_reason, bytes option) result \<times> 'w"

section \<open>The broker interface (broker.rs)\<close>

text \<open>The state a broker acts on is the store it stages into and the world.\<close>

record ('s, 'w) broker_ops =
  bo_dispatch :: "mote \<Rightarrow> warrant_spec \<Rightarrow> tool_name \<Rightarrow> effect_request \<Rightarrow> 's \<times> 'w \<Rightarrow>
    (broker_error, broker_handle) result \<times> ('s \<times> 'w)"
  bo_probe_readback :: "mote \<Rightarrow> warrant_spec \<Rightarrow> tool_name \<Rightarrow> effect_request \<Rightarrow> 's \<times> 'w \<Rightarrow>
    (broker_error, broker_handle option) result \<times> ('s \<times> 'w)"
  bo_compensate :: "mote \<Rightarrow> warrant_spec \<Rightarrow> tool_name \<Rightarrow> effect_request \<Rightarrow> 's \<times> 'w \<Rightarrow>
    (broker_error, broker_handle option) result \<times> ('s \<times> 'w)"

section \<open>The local broker (local.rs)\<close>

type_synonym 'w capability_map = "(tool_name, 'w capability) btree"

definition register_capability :: "'w capability \<Rightarrow> 'w capability_map \<Rightarrow> 'w capability_map" where
  "register_capability c caps = bt_insert (cap_name c) c caps"

definition registered_grants :: "'w capability_map \<Rightarrow> (tool_name \<times> tool_version) set" where
  "registered_grants caps = (\<lambda>(name, cap). (name, cap_version cap)) ` set caps"

definition registered_secret_scopes ::
  "'w capability_map \<Rightarrow> (tool_name \<times> tool_version \<times> secret_scope) set" where
  "registered_secret_scopes caps =
     (\<lambda>(name, cap). (name, cap_version cap, cap_required_secret_scope cap)) ` set caps"

definition precheck ::
  "'w capability_map \<Rightarrow> mote \<Rightarrow> warrant_spec \<Rightarrow> tool_name \<Rightarrow> effect_request \<Rightarrow> (broker_error, 'w capability) result"
where
  "precheck caps m warrant name req =
     (if map_of (md_tool_contract (m_def m)) name = None then Inl (UnknownCapability name)
      else case map_of caps name of
          None \<Rightarrow> Inl (UnknownCapability name)
        | Some cap \<Rightarrow>
            if er_pattern req \<notin> set (cap_supported_patterns cap) then Inl (UnsupportedPattern name (er_pattern req))
            else if \<lparr>tg_tool_id = name, tg_tool_version = cap_version cap\<rparr> \<notin> ws_tool_grants warrant
            then Inl (CapabilityExceedsWarrant ToolGrantsF)
            else if \<not> net_scope_is_subset_of (er_net_scope req) (ws_net_scope warrant)
            then Inl (CapabilityExceedsWarrant NetScopeF)
            else if \<not> fs_scope_is_subset_of (er_fs_scope req) (ws_fs_scope warrant)
            then Inl (CapabilityExceedsWarrant FsScopeF)
            else if \<not> secret_scope_is_subset_of (er_secret_scope req) (ws_secret_scope warrant) \<or>
                    \<not> secret_scope_is_subset_of (cap_required_secret_scope cap) (ws_secret_scope warrant)
            then Inl (CapabilityExceedsWarrant SecretScopeF)
            else Inr cap)"

definition stage ::
  "'s store_ops \<Rightarrow> tool_name \<Rightarrow> tool_version \<Rightarrow> bytes \<Rightarrow> 's \<Rightarrow> (broker_error, broker_handle) result \<times> 's"
where
  "stage so name version bs s =
     (case so_put so bs s of
        (Inl e, s') \<Rightarrow> (Inl (StageWriteFailed name e), s')
      | (Inr r, s') \<Rightarrow> (Inr \<lparr>bh_staged_ref = r, bh_capability = name, bh_capability_version = version\<rparr>, s'))"

definition dispatch ::
  "'s store_ops \<Rightarrow> 'w capability_map \<Rightarrow> mote \<Rightarrow> warrant_spec \<Rightarrow> tool_name \<Rightarrow> effect_request \<Rightarrow> 's \<times> 'w \<Rightarrow>
     (broker_error, broker_handle) result \<times> ('s \<times> 'w)"
where
  "dispatch so caps m warrant name req = (\<lambda>(s, w).
     case precheck caps m warrant name req of
       Inl e \<Rightarrow> (Inl e, (s, w))
     | Inr cap \<Rightarrow>
         (case cap_invoke cap req w of
            (Inl reason, w') \<Rightarrow> (Inl (CapabilityFailure (cap_name cap) reason), (s, w'))
          | (Inr bs, w') \<Rightarrow>
              (case stage so (cap_name cap) (cap_version cap) bs s of (r, s') \<Rightarrow> (r, (s', w')))))"

text \<open>Probe and compensation share their shape: an optional reply that is staged when present.\<close>

definition optional_call ::
  "('w capability \<Rightarrow> effect_request \<Rightarrow> 'w \<Rightarrow> (capability_failure_reason, bytes option) result \<times> 'w) \<Rightarrow>
     's store_ops \<Rightarrow> 'w capability_map \<Rightarrow> mote \<Rightarrow> warrant_spec \<Rightarrow> tool_name \<Rightarrow> effect_request \<Rightarrow> 's \<times> 'w \<Rightarrow>
     (broker_error, broker_handle option) result \<times> ('s \<times> 'w)"
where
  "optional_call op so caps m warrant name req = (\<lambda>(s, w).
     case precheck caps m warrant name req of
       Inl e \<Rightarrow> (Inl e, (s, w))
     | Inr cap \<Rightarrow>
         (case op cap req w of
            (Inl reason, w') \<Rightarrow> (Inl (CapabilityFailure (cap_name cap) reason), (s, w'))
          | (Inr None, w') \<Rightarrow> (Inr None, (s, w'))
          | (Inr (Some bs), w') \<Rightarrow>
              (case stage so (cap_name cap) (cap_version cap) bs s of
                 (r, s') \<Rightarrow> (and_then r (\<lambda>h. Inr (Some h)), (s', w')))))"

definition probe_readback where
  "probe_readback so caps = optional_call cap_probe so caps"

definition compensate where
  "compensate so caps = optional_call cap_compensate so caps"

definition local_broker :: "'s store_ops \<Rightarrow> 'w capability_map \<Rightarrow> ('s, 'w) broker_ops" where
  "local_broker so caps =
     \<lparr>bo_dispatch = dispatch so caps, bo_probe_readback = probe_readback so caps,
      bo_compensate = compensate so caps\<rparr>"

section \<open>Idempotency tokens (token.rs)\<close>

definition run_scoped_token :: "hash_fn \<Rightarrow> array16 \<Rightarrow> mote \<Rightarrow> array32" where
  "run_scoped_token blake3 instance_id m =
     blake3 (ascii ''kx-run-scoped-token'' @ bytes16 instance_id @ bytes32 (m_id m))"

definition idempotency_token_for :: "mote \<Rightarrow> array32" where
  "idempotency_token_for m = m_id m"

section \<open>Laws\<close>

text \<open>What a call needs of the warrant.\<close>

definition call_within :: "'w capability \<Rightarrow> tool_name \<Rightarrow> effect_request \<Rightarrow> warrant_spec \<Rightarrow> bool" where
  "call_within cap name req w \<longleftrightarrow>
     \<lparr>tg_tool_id = name, tg_tool_version = cap_version cap\<rparr> \<in> ws_tool_grants w \<and>
     net_scope_is_subset_of (er_net_scope req) (ws_net_scope w) \<and>
     fs_scope_is_subset_of (er_fs_scope req) (ws_fs_scope w) \<and>
     secret_scope_is_subset_of (er_secret_scope req) (ws_secret_scope w) \<and>
     secret_scope_is_subset_of (cap_required_secret_scope cap) (ws_secret_scope w)"

lemma precheck_Inr_iff:
  "precheck caps m w name req = Inr cap \<longleftrightarrow>
     map_of (md_tool_contract (m_def m)) name \<noteq> None \<and> map_of caps name = Some cap \<and>
     er_pattern req \<in> set (cap_supported_patterns cap) \<and> call_within cap name req w"
  by (auto simp: precheck_def call_within_def split: option.splits if_splits)

lemma precheck_refusal_permanent: "precheck caps m w name req = Inl e \<Longrightarrow> is_permanent e"
  by (auto simp: precheck_def split: option.splits if_splits)

lemma call_within_mono: "call_within cap name req c \<Longrightarrow> warrant_le c p \<Longrightarrow> call_within cap name req p"
  by (auto simp: call_within_def warrant_le_def intro: net_scope_trans fs_scope_trans secret_scope_trans)

lemma stage_ok:
  "stage so name v bs s = (Inr h, s') \<longleftrightarrow>
     (\<exists>r. so_put so bs s = (Inr r, s') \<and> h = \<lparr>bh_staged_ref = r, bh_capability = name, bh_capability_version = v\<rparr>)"
  by (auto simp: stage_def split: prod.splits sum.splits)

text \<open>
  A broker call that is refused by the check reaches neither the world nor the store; one that
  reaches the world was within the warrant.
\<close>

lemma dispatch_refused:
  "precheck caps m w name req = Inl e \<Longrightarrow> dispatch so caps m w name req x = (Inl e, x)"
  by (simp add: dispatch_def split: prod.splits)

lemma optional_call_refused:
  "precheck caps m w name req = Inl e \<Longrightarrow> optional_call op so caps m w name req x = (Inl e, x)"
  by (simp add: optional_call_def split: prod.splits)

text \<open>
  C31: No call leaves the authority of the root. When dispatch, probe or compensation of the local
  broker changes anything, under a warrant that was narrowed through any roles from a root warrant,
  then the capability is registered, declared by the Mote and supports the pattern of the request,
  and the call is within the narrowed warrant and within the root warrant: granted tool, network,
  filesystem, requested and required secrets.
\<close>

theorem broker_calls_within_root:
  assumes "narrow_all root rs = Inr leaf" and "warrant_wf root" and "\<forall>r \<in> set rs. warrant_wf (ro_spec r)"
    and "snd (bo_dispatch (local_broker so caps) m leaf name req x) \<noteq> x \<or>
      snd (bo_probe_readback (local_broker so caps) m leaf name req x) \<noteq> x \<or>
      snd (bo_compensate (local_broker so caps) m leaf name req x) \<noteq> x"
  shows "\<exists>cap. map_of caps name = Some cap \<and> map_of (md_tool_contract (m_def m)) name \<noteq> None \<and>
    er_pattern req \<in> set (cap_supported_patterns cap) \<and> call_within cap name req leaf \<and> call_within cap name req root"
proof -
  obtain cap where "precheck caps m leaf name req = Inr cap"
    using assms(4)
    by (cases "precheck caps m leaf name req")
      (simp_all add: local_broker_def probe_readback_def compensate_def dispatch_refused optional_call_refused)
  moreover have "warrant_le leaf root"
    using narrow_all_delegated [OF assms(1,3)] assms(2) wn.delegated_le by blast
  ultimately show ?thesis
    by (auto simp: precheck_Inr_iff intro: call_within_mono)
qed

definition counting_capability :: "nat capability" where
  "counting_capability = \<lparr>cap_name = [1], cap_version = [2], cap_supported_patterns = [StageThenCommit],
     cap_required_secret_scope = SecretNone, cap_invoke = (\<lambda>req w. (Inr [7], Suc w)),
     cap_probe = (\<lambda>req w. (Inr None, w)), cap_compensate = (\<lambda>req w. (Inr None, w))\<rparr>"

theorem broker_calls_within_root_witness:
  "call_within counting_capability [1]
     \<lparr>er_payload = [], er_pattern = StageThenCommit, er_idempotency_key = None, er_net_scope = NetNone, er_fs_scope = [],
      er_secret_scope = SecretNone\<rparr> (warrant_default\<lparr>ws_tool_grants := {\<lparr>tg_tool_id = [1], tg_tool_version = [2]\<rparr>}\<rparr>)"
  (is "call_within _ _ ?req ?w")
proof -
  define d :: mote_def where "d = \<lparr>md_logic_ref = 1, md_model_id = [], md_prompt_template_hash = 2, md_tool_contract = [([1], [2])],
     md_nd_class = WorldMutating, md_config_subset = [], md_effect_pattern = StageThenCommit,
     md_critic_for = None, md_is_topology_shaper = False,
     md_inference_params = \<lparr>ip_max_output_tokens = 1, ip_temperature_bps = 0, ip_top_p_bps = 0, ip_top_k = 0,
       ip_seed = 0, ip_stop_tokens = [], ip_grammar = None\<rparr>,
     md_critic_check = None, md_schema_version = 1\<rparr>"
  define m :: mote where "m = \<lparr>m_id = 1, m_def = d, m_input_data_id = 0, m_graph_position = [], m_parents = []\<rparr>"
  have "snd (bo_dispatch (local_broker (mem_store_ops (\<lambda>_. 5)) [([1], counting_capability)]) m ?w [1] ?req (store_new, 0))
      \<noteq> (store_new, 0)"
    by (simp add: local_broker_def dispatch_def precheck_def m_def d_def counting_capability_def stage_def mem_store_ops_def
        store_put_def warrant_default_def fs_scope_is_subset_of_def Let_def content_ref_of_def)
  moreover have "warrant_wf ?w" by (simp add: warrant_wf_def warrant_default_def)
  ultimately show ?thesis
    using broker_calls_within_root [of ?w "[]" ?w "mem_store_ops (\<lambda>_. 5)" "[([1], counting_capability)]" m "[1]" ?req "(store_new, 0)"]
    by auto
qed

end
