(* ===== verification/Kx_Refusal.thy ===== *)
theory Kx_Refusal
  imports Kx_Warrant
begin

text \<open>
  The submission gate (\<open>crates/kx-refusal\<close>): the refusal vocabulary, one definition per
  predicate R-1 to R-15 in the order of the code, the two validators over a whole workflow and
  the validator of a single Mote at the coordinator's boundary. The lemmas give the meaning of
  acceptance as a condition on the submitted Motes, free of loops and of the bounded walk.
\<close>

section \<open>Vocabulary\<close>

text \<open>The idempotency class of a tool (\<open>crates/kx-tool-registry\<close>).\<close>

datatype idempotency_class = IcToken | IcReadback | IcStaged | IcAtLeastOnce

datatype submission_refusal =
    R1NoIdempotentTool mote_id
  | R2NoCritic mote_id
  | R3EffectPatternMissing mote_id
  | R4CriticTargetMissing mote_id mote_id
  | R5CriticTargetWrongClass mote_id mote_id nd_class
  | R6MultiCritic mote_id mote_id mote_id
  | R7WorldMutatingCritic mote_id
  | R8ShaperAndCritic mote_id
  | R8bShaperImperativeSpawn mote_id
  | R9CriticChainNotTerminating mote_id
  | ValidatorTypeError mote_id rstring
  | RefusedWiden mote_id rstring
  | R10AtLeastOnceWithoutAccept mote_id
  | R14WorldMutatingShaper mote_id
  | R15NativeCheckShape mote_id
  | D66UnresolvableWorldMutatingTools mote_id

fun refusal_code :: "submission_refusal \<Rightarrow> string" where
  "refusal_code (R1NoIdempotentTool _) = ''R-1''"
| "refusal_code (R2NoCritic _) = ''R-2''"
| "refusal_code (R3EffectPatternMissing _) = ''R-3''"
| "refusal_code (R4CriticTargetMissing _ _) = ''R-4''"
| "refusal_code (R5CriticTargetWrongClass _ _ _) = ''R-5''"
| "refusal_code (R6MultiCritic _ _ _) = ''R-6''"
| "refusal_code (R7WorldMutatingCritic _) = ''R-7''"
| "refusal_code (R8ShaperAndCritic _) = ''R-8''"
| "refusal_code (R8bShaperImperativeSpawn _) = ''R-8b''"
| "refusal_code (R9CriticChainNotTerminating _) = ''R-9''"
| "refusal_code (ValidatorTypeError _ _) = ''ValidatorTypeError''"
| "refusal_code (RefusedWiden _ _) = ''AttemptedWiden''"
| "refusal_code (R10AtLeastOnceWithoutAccept _) = ''R-10''"
| "refusal_code (R14WorldMutatingShaper _) = ''R-14''"
| "refusal_code (R15NativeCheckShape _) = ''R-15''"
| "refusal_code (D66UnresolvableWorldMutatingTools _) = ''D66''"

type_synonym mote_map = "(mote_id, mote) btree"

record workflow_submission =
  wsub_run_id :: array32
  wsub_master_warrant :: warrant_spec
  wsub_motes :: mote_map
  wsub_accept_at_least_once :: "(mote_id, bool) btree"

datatype tool_resolution = Resolved "idempotency_class list" | Unresolved

definition bt_values :: "('k, 'v) btree \<Rightarrow> 'v list" where
  "bt_values m = map snd m"

text \<open>\<open>for x in xs { f(x)?; }\<close>\<close>

fun for_each :: "('a \<Rightarrow> ('e, unit) result) \<Rightarrow> 'a list \<Rightarrow> ('e, unit) result" where
  "for_each f [] = Inr ()"
| "for_each f (x # xs) = and_then (f x) (\<lambda>_. for_each f xs)"

section \<open>The predicates\<close>

definition check_r1 :: "mote \<Rightarrow> (submission_refusal, unit) result" where
  "check_r1 m =
     (if md_nd_class (m_def m) \<noteq> WorldMutating then Inr ()
      else if md_effect_pattern (m_def m) \<noteq> IdempotentByConstruction then Inr ()
      else if md_tool_contract (m_def m) = [] then Inl (R1NoIdempotentTool (m_id m))
      else Inr ())"

definition check_r2 :: "mote_map \<Rightarrow> mote \<Rightarrow> (submission_refusal, unit) result" where
  "check_r2 motes m =
     (if md_nd_class (m_def m) \<noteq> WorldMutating then Inr ()
      else if md_effect_pattern (m_def m) \<noteq> ValidateThenCommit then Inr ()
      else if list_ex (\<lambda>s. md_critic_for (m_def s) = Some (m_id m)) (bt_values motes) then Inr ()
      else Inl (R2NoCritic (m_id m)))"

definition check_r4_r5_r7 :: "mote_map \<Rightarrow> mote \<Rightarrow> (submission_refusal, unit) result" where
  "check_r4_r5_r7 motes m =
     (case md_critic_for (m_def m) of
        None \<Rightarrow> Inr ()
      | Some target_id \<Rightarrow>
          if md_nd_class (m_def m) = WorldMutating then Inl (R7WorldMutatingCritic (m_id m))
          else case map_of motes target_id of
              None \<Rightarrow> Inl (R4CriticTargetMissing (m_id m) target_id)
            | Some target \<Rightarrow>
                if md_nd_class (m_def target) \<noteq> WorldMutating
                then Inl (R5CriticTargetWrongClass (m_id m) target_id (md_nd_class (m_def target)))
                else Inr ())"

fun r6_loop :: "(mote_id, mote_id) btree \<Rightarrow> mote list \<Rightarrow> (submission_refusal, unit) result" where
  "r6_loop critic_targets [] = Inr ()"
| "r6_loop critic_targets (critic # rest) =
     (case md_critic_for (m_def critic) of
        None \<Rightarrow> r6_loop critic_targets rest
      | Some target \<Rightarrow>
          (case map_of critic_targets target of
             Some first_critic \<Rightarrow> Inl (R6MultiCritic first_critic (m_id critic) target)
           | None \<Rightarrow> r6_loop (bt_insert target (m_id critic) critic_targets) rest))"

definition check_r6 :: "mote_map \<Rightarrow> (submission_refusal, unit) result" where
  "check_r6 motes = r6_loop [] (bt_values motes)"

definition check_r8 :: "mote \<Rightarrow> (submission_refusal, unit) result" where
  "check_r8 m =
     (if md_is_topology_shaper (m_def m) \<and> md_critic_for (m_def m) \<noteq> None
      then Inl (R8ShaperAndCritic (m_id m)) else Inr ())"

definition check_r14 :: "mote \<Rightarrow> (submission_refusal, unit) result" where
  "check_r14 m =
     (if md_is_topology_shaper (m_def m) \<and> md_nd_class (m_def m) = WorldMutating
      then Inl (R14WorldMutatingShaper (m_id m)) else Inr ())"

definition critic_shape :: "nd_class \<Rightarrow> mote \<Rightarrow> (submission_refusal, unit) result" where
  "critic_shape nd m =
     (if md_nd_class (m_def m) \<noteq> nd \<or> md_critic_for (m_def m) = None \<or> md_is_topology_shaper (m_def m)
      then Inl (R15NativeCheckShape (m_id m)) else Inr ())"

definition native_critic_shape :: "mote \<Rightarrow> (submission_refusal, unit) result" where
  "native_critic_shape m =
     (case md_critic_check (m_def m) of
        None \<Rightarrow> Inr ()
      | Some c \<Rightarrow> if is_llm_judge c then Inr () else critic_shape Pure m)"

definition native_judge_shape :: "mote \<Rightarrow> (submission_refusal, unit) result" where
  "native_judge_shape m =
     (case md_critic_check (m_def m) of
        None \<Rightarrow> Inr ()
      | Some c \<Rightarrow> if is_llm_judge c then critic_shape ReadOnlyNondet m else Inr ())"

definition is_judge :: "mote \<Rightarrow> bool" where
  "is_judge m = (case md_critic_check (m_def m) of None \<Rightarrow> False | Some c \<Rightarrow> is_llm_judge c)"

definition check_r15 :: "mote \<Rightarrow> (submission_refusal, unit) result" where
  "check_r15 m = (if is_judge m then native_judge_shape m else native_critic_shape m)"

text \<open>The walk along the critic chain, at most eight steps.\<close>

fun r9_walk :: "nat \<Rightarrow> mote_map \<Rightarrow> mote_id \<Rightarrow> mote_id set \<Rightarrow> mote_id \<Rightarrow> (submission_refusal, unit) result" where
  "r9_walk 0 motes i visited current_target = Inl (R9CriticChainNotTerminating i)"
| "r9_walk (Suc n) motes i visited current_target =
     (case find (\<lambda>m. md_critic_for (m_def m) = Some current_target) (bt_values motes) of
        None \<Rightarrow> Inl (R9CriticChainNotTerminating i)
      | Some c \<Rightarrow>
          if md_nd_class (m_def c) = Pure then Inr ()
          else if m_id c \<in> visited then Inl (R9CriticChainNotTerminating i)
          else r9_walk n motes i (insert (m_id c) visited) (m_id c))"

definition check_r9 :: "mote_map \<Rightarrow> mote \<Rightarrow> (submission_refusal, unit) result" where
  "check_r9 motes m =
     (if md_nd_class (m_def m) \<noteq> WorldMutating then Inr ()
      else if md_effect_pattern (m_def m) \<noteq> ValidateThenCommit then Inr ()
      else r9_walk 8 motes (m_id m) {m_id m} (m_id m))"

definition check_r10 ::
  "workflow_submission \<Rightarrow> (mote_id, idempotency_class list) btree \<Rightarrow> mote \<Rightarrow> (submission_refusal, unit) result" where
  "check_r10 s resolved m =
     (if md_nd_class (m_def m) \<noteq> WorldMutating then Inr ()
      else case map_of resolved (m_id m) of
          None \<Rightarrow> Inr ()
        | Some classes \<Rightarrow>
            if \<not> list_ex (\<lambda>c. c = IcAtLeastOnce) classes then Inr ()
            else if map_of (wsub_accept_at_least_once s) (m_id m) = Some True then Inr ()
            else Inl (R10AtLeastOnceWithoutAccept (m_id m)))"

definition check_r7_self :: "mote \<Rightarrow> (submission_refusal, unit) result" where
  "check_r7_self m =
     (if md_critic_for (m_def m) \<noteq> None \<and> md_nd_class (m_def m) = WorldMutating
      then Inl (R7WorldMutatingCritic (m_id m)) else Inr ())"

definition check_r10_resolved :: "mote \<Rightarrow> bool \<Rightarrow> tool_resolution \<Rightarrow> (submission_refusal, unit) result" where
  "check_r10_resolved m accept resolution =
     (if md_nd_class (m_def m) \<noteq> WorldMutating then Inr ()
      else case resolution of
          Unresolved \<Rightarrow> Inl (D66UnresolvableWorldMutatingTools (m_id m))
        | Resolved classes \<Rightarrow>
            if list_ex (\<lambda>c. c = IcAtLeastOnce) classes \<and> \<not> accept
            then Inl (R10AtLeastOnceWithoutAccept (m_id m)) else Inr ())"

section \<open>The validators\<close>

text \<open>R-3 and R-8b have empty bodies in the code and contribute nothing.\<close>

definition validate_submission :: "workflow_submission \<Rightarrow> (submission_refusal, unit) result" where
  "validate_submission s =
     (let motes = wsub_motes s in
      and_then (for_each (\<lambda>m. and_then (check_r1 m) (\<lambda>_. check_r2 motes m)) (bt_values motes)) (\<lambda>_.
      and_then (for_each (check_r4_r5_r7 motes) (bt_values motes)) (\<lambda>_.
      and_then (check_r6 motes) (\<lambda>_.
      and_then (for_each (\<lambda>m. and_then (check_r8 m) (\<lambda>_. and_then (check_r14 m) (\<lambda>_. check_r15 m)))
        (bt_values motes)) (\<lambda>_.
      for_each (check_r9 motes) (bt_values motes))))))"

definition validate_submission_with_idempotency ::
  "workflow_submission \<Rightarrow> (mote_id, idempotency_class list) btree \<Rightarrow> (submission_refusal, unit) result" where
  "validate_submission_with_idempotency s resolved =
     and_then (validate_submission s) (\<lambda>_. for_each (check_r10 s resolved) (bt_values (wsub_motes s)))"

definition validate_mote_submission :: "mote \<Rightarrow> bool \<Rightarrow> tool_resolution \<Rightarrow> (submission_refusal, unit) result" where
  "validate_mote_submission m accept resolution =
     and_then (check_r1 m) (\<lambda>_.
     and_then (check_r7_self m) (\<lambda>_.
     and_then (check_r8 m) (\<lambda>_.
     and_then (check_r14 m) (\<lambda>_.
     and_then (check_r15 m) (\<lambda>_.
     check_r10_resolved m accept resolution)))))"

text \<open>The debug rendering of the narrowing error is a parameter.\<close>

definition refusal_from_narrowing :: "(narrowing_error \<Rightarrow> rstring) \<Rightarrow> mote_id \<Rightarrow> narrowing_error \<Rightarrow> submission_refusal" where
  "refusal_from_narrowing fmt i err = RefusedWiden i (fmt err)"

section \<open>What acceptance means\<close>

lemma for_each_ok_iff: "for_each f xs = Inr u \<longleftrightarrow> (\<forall>x\<in>set xs. f x = Inr ())"
  by (induction xs) (auto simp: and_then_eq_Inr)

lemma find_some_iff_ex: "(\<exists>x. find P xs = Some x) \<longleftrightarrow> (\<exists>x\<in>set xs. P x)"
  by (auto simp: find_None_iff not_None_eq [symmetric] simp del: not_None_eq)

definition motes_keyed :: "mote_map \<Rightarrow> bool" where
  "motes_keyed motes \<longleftrightarrow> bt_inv motes \<and> (\<forall>(k, m)\<in>set motes. m_id m = k)"

lemma motes_keyed_map_of:
  assumes "motes_keyed motes"
  shows "map_of motes i = Some m \<longleftrightarrow> m \<in> set (bt_values motes) \<and> m_id m = i"
  using assms bt_inv_distinct [of motes]
  by (force simp: motes_keyed_def bt_values_def dest: map_of_SomeD)

lemma motes_keyed_distinct:
  assumes "motes_keyed motes"
  shows "distinct (bt_values motes)"
proof -
  have "map m_id (bt_values motes) = map fst motes"
    using assms by (auto simp: motes_keyed_def bt_values_def)
  then have "distinct (map m_id (bt_values motes))"
    using assms bt_inv_distinct [of motes] by (simp add: motes_keyed_def del: map_map)
  then show ?thesis unfolding distinct_map [of m_id] by simp
qed

lemma r6_loop_ok_iff:
  "distinct ms \<Longrightarrow> r6_loop seen ms = Inr u \<longleftrightarrow>
     (\<forall>c\<in>set ms. \<forall>t. md_critic_for (m_def c) = Some t \<longrightarrow>
        map_of seen t = None \<and> (\<forall>d\<in>set ms. md_critic_for (m_def d) = Some t \<longrightarrow> d = c))"
proof (induction ms arbitrary: seen)
  case (Cons m ms)
  then have IH: "r6_loop seen' ms = Inr u \<longleftrightarrow>
     (\<forall>c\<in>set ms. \<forall>t. md_critic_for (m_def c) = Some t \<longrightarrow>
        map_of seen' t = None \<and> (\<forall>d\<in>set ms. md_critic_for (m_def d) = Some t \<longrightarrow> d = c))" for seen'
    by simp
  show ?case
  proof (cases "md_critic_for (m_def m)")
    case None
    then show ?thesis using IH [of seen] by simp
  next
    case (Some t)
    show ?thesis
    proof (cases "map_of seen t")
      case None
      have "m \<notin> set ms" using Cons by simp
      then show ?thesis
        using IH [of "bt_insert t (m_id m) seen"] Some None by (simp split: if_splits) blast
    next
      case (Some c)
      with \<open>md_critic_for (m_def m) = Some t\<close> show ?thesis by simp
    qed
  qed
qed simp

text \<open>What the enforced checks admit, Mote by Mote.\<close>

definition admitted_producer :: "mote_map \<Rightarrow> mote \<Rightarrow> bool" where
  "admitted_producer motes m \<longleftrightarrow> md_nd_class (m_def m) = WorldMutating \<longrightarrow>
     (md_effect_pattern (m_def m) = IdempotentByConstruction \<longrightarrow> md_tool_contract (m_def m) \<noteq> []) \<and>
     (md_effect_pattern (m_def m) = ValidateThenCommit \<longrightarrow>
        (\<exists>c\<in>set (bt_values motes). md_critic_for (m_def c) = Some (m_id m) \<and> md_nd_class (m_def c) = Pure))"

definition admitted_critic :: "mote_map \<Rightarrow> mote \<Rightarrow> bool" where
  "admitted_critic motes m \<longleftrightarrow>
     (\<forall>t. md_critic_for (m_def m) = Some t \<longrightarrow>
        md_nd_class (m_def m) \<noteq> WorldMutating \<and> \<not> md_is_topology_shaper (m_def m) \<and>
        (\<exists>p\<in>set (bt_values motes). m_id p = t \<and> md_nd_class (m_def p) = WorldMutating)) \<and>
     (\<forall>c. md_critic_check (m_def m) = Some c \<longrightarrow>
        md_critic_for (m_def m) \<noteq> None \<and> \<not> md_is_topology_shaper (m_def m) \<and>
        md_nd_class (m_def m) = (if is_llm_judge c then ReadOnlyNondet else Pure)) \<and>
     (md_is_topology_shaper (m_def m) \<longrightarrow> md_nd_class (m_def m) \<noteq> WorldMutating)"

definition admitted_workflow :: "mote_map \<Rightarrow> bool" where
  "admitted_workflow motes \<longleftrightarrow>
     (\<forall>m\<in>set (bt_values motes). admitted_producer motes m \<and> admitted_critic motes m) \<and>
     (\<forall>c\<in>set (bt_values motes). \<forall>d\<in>set (bt_values motes). \<forall>t.
        md_critic_for (m_def c) = Some t \<and> md_critic_for (m_def d) = Some t \<longrightarrow> d = c)"

text \<open>
  After R-4, R-5 and R-7 no critic has a critic of its own, so the walk of R-9 is decided by the
  critic of the producer alone and its depth bound is never reached.
\<close>

lemma check_r4_r5_r7_ok_iff:
  assumes "motes_keyed motes"
  shows "check_r4_r5_r7 motes m = Inr u \<longleftrightarrow>
     (\<forall>t. md_critic_for (m_def m) = Some t \<longrightarrow> md_nd_class (m_def m) \<noteq> WorldMutating \<and>
        (\<exists>p\<in>set (bt_values motes). m_id p = t \<and> md_nd_class (m_def p) = WorldMutating))"
proof (cases "md_critic_for (m_def m)")
  case None
  then show ?thesis by (simp add: check_r4_r5_r7_def)
next
  case (Some t)
  show ?thesis
  proof (cases "map_of motes t")
    case None
    then have "\<not> (\<exists>p\<in>set (bt_values motes). m_id p = t)"
      using motes_keyed_map_of [OF assms] by (metis option.distinct(1))
    then show ?thesis using Some None by (auto simp: check_r4_r5_r7_def)
  next
    case (Some p)
    then have "p' = p" if "p' \<in> set (bt_values motes)" "m_id p' = t" for p'
      using motes_keyed_map_of [OF assms, of t] that by (metis option.inject)
    moreover have "p \<in> set (bt_values motes) \<and> m_id p = t"
      using Some motes_keyed_map_of [OF assms] by simp
    ultimately show ?thesis
      using Some \<open>md_critic_for (m_def m) = Some t\<close> by (simp add: check_r4_r5_r7_def) metis
  qed
qed

lemma r9_walk_ok_iff:
  assumes k: "motes_keyed motes" and ok: "\<forall>m\<in>set (bt_values motes). check_r4_r5_r7 motes m = Inr ()"
    and u: "\<forall>c\<in>set (bt_values motes). \<forall>d\<in>set (bt_values motes). \<forall>t.
      md_critic_for (m_def c) = Some t \<and> md_critic_for (m_def d) = Some t \<longrightarrow> d = c"
  shows "r9_walk (Suc (Suc n)) motes i visited t = Inr u \<longleftrightarrow>
    (\<exists>c\<in>set (bt_values motes). md_critic_for (m_def c) = Some t \<and> md_nd_class (m_def c) = Pure)"
proof (cases "find (\<lambda>m. md_critic_for (m_def m) = Some t) (bt_values motes)")
  case None
  moreover have "\<forall>c\<in>set (bt_values motes). md_critic_for (m_def c) \<noteq> Some t"
    using None by (simp add: find_None_iff)
  ultimately show ?thesis by auto
next
  case (Some c)
  then have c: "c \<in> set (bt_values motes)" "md_critic_for (m_def c) = Some t"
    by (auto simp: find_Some_iff in_set_conv_nth)
  have "find (\<lambda>m. md_critic_for (m_def m) = Some (m_id c)) (bt_values motes) = None"
  proof (rule ccontr)
    assume "find (\<lambda>m. md_critic_for (m_def m) = Some (m_id c)) (bt_values motes) \<noteq> None"
    then obtain d where "d \<in> set (bt_values motes)" "md_critic_for (m_def d) = Some (m_id c)"
      by (auto simp: find_None_iff)
    then obtain p where "p \<in> set (bt_values motes)" "m_id p = m_id c" "md_nd_class (m_def p) = WorldMutating"
      using ok check_r4_r5_r7_ok_iff [OF k] by blast
    then have "md_nd_class (m_def c) = WorldMutating"
      using motes_keyed_map_of [OF k] c by (metis option.inject)
    then show False
      using ok c check_r4_r5_r7_ok_iff [OF k] by blast
  qed
  moreover have "(\<exists>c\<in>set (bt_values motes). md_critic_for (m_def c) = Some t \<and> md_nd_class (m_def c) = Pure) \<longleftrightarrow>
      md_nd_class (m_def c) = Pure"
    using u c by blast
  ultimately show ?thesis
    using Some by simp
qed

lemma check_r15_ok_iff:
  "check_r15 m = Inr u \<longleftrightarrow> (\<forall>c. md_critic_check (m_def m) = Some c \<longrightarrow>
     md_critic_for (m_def m) \<noteq> None \<and> \<not> md_is_topology_shaper (m_def m) \<and>
     md_nd_class (m_def m) = (if is_llm_judge c then ReadOnlyNondet else Pure))"
  by (auto simp: check_r15_def is_judge_def native_judge_shape_def native_critic_shape_def
      critic_shape_def split: option.splits if_splits)

lemmas check_defs = check_r1_def check_r2_def check_r8_def check_r14_def check_r9_def

lemma eight_Suc: "(8::nat) = Suc (Suc 6)"
  by simp

lemma check_r9_ok_iff:
  assumes "motes_keyed motes" "\<forall>m\<in>set (bt_values motes). check_r4_r5_r7 motes m = Inr ()"
    and "\<forall>c\<in>set (bt_values motes). \<forall>d\<in>set (bt_values motes). \<forall>t.
      md_critic_for (m_def c) = Some t \<and> md_critic_for (m_def d) = Some t \<longrightarrow> d = c"
  shows "check_r9 motes m = Inr u \<longleftrightarrow>
    (md_nd_class (m_def m) = WorldMutating \<and> md_effect_pattern (m_def m) = ValidateThenCommit \<longrightarrow>
       (\<exists>c\<in>set (bt_values motes). md_critic_for (m_def c) = Some (m_id m) \<and> md_nd_class (m_def c) = Pure))"
  using r9_walk_ok_iff [OF assms, of 6 "m_id m" "{m_id m}" "m_id m" u]
  unfolding check_r9_def eight_Suc by (simp del: r9_walk.simps)

lemma check_r1_ok_iff:
  "check_r1 m = Inr u \<longleftrightarrow> (md_nd_class (m_def m) = WorldMutating \<and>
     md_effect_pattern (m_def m) = IdempotentByConstruction \<longrightarrow> md_tool_contract (m_def m) \<noteq> [])"
  by (simp add: check_r1_def)

lemma check_r2_ok_iff:
  "check_r2 motes m = Inr u \<longleftrightarrow> (md_nd_class (m_def m) = WorldMutating \<and>
     md_effect_pattern (m_def m) = ValidateThenCommit \<longrightarrow>
     (\<exists>c\<in>set (bt_values motes). md_critic_for (m_def c) = Some (m_id m)))"
  by (auto simp: check_r2_def list_ex_iff)

lemma check_r8_ok_iff:
  "check_r8 m = Inr u \<longleftrightarrow> (md_is_topology_shaper (m_def m) \<longrightarrow> md_critic_for (m_def m) = None)"
  by (simp add: check_r8_def)

lemma check_r14_ok_iff:
  "check_r14 m = Inr u \<longleftrightarrow> (md_is_topology_shaper (m_def m) \<longrightarrow> md_nd_class (m_def m) \<noteq> WorldMutating)"
  by (simp add: check_r14_def)

lemma validate_submission_ok_iff:
  assumes "motes_keyed (wsub_motes s)"
  shows "validate_submission s = Inr u \<longleftrightarrow> admitted_workflow (wsub_motes s)"
proof -
  define ms where "ms = set (bt_values (wsub_motes s))"
  define uniq where "uniq \<longleftrightarrow> (\<forall>c\<in>ms. \<forall>d\<in>ms. \<forall>t.
     md_critic_for (m_def c) = Some t \<and> md_critic_for (m_def d) = Some t \<longrightarrow> d = c)"
  define targets where "targets \<longleftrightarrow> (\<forall>m\<in>ms. check_r4_r5_r7 (wsub_motes s) m = Inr ())"
  have r6: "check_r6 (wsub_motes s) = Inr v \<longleftrightarrow> uniq" for v
    using r6_loop_ok_iff [OF motes_keyed_distinct [OF assms], of "[]" v]
    by (simp add: check_r6_def uniq_def ms_def) blast
  have "validate_submission s = Inr u \<longleftrightarrow>
      (\<forall>m\<in>ms. check_r1 m = Inr () \<and> check_r2 (wsub_motes s) m = Inr ()) \<and> targets \<and> uniq \<and>
      (\<forall>m\<in>ms. check_r8 m = Inr () \<and> check_r14 m = Inr () \<and> check_r15 m = Inr ()) \<and>
      (\<forall>m\<in>ms. check_r9 (wsub_motes s) m = Inr ())"
    by (simp add: validate_submission_def Let_def and_then_eq_Inr for_each_ok_iff r6 targets_def ms_def)
  also have "\<dots> \<longleftrightarrow>
      (\<forall>m\<in>ms. check_r1 m = Inr () \<and> check_r2 (wsub_motes s) m = Inr ()) \<and> targets \<and> uniq \<and>
      (\<forall>m\<in>ms. check_r8 m = Inr () \<and> check_r14 m = Inr () \<and> check_r15 m = Inr ()) \<and>
      (\<forall>m\<in>ms. md_nd_class (m_def m) = WorldMutating \<and> md_effect_pattern (m_def m) = ValidateThenCommit \<longrightarrow>
         (\<exists>c\<in>ms. md_critic_for (m_def c) = Some (m_id m) \<and> md_nd_class (m_def c) = Pure))"
    using check_r9_ok_iff [OF assms] unfolding targets_def uniq_def ms_def by blast
  also have "\<dots> \<longleftrightarrow> admitted_workflow (wsub_motes s)"
    unfolding admitted_workflow_def admitted_producer_def admitted_critic_def targets_def ms_def [symmetric] uniq_def
      check_r1_ok_iff check_r2_ok_iff check_r8_ok_iff check_r14_ok_iff check_r15_ok_iff
      check_r4_r5_r7_ok_iff [OF assms]
    by fastforce
  finally show ?thesis .
qed

section \<open>Properties\<close>

text \<open>
  C21: The whole-workflow gate, as it is enforced, accepts a workflow exactly when: every
  world-mutating producer that is idempotent by construction has a non-empty tool contract, every
  validate-then-commit producer has a critic that is pure, a critic is not world-mutating, not a
  shaper and targets a world-mutating Mote of the submission, no two Motes criticise the same
  target, check-carrying Motes have the shape of their check, and shapers are not world-mutating.
  The depth bound of the critic walk plays no part. The code enforces less than its documentation
  says: R-1 does not look at the idempotency class of the declared tools, and R-8b refuses nothing
  (\<open>documented_refusals_not_made\<close> has a workflow of each kind that is accepted).
\<close>

theorem validate_submission_exact:
  assumes "motes_keyed (wsub_motes s)"
  shows "validate_submission s = Inr () \<longleftrightarrow> admitted_workflow (wsub_motes s)"
  using validate_submission_ok_iff [OF assms] .

definition sample_def :: mote_def where
  "sample_def = \<lparr>md_logic_ref = 1, md_model_id = [], md_prompt_template_hash = 2, md_tool_contract = [],
     md_nd_class = WorldMutating, md_config_subset = [], md_effect_pattern = ValidateThenCommit,
     md_critic_for = None, md_is_topology_shaper = False,
     md_inference_params = \<lparr>ip_max_output_tokens = 1, ip_temperature_bps = 0, ip_top_p_bps = 0, ip_top_k = 0,
       ip_seed = 0, ip_stop_tokens = [], ip_grammar = None\<rparr>,
     md_critic_check = None, md_schema_version = 1\<rparr>"

definition sample_producer :: mote where
  "sample_producer = \<lparr>m_id = 1, m_def = sample_def, m_input_data_id = 0, m_graph_position = [], m_parents = []\<rparr>"

definition sample_critic :: mote where
  "sample_critic = \<lparr>m_id = 2, m_def = sample_def \<lparr>md_nd_class := Pure, md_critic_for := Some 1\<rparr>,
     m_input_data_id = 0, m_graph_position = [], m_parents = []\<rparr>"

definition sample_submission :: workflow_submission where
  "sample_submission = \<lparr>wsub_run_id = 0, wsub_master_warrant = warrant_default,
     wsub_motes = [(1, sample_producer), (2, sample_critic)], wsub_accept_at_least_once = []\<rparr>"

lemmas sample_submission_defs = sample_submission_def sample_producer_def sample_critic_def sample_def_def

lemma sample_submission_keyed: "motes_keyed (wsub_motes sample_submission)"
  by (simp add: sample_submission_defs motes_keyed_def)

lemma r9_walk_numeral [simp]:
  "r9_walk (numeral n) motes i visited t =
     (case find (\<lambda>m. md_critic_for (m_def m) = Some t) (bt_values motes) of
        None \<Rightarrow> Inl (R9CriticChainNotTerminating i)
      | Some c \<Rightarrow>
          if md_nd_class (m_def c) = Pure then Inr ()
          else if m_id c \<in> visited then Inl (R9CriticChainNotTerminating i)
          else r9_walk (pred_numeral n) motes i (insert (m_id c) visited) (m_id c))"
  by (simp only: numeral_eq_Suc r9_walk.simps)

theorem validate_submission_exact_witness: "admitted_workflow (wsub_motes sample_submission)"
proof -
  have "validate_submission sample_submission = Inr ()"
    by (simp add: validate_submission_def sample_submission_defs bt_values_def check_defs
        check_r4_r5_r7_def check_r6_def check_r15_def is_judge_def native_critic_shape_def)
  then show ?thesis
    using validate_submission_exact [OF sample_submission_keyed] by simp
qed

lemma validate_mote_submission_ok_iff:
  "validate_mote_submission m accept resolution = Inr u \<longleftrightarrow>
     check_r1 m = Inr () \<and> check_r7_self m = Inr () \<and> check_r8 m = Inr () \<and> check_r14 m = Inr () \<and>
     check_r15 m = Inr () \<and> check_r10_resolved m accept resolution = Inr ()"
  by (simp add: validate_mote_submission_def and_then_eq_Inr)

text \<open>A world-mutating Mote with nothing but at-least-once tools passes R-1, and a shaper passes R-8b.\<close>

definition sample_at_least_once :: mote where
  "sample_at_least_once = sample_producer\<lparr>m_def := sample_def\<lparr>md_effect_pattern := IdempotentByConstruction,
     md_tool_contract := [([1], [1])]\<rparr>\<rparr>"

definition sample_shaper :: mote where
  "sample_shaper = sample_producer\<lparr>m_def := sample_def\<lparr>md_nd_class := Pure, md_is_topology_shaper := True\<rparr>\<rparr>"

lemma documented_refusals_not_made:
  "validate_submission_with_idempotency (sample_submission\<lparr>wsub_motes := [(1, sample_at_least_once)],
     wsub_accept_at_least_once := [(1, True)]\<rparr>) [(1, [IcAtLeastOnce])] = Inr ()"
  "validate_mote_submission sample_at_least_once True (Resolved [IcAtLeastOnce]) = Inr ()"
  "validate_submission (sample_submission\<lparr>wsub_motes := [(1, sample_shaper)]\<rparr>) = Inr ()"
  by (simp_all add: validate_submission_with_idempotency_def validate_submission_def validate_mote_submission_def
      sample_at_least_once_def sample_shaper_def sample_submission_defs bt_values_def check_defs check_r4_r5_r7_def check_r6_def
      check_r15_def is_judge_def native_critic_shape_def check_r10_def check_r10_resolved_def check_r7_self_def)

text \<open>The conditions that relate the Motes of one submission to each other.\<close>

definition critics_coherent :: "mote_map \<Rightarrow> bool" where
  "critics_coherent motes \<longleftrightarrow>
     (\<forall>m\<in>set (bt_values motes). md_nd_class (m_def m) = WorldMutating \<and> md_effect_pattern (m_def m) = ValidateThenCommit \<longrightarrow>
        (\<exists>c\<in>set (bt_values motes). md_critic_for (m_def c) = Some (m_id m) \<and> md_nd_class (m_def c) = Pure)) \<and>
     (\<forall>m\<in>set (bt_values motes). \<forall>t. md_critic_for (m_def m) = Some t \<longrightarrow>
        (\<exists>p\<in>set (bt_values motes). m_id p = t \<and> md_nd_class (m_def p) = WorldMutating)) \<and>
     (\<forall>c\<in>set (bt_values motes). \<forall>d\<in>set (bt_values motes). \<forall>t.
        md_critic_for (m_def c) = Some t \<and> md_critic_for (m_def d) = Some t \<longrightarrow> d = c)"

lemma admitted_workflow_motes:
  "admitted_workflow motes \<longleftrightarrow> critics_coherent motes \<and>
     (\<forall>m\<in>set (bt_values motes). check_r1 m = Inr () \<and> check_r7_self m = Inr () \<and> check_r8 m = Inr () \<and>
        check_r14 m = Inr () \<and> check_r15 m = Inr ())"
proof -
  have r7: "check_r7_self m = Inr () \<longleftrightarrow> (\<forall>t. md_critic_for (m_def m) = Some t \<longrightarrow> md_nd_class (m_def m) \<noteq> WorldMutating)" for m
    by (auto simp: check_r7_self_def)
  have r8: "check_r8 m = Inr () \<longleftrightarrow> (\<forall>t. md_critic_for (m_def m) = Some t \<longrightarrow> \<not> md_is_topology_shaper (m_def m))" for m
    by (auto simp: check_r8_def)
  show ?thesis
    unfolding admitted_workflow_def critics_coherent_def admitted_producer_def admitted_critic_def
      check_r1_ok_iff r7 r8 check_r14_ok_iff check_r15_ok_iff
    by blast
qed

lemma check_r10_agrees:
  "check_r10 s resolved m = Inr () \<longleftrightarrow>
     check_r10_resolved m (map_of (wsub_accept_at_least_once s) (m_id m) = Some True)
       (Resolved (case map_of resolved (m_id m) of Some classes \<Rightarrow> classes | None \<Rightarrow> [])) = Inr ()"
  by (simp add: check_r10_def check_r10_resolved_def split: option.splits)

text \<open>
  C35: How the two gates relate. The whole-workflow gate with idempotency classes accepts a
  workflow exactly when the coordinator's gate accepts each of its Motes on its own, with the
  same consent and the same resolved classes (none for a Mote without an entry), and the critics
  of the workflow are coherent, which no Mote shows on its own: every validate-then-commit
  producer has a pure critic, every critic targets a world-mutating Mote of the workflow, and no
  two Motes criticise the same target. The gates differ on a world-mutating Mote whose tools were
  not resolved: the whole-workflow gate passes it as if it had no tools, the coordinator's gate
  refuses it whatever the consent.
\<close>

theorem batch_gate_factors:
  assumes "motes_keyed (wsub_motes s)"
  shows "(validate_submission_with_idempotency s resolved = Inr () \<longleftrightarrow>
      critics_coherent (wsub_motes s) \<and>
      (\<forall>m\<in>set (bt_values (wsub_motes s)).
         validate_mote_submission m (map_of (wsub_accept_at_least_once s) (m_id m) = Some True)
           (Resolved (case map_of resolved (m_id m) of Some classes \<Rightarrow> classes | None \<Rightarrow> [])) = Inr ())) \<and>
    (\<forall>m accept. md_nd_class (m_def m) = WorldMutating \<longrightarrow>
       (map_of resolved (m_id m) = None \<longrightarrow> check_r10 s resolved m = Inr ()) \<and>
       validate_mote_submission m accept Unresolved \<noteq> Inr ())"
proof -
  have "validate_submission_with_idempotency s resolved = Inr () \<longleftrightarrow> admitted_workflow (wsub_motes s) \<and>
      (\<forall>m\<in>set (bt_values (wsub_motes s)). check_r10 s resolved m = Inr ())"
    using validate_submission_ok_iff [OF assms]
    by (simp add: validate_submission_with_idempotency_def and_then_eq_Inr for_each_ok_iff)
  moreover have "validate_mote_submission m accept Unresolved \<noteq> Inr ()" if "md_nd_class (m_def m) = WorldMutating" for m accept
    using that by (simp add: validate_mote_submission_ok_iff check_r10_resolved_def)
  moreover have "check_r10 s resolved m = Inr ()" if "map_of resolved (m_id m) = None" for m
    using that by (simp add: check_r10_def)
  ultimately show ?thesis
    unfolding admitted_workflow_motes validate_mote_submission_ok_iff check_r10_agrees [symmetric] by blast
qed

theorem batch_gate_factors_witness:
  "critics_coherent (wsub_motes sample_submission) \<and>
   validate_mote_submission sample_producer False (Resolved [IcStaged]) = Inr () \<and>
   validate_submission_with_idempotency sample_submission [(1, [IcAtLeastOnce])] \<noteq> Inr ()"
proof -
  have ok: "validate_submission_with_idempotency sample_submission [(1, [IcStaged])] = Inr ()"
    by (simp add: validate_submission_with_idempotency_def validate_submission_def sample_submission_defs
        bt_values_def check_defs check_r4_r5_r7_def check_r6_def check_r15_def is_judge_def
        native_critic_shape_def check_r10_def)
  have producer: "sample_producer \<in> set (bt_values (wsub_motes sample_submission))" "m_id sample_producer = 1"
      "map_of (wsub_accept_at_least_once sample_submission) 1 = None"
    by (simp_all add: sample_submission_defs bt_values_def)
  have "validate_mote_submission sample_producer False (Resolved [IcAtLeastOnce]) \<noteq> Inr ()"
    by (simp add: validate_mote_submission_ok_iff check_r10_resolved_def sample_submission_defs)
  then show ?thesis
    using ok producer batch_gate_factors [OF sample_submission_keyed, of "[(1, [IcStaged])]"]
      batch_gate_factors [OF sample_submission_keyed, of "[(1, [IcAtLeastOnce])]"]
    by (auto dest!: bspec [of _ _ sample_producer])
qed

end
