(* ===== verification/Kx_Resource.thy ===== *)
theory Kx_Resource
  imports Kx_Warrant
begin

text \<open>
  The local resource manager of the executor (\<open>crates/kx-executor/src/resource_manager.rs\<close>):
  capped slots with in-memory accounting. Lock poisoning is outside the model.
\<close>

datatype resource_error =
    CpuCapExceeded u32 u32
  | MemCapExceeded u64 u64
  | FdCapExceeded u32 u32
  | NoCapacity
  | UnknownSlot u64

record resource_state =
  rm_cpu_cap_milli :: u32
  rm_mem_cap_bytes :: u64
  rm_fd_cap :: u32
  rm_next_slot_id :: u64
  rm_outstanding :: "u64 set"

definition resource_manager_new :: "u32 \<Rightarrow> u64 \<Rightarrow> u32 \<Rightarrow> resource_state" where
  "resource_manager_new cpu mem fd =
     \<lparr>rm_cpu_cap_milli = cpu, rm_mem_cap_bytes = mem, rm_fd_cap = fd, rm_next_slot_id = 1, rm_outstanding = {}\<rparr>"

definition dev_defaults :: resource_state where
  "dev_defaults = resource_manager_new (- 1) (- 1) (- 1)"

text \<open>\<open>u64::saturating_add(1)\<close>\<close>

definition saturating_succ :: "u64 \<Rightarrow> u64" where
  "saturating_succ n = (if n = - 1 then n else n + 1)"

definition acquire :: "resource_ceiling \<Rightarrow> resource_state \<Rightarrow> (resource_error, u64) result \<times> resource_state" where
  "acquire ceiling st =
     (if rl_cpu_milli ceiling > rm_cpu_cap_milli st
      then (Inl (CpuCapExceeded (rl_cpu_milli ceiling) (rm_cpu_cap_milli st)), st)
      else if rl_mem_bytes ceiling > rm_mem_cap_bytes st
      then (Inl (MemCapExceeded (rl_mem_bytes ceiling) (rm_mem_cap_bytes st)), st)
      else if rl_fd_count ceiling > rm_fd_cap st
      then (Inl (FdCapExceeded (rl_fd_count ceiling) (rm_fd_cap st)), st)
      else let i = rm_next_slot_id st in
        (Inr i, st\<lparr>rm_next_slot_id := saturating_succ i, rm_outstanding := insert i (rm_outstanding st)\<rparr>))"

definition release :: "u64 \<Rightarrow> resource_state \<Rightarrow> (resource_error, unit) result \<times> resource_state" where
  "release slot st =
     (if slot \<in> rm_outstanding st
      then (Inr (), st\<lparr>rm_outstanding := rm_outstanding st - {slot}\<rparr>)
      else (Inl (UnknownSlot slot), st))"

section \<open>Laws\<close>

text \<open>Slots handed out so far are below the next one, as long as the counter has not saturated.\<close>

definition rm_inv :: "resource_state \<Rightarrow> bool" where
  "rm_inv st \<longleftrightarrow> (\<forall>i \<in> rm_outstanding st. i < rm_next_slot_id st)"

definition rm_fits :: "resource_ceiling \<Rightarrow> resource_state \<Rightarrow> bool" where
  "rm_fits ceiling st \<longleftrightarrow> rl_cpu_milli ceiling \<le> rm_cpu_cap_milli st \<and>
     rl_mem_bytes ceiling \<le> rm_mem_cap_bytes st \<and> rl_fd_count ceiling \<le> rm_fd_cap st"

lemma acquire_ok_iff: "(\<exists>i. fst (acquire ceiling st) = Inr i) \<longleftrightarrow> rm_fits ceiling st"
  by (auto simp: acquire_def rm_fits_def Let_def not_less)

lemma acquire_err: "acquire ceiling st = (Inl e, st') \<Longrightarrow> st' = st"
  by (auto simp: acquire_def Let_def split: if_splits)

lemma acquire_ok:
  assumes "acquire ceiling st = (Inr i, st')"
  shows "i = rm_next_slot_id st" "rm_outstanding st' = insert i (rm_outstanding st)"
    "rm_next_slot_id st' = saturating_succ i"
  using assms by (auto simp: acquire_def Let_def split: if_splits)

lemma saturating_succ_less: "n \<noteq> - 1 \<Longrightarrow> n < saturating_succ n"
proof -
  assume "n \<noteq> - 1"
  then have "1 + n \<noteq> 0" by (metis add.commute eq_neg_iff_add_eq_0)
  then have "unat (1 + n) = Suc (unat n)" by (rule unatSuc)
  then show ?thesis
    using \<open>n \<noteq> - 1\<close> by (simp add: saturating_succ_def word_less_nat_alt add.commute)
qed

lemma acquire_fresh: "rm_inv st \<Longrightarrow> acquire ceiling st = (Inr i, st') \<Longrightarrow> i \<notin> rm_outstanding st"
  using acquire_ok(1) by (fastforce simp: rm_inv_def)

lemma acquire_inv:
  "rm_inv st \<Longrightarrow> rm_next_slot_id st \<noteq> - 1 \<Longrightarrow> acquire ceiling st = (r, st') \<Longrightarrow> rm_inv st'"
  using saturating_succ_less [of "rm_next_slot_id st"]
  by (fastforce simp: acquire_def rm_inv_def Let_def split: if_splits)

lemma release_inv: "rm_inv st \<Longrightarrow> release i st = (r, st') \<Longrightarrow> rm_inv st'"
  by (auto simp: release_def rm_inv_def split: if_splits)

text \<open>A slot that is acquired and then released leaves the books as they were.\<close>

lemma acquire_release:
  assumes "rm_inv st" "acquire ceiling st = (Inr i, st1)" "rm_outstanding st2 = rm_outstanding st1"
  shows "\<exists>st3. release i st2 = (Inr (), st3) \<and> rm_outstanding st3 = rm_outstanding st"
  using acquire_ok [OF assms(2)] acquire_fresh [OF assms(1,2)] assms(3)
  by (auto simp: release_def)

end
