(* ===== verification/Kx_Commit_Protocol.thy ===== *)
theory Kx_Commit_Protocol
  imports Kx_Capability Kx_Refusal Kx_Resource Kx_Projection_Ready
begin

text \<open>
  The commit protocol of the executor (\<open>crates/kx-executor/src/commit_protocol.rs\<close>): how a
  world effect is staged, dispatched, verified and journalled. The journal and the broker are
  used through their interfaces, so that appends may fail and a broker may misbehave; the
  lemmas say what the protocol guarantees all the same.
\<close>

section \<open>The journal as the executor sees it\<close>

text \<open>
  \<open>Journal::append\<close> and \<open>Journal::read_committed\<close> may fail. The error carries nothing the
  executor looks at.
\<close>

datatype journal_fault = JournalFault

record 'j journal_ops =
  jo_append :: "journal_entry \<Rightarrow> 'j \<Rightarrow> (journal_fault, journal_entry) result \<times> 'j"
  jo_read_committed :: "'j \<Rightarrow> mote_id \<Rightarrow> (journal_fault, journal_entry option) result"

text \<open>
  The in-memory journal behind a backend that may refuse an operation: the schedule says, append
  by append, which ones fail, and whether reads fail. A failed append leaves the log as it was.
\<close>

record fjournal =
  fj_journal :: journal
  fj_append_fails :: "bool list"
  fj_read_fails :: bool

definition fjournal_ops :: "hash_fn \<Rightarrow> fjournal journal_ops" where
  "fjournal_ops blake3 =
     \<lparr>jo_append = (\<lambda>e f. case fj_append_fails f of
          True # rest \<Rightarrow> (Inl JournalFault, f\<lparr>fj_append_fails := rest\<rparr>)
        | _ \<Rightarrow> (case append_entry blake3 e (fj_journal f) of
              (x, j) \<Rightarrow> (Inr x, f\<lparr>fj_journal := j, fj_append_fails := tl (fj_append_fails f)\<rparr>))),
      jo_read_committed = (\<lambda>f i. if fj_read_fails f then Inl JournalFault
        else Inr (read_committed i (fj_journal f)))\<rparr>"

section \<open>State and sequencing\<close>

text \<open>What the executor acts on: the journal, the content store, the world behind the broker
  and the resource books.\<close>

record ('j, 's, 'w) sys =
  sy_journal :: 'j
  sy_store :: 's
  sy_world :: 'w
  sy_rm :: resource_state

type_synonym ('e, 'a, 'x) step = "'x \<Rightarrow> ('e, 'a) result \<times> 'x"

text \<open>The \<open>?\<close> operator on stateful code, and \<open>map_err\<close>.\<close>

definition then_st :: "('e, 'a, 'x) step \<Rightarrow> ('a \<Rightarrow> ('e, 'b, 'x) step) \<Rightarrow> ('e, 'b, 'x) step" where
  "then_st m f s = (case m s of (Inl e, s') \<Rightarrow> (Inl e, s') | (Inr a, s') \<Rightarrow> f a s')"

definition err_st :: "('e \<Rightarrow> 'f) \<Rightarrow> ('e, 'a, 'x) step \<Rightarrow> ('f, 'a, 'x) step" where
  "err_st g m s = (case m s of (r, s') \<Rightarrow> (map_err g r, s'))"

definition lift_st :: "('x \<Rightarrow> ('e, 'a) result) \<Rightarrow> ('e, 'a, 'x) step" where
  "lift_st f s = (f s, s)"

definition append_st :: "'j journal_ops \<Rightarrow> journal_entry \<Rightarrow> (journal_fault, journal_entry, ('j, 's, 'w) sys) step" where
  "append_st jo e s = (case jo_append jo e (sy_journal s) of (r, j) \<Rightarrow> (r, s\<lparr>sy_journal := j\<rparr>))"

definition broker_st ::
  "('s \<times> 'w \<Rightarrow> (broker_error, 'a) result \<times> ('s \<times> 'w)) \<Rightarrow> (broker_error, 'a, ('j, 's, 'w) sys) step" where
  "broker_st call s =
     (case call (sy_store s, sy_world s) of (r, (st, w)) \<Rightarrow> (r, s\<lparr>sy_store := st, sy_world := w\<rparr>))"

section \<open>The protocol\<close>

text \<open>Textual reasons are left out of the errors, except for the two parts computed from the broker error.\<close>

datatype commit_protocol_error =
    R11ResultRefIncomplete mote_id content_ref
  | R12CommittedNotProofOfValidity mote_id
  | R13WmReDispatchRefused mote_id
  | ProbeFailed mote_id
  | CompensateFailed mote_id
  | BrokerDispatchFailed mote_id rstring bool
  | ContentStorePutFailed mote_id
  | JournalAppendCommittedFailed mote_id
  | JournalAppendEffectStagedFailed mote_id
  | CommitInternal mote_id

fun error_mote_id :: "commit_protocol_error \<Rightarrow> mote_id" where
  "error_mote_id (R11ResultRefIncomplete i _) = i"
| "error_mote_id (R12CommittedNotProofOfValidity i) = i"
| "error_mote_id (R13WmReDispatchRefused i) = i"
| "error_mote_id (ProbeFailed i) = i"
| "error_mote_id (CompensateFailed i) = i"
| "error_mote_id (BrokerDispatchFailed i _ _) = i"
| "error_mote_id (ContentStorePutFailed i) = i"
| "error_mote_id (JournalAppendCommittedFailed i) = i"
| "error_mote_id (JournalAppendEffectStagedFailed i) = i"
| "error_mote_id (CommitInternal i) = i"

fun is_recovery_refusal :: "commit_protocol_error \<Rightarrow> bool" where
  "is_recovery_refusal (R13WmReDispatchRefused _) = True"
| "is_recovery_refusal (ProbeFailed _) = True"
| "is_recovery_refusal (CompensateFailed _) = True"
| "is_recovery_refusal _ = False"

record commit_input =
  cin_mote :: mote
  cin_warrant :: warrant_spec
  cin_capability :: tool_name
  cin_effect_request :: effect_request
  cin_warrant_ref :: content_ref
  cin_mote_def_hash :: mote_def_hash
  cin_idempotency_key :: array32
  cin_parents :: "parent_entry list"
  cin_idempotency_class :: "idempotency_class option"

definition cin_id :: "commit_input \<Rightarrow> mote_id" where
  "cin_id inp = m_id (cin_mote inp)"

definition enforce_r11 ::
  "'s store_ops \<Rightarrow> mote_id \<Rightarrow> content_ref \<Rightarrow> ('j, 's, 'w) sys \<Rightarrow> (commit_protocol_error, unit) result" where
  "enforce_r11 so i r s =
     (if \<not> so_contains so (sy_store s) r then Inl (R11ResultRefIncomplete i r)
      else if so_get so (sy_store s) r = None then Inl (R11ResultRefIncomplete i r)
      else Inr ())"

definition committed_of_input :: "commit_input \<Rightarrow> content_ref \<Rightarrow> journal_entry" where
  "committed_of_input inp r = Committed
     \<lparr>c_mote_id = cin_id inp, c_idempotency_key = cin_idempotency_key inp, c_seq = 0,
      c_nondeterminism = md_nd_class (m_def (cin_mote inp)), c_result_ref = r,
      c_parents = cin_parents inp, c_warrant_ref = cin_warrant_ref inp,
      c_mote_def_hash = cin_mote_def_hash inp\<rparr>"

definition dispatch_failed :: "(rstring \<Rightarrow> rstring) \<Rightarrow> mote_id \<Rightarrow> broker_error \<Rightarrow> commit_protocol_error" where
  "dispatch_failed quote i e = BrokerDispatchFailed i (model_facing_detail quote e) (is_permanent e)"

text \<open>The tail shared by the three paths: verify the result reference, then append \<open>Committed\<close>.\<close>

definition verify_and_commit ::
  "'j journal_ops \<Rightarrow> 's store_ops \<Rightarrow> commit_input \<Rightarrow> content_ref \<Rightarrow> (commit_protocol_error, u64, ('j, 's, 'w) sys) step"
where
  "verify_and_commit jo so inp r =
     then_st (lift_st (enforce_r11 so (cin_id inp) r)) (\<lambda>_.
     then_st (err_st (\<lambda>_. JournalAppendCommittedFailed (cin_id inp)) (append_st jo (committed_of_input inp r)))
       (\<lambda>written s. (Inr (entry_seq written), s)))"

definition dispatch_and_commit ::
  "(rstring \<Rightarrow> rstring) \<Rightarrow> 'j journal_ops \<Rightarrow> 's store_ops \<Rightarrow> ('s, 'w) broker_ops \<Rightarrow> commit_input \<Rightarrow>
     (commit_protocol_error, u64, ('j, 's, 'w) sys) step"
where
  "dispatch_and_commit quote jo so bo inp =
     then_st (err_st (dispatch_failed quote (cin_id inp))
       (broker_st (bo_dispatch bo (cin_mote inp) (cin_warrant inp) (cin_capability inp) (cin_effect_request inp))))
     (\<lambda>handle. verify_and_commit jo so inp (bh_staged_ref handle))"

definition commit_idempotent where
  "commit_idempotent quote jo so bo inp = dispatch_and_commit quote jo so bo inp"

definition commit_stage_then_commit ::
  "(rstring \<Rightarrow> rstring) \<Rightarrow> 'j journal_ops \<Rightarrow> 's store_ops \<Rightarrow> ('s, 'w) broker_ops \<Rightarrow> commit_input \<Rightarrow>
     (commit_protocol_error, u64, ('j, 's, 'w) sys) step"
where
  "commit_stage_then_commit quote jo so bo inp =
     then_st (err_st (\<lambda>_. JournalAppendEffectStagedFailed (cin_id inp))
       (append_st jo (EffectStaged \<lparr>es_mote_id = cin_id inp, es_idempotency_key = cin_idempotency_key inp, es_seq = 0\<rparr>)))
     (\<lambda>_. dispatch_and_commit quote jo so bo inp)"

definition commit_validate_then_commit where
  "commit_validate_then_commit quote jo so bo inp = dispatch_and_commit quote jo so bo inp"

definition commit ::
  "(rstring \<Rightarrow> rstring) \<Rightarrow> 'j journal_ops \<Rightarrow> 's store_ops \<Rightarrow> ('s, 'w) broker_ops \<Rightarrow> commit_input \<Rightarrow>
     (commit_protocol_error, u64, ('j, 's, 'w) sys) step"
where
  "commit quote jo so bo inp =
     (case md_effect_pattern (m_def (cin_mote inp)) of
        IdempotentByConstruction \<Rightarrow> commit_idempotent quote jo so bo inp
      | StageThenCommit \<Rightarrow> commit_stage_then_commit quote jo so bo inp
      | ValidateThenCommit \<Rightarrow> commit_validate_then_commit quote jo so bo inp)"

definition try_commit_from_readback ::
  "'j journal_ops \<Rightarrow> 's store_ops \<Rightarrow> ('s, 'w) broker_ops \<Rightarrow> commit_input \<Rightarrow>
     (commit_protocol_error, u64 option, ('j, 's, 'w) sys) step"
where
  "try_commit_from_readback jo so bo inp =
     then_st (err_st (\<lambda>_. ProbeFailed (cin_id inp))
       (broker_st (bo_probe_readback bo (cin_mote inp) (cin_warrant inp) (cin_capability inp) (cin_effect_request inp))))
     (\<lambda>found. case found of
        None \<Rightarrow> (\<lambda>s. (Inr None, s))
      | Some handle \<Rightarrow>
          then_st (verify_and_commit jo so inp (bh_staged_ref handle)) (\<lambda>seq s. (Inr (Some seq), s)))"

definition failed_entry_of :: "mote_id \<Rightarrow> array32 \<Rightarrow> failure_reason \<Rightarrow> journal_entry" where
  "failed_entry_of i key reason = Failed
     \<lparr>f_mote_id = i, f_idempotency_key = key, f_seq = 0, f_reason_class = reason, f_reporter_id = 0, f_detail = []\<rparr>"

definition try_compensate ::
  "'j journal_ops \<Rightarrow> 's store_ops \<Rightarrow> ('s, 'w) broker_ops \<Rightarrow> commit_input \<Rightarrow>
     (commit_protocol_error, u64 option, ('j, 's, 'w) sys) step"
where
  "try_compensate jo so bo inp =
     then_st (err_st (\<lambda>_. CompensateFailed (cin_id inp))
       (broker_st (bo_compensate bo (cin_mote inp) (cin_warrant inp) (cin_capability inp) (cin_effect_request inp))))
     (\<lambda>found. case found of
        None \<Rightarrow> (\<lambda>s. (Inr None, s))
      | Some handle \<Rightarrow>
          then_st (lift_st (enforce_r11 so (cin_id inp) (bh_staged_ref handle))) (\<lambda>_.
          then_st (err_st (\<lambda>_. CommitInternal (cin_id inp))
            (append_st jo (failed_entry_of (cin_id inp) (cin_idempotency_key inp) CompensatedAtLeastOnce)))
            (\<lambda>written s. (Inr (Some (entry_seq written)), s))))"

text \<open>The protocol as the lifecycle uses it (\<open>trait CommitProtocol\<close>).\<close>

record 'x commit_ops =
  co_commit :: "commit_input \<Rightarrow> (commit_protocol_error, u64, 'x) step"
  co_try_commit_from_readback :: "commit_input \<Rightarrow> (commit_protocol_error, u64 option, 'x) step"
  co_try_compensate :: "commit_input \<Rightarrow> (commit_protocol_error, u64 option, 'x) step"

definition standard_commit_protocol ::
  "(rstring \<Rightarrow> rstring) \<Rightarrow> 'j journal_ops \<Rightarrow> 's store_ops \<Rightarrow> ('s, 'w) broker_ops \<Rightarrow> ('j, 's, 'w) sys commit_ops"
where
  "standard_commit_protocol quote jo so bo =
     \<lparr>co_commit = commit quote jo so bo, co_try_commit_from_readback = try_commit_from_readback jo so bo,
      co_try_compensate = try_compensate jo so bo\<rparr>"

lemma standard_commit_protocol_simps [simp]:
  "co_commit (standard_commit_protocol quote jo so bo) = commit quote jo so bo"
  "co_try_commit_from_readback (standard_commit_protocol quote jo so bo) = try_commit_from_readback jo so bo"
  "co_try_compensate (standard_commit_protocol quote jo so bo) = try_compensate jo so bo"
  by (simp_all add: standard_commit_protocol_def)

section \<open>Runs\<close>

text \<open>A relation every run of a step establishes between its start and its end.\<close>

definition runs :: "('x \<Rightarrow> 'x \<Rightarrow> bool) \<Rightarrow> ('e, 'a, 'x) step \<Rightarrow> bool" where
  "runs R m \<longleftrightarrow> (\<forall>s r s'. m s = (r, s') \<longrightarrow> R s s')"

lemma runsD: "runs R m \<Longrightarrow> m s = (r, s') \<Longrightarrow> R s s'"
  by (auto simp: runs_def)

lemma runs_snd: "runs R m \<longleftrightarrow> (\<forall>s. R s (snd (m s)))"
  unfolding runs_def by (metis prod.collapse snd_conv)

lemma runs_then:
  assumes "transp R" "runs R m" "\<And>a. runs R (f a)"
  shows "runs R (then_st m f)"
  using assms unfolding runs_snd then_st_def
  by (auto split: prod.splits sum.splits dest: transpD) (metis snd_conv transpD)+

lemma runs_err: "runs R m \<Longrightarrow> runs R (err_st g m)"
  by (auto simp: runs_def err_st_def split: prod.splits)

lemma runs_lift: "reflp R \<Longrightarrow> runs R (lift_st f)"
  by (auto simp: runs_def lift_st_def reflp_def)

lemma runs_return: "reflp R \<Longrightarrow> runs R (\<lambda>s. (f s, s))"
  by (auto simp: runs_def reflp_def)

lemma then_st_Inr:
  "then_st m f s = (Inr b, s'') \<longleftrightarrow> (\<exists>a s'. m s = (Inr a, s') \<and> f a s' = (Inr b, s''))"
  by (auto simp: then_st_def split: prod.splits sum.splits)

lemma err_st_Inr: "err_st g m s = (Inr a, s') \<longleftrightarrow> m s = (Inr a, s')"
  by (auto simp: err_st_def map_err_def split: prod.splits sum.splits)

lemma lift_st_Inr: "lift_st f s = (Inr a, s') \<longleftrightarrow> f s = Inr a \<and> s' = s"
  by (auto simp: lift_st_def)

lemma then_st_cases:
  assumes "then_st m f s = (r, s')"
  obtains (stop) e where "m s = (Inl e, s')" "r = Inl e"
  | (go) a s1 where "m s = (Inr a, s1)" "f a s1 = (r, s')"
  using assms by (auto simp: then_st_def split: prod.splits sum.splits)

lemmas step_simps = then_st_Inr err_st_Inr lift_st_Inr

section \<open>The journal port\<close>

text \<open>Deduplicated facts of the executor carry the Mote identity as their key.\<close>

fun keyed :: "journal_entry \<Rightarrow> bool" where
  "keyed (Committed c) = (c_idempotency_key c = c_mote_id c)"
| "keyed (EffectStaged e) = (es_idempotency_key e = es_mote_id e)"
| "keyed _ = True"

text \<open>
  What the executor relies on of a journal: a failed append changes nothing; a successful one
  returns an entry of the log, which is the one it wrote or, for a deduplicated kind, an earlier
  entry of the same kind and key; reads answer from the log.
\<close>

locale journal_port =
  fixes jo :: "'j journal_ops"
    and jlog :: "'j \<Rightarrow> journal_entry list"
    and jinv :: "'j \<Rightarrow> bool"
  assumes append_inv: "jinv j \<Longrightarrow> jo_append jo e j = (q, j') \<Longrightarrow> jinv j'"
    and inv_unique: "jinv j \<Longrightarrow> facts_unique (jlog j)"
    and append_err: "jo_append jo e j = (Inl x, j') \<Longrightarrow> jlog j' = jlog j"
    and append_ok: "jo_append jo e j = (Inr y, j') \<Longrightarrow> entry_kind e \<noteq> KIND_REPUDIATED \<Longrightarrow>
        (\<exists>n. y = set_seq n e \<and> jlog j' = jlog j @ [y] \<and> (dedupes e \<longrightarrow> (\<forall>x \<in> set (jlog j). \<not> same_fact e x))) \<or>
        (jlog j' = jlog j \<and> y \<in> set (jlog j) \<and> dedupes e \<and> same_fact e y)"
    and read_log: "jo_read_committed jo j i = Inr r \<Longrightarrow> r = find (is_committed_for i) (jlog j)"
begin

text \<open>The log grows at its end by keyed entries of the given kinds about the given Motes.\<close>

definition grows :: "mote_id set \<Rightarrow> u8 set \<Rightarrow> ('j, 's, 'w) sys \<Rightarrow> ('j, 's, 'w) sys \<Rightarrow> bool" where
  "grows ids kinds s s' \<longleftrightarrow> (jinv (sy_journal s) \<longrightarrow> jinv (sy_journal s')) \<and> (\<exists>new. jlog (sy_journal s') = jlog (sy_journal s) @ new \<and>
     (\<forall>e \<in> set new. keyed e \<and> entry_kind e \<in> kinds \<and> (\<exists>i \<in> ids. entry_target e = Some i)))"

lemma grows_refl: "reflp (grows ids kinds)"
  by (simp add: reflp_def grows_def)

lemma grows_trans: "transp (grows ids kinds)"
proof (rule transpI)
  fix a b c
  assume ab: "grows ids kinds a b" and bc: "grows ids kinds b c"
  from ab obtain x where "jlog (sy_journal b) = jlog (sy_journal a) @ x"
      "\<forall>e \<in> set x. keyed e \<and> entry_kind e \<in> kinds \<and> (\<exists>i \<in> ids. entry_target e = Some i)"
    by (auto simp: grows_def)
  moreover from bc obtain y where "jlog (sy_journal c) = jlog (sy_journal b) @ y"
      "\<forall>e \<in> set y. keyed e \<and> entry_kind e \<in> kinds \<and> (\<exists>i \<in> ids. entry_target e = Some i)"
    by (auto simp: grows_def)
  ultimately show "grows ids kinds a c"
    using ab bc unfolding grows_def by (intro conjI exI [of _ "x @ y"]) (simp_all add: ball_Un)
qed

lemma grows_mono:
  assumes "grows ids kinds s s'" "ids \<subseteq> ids'" "kinds \<subseteq> kinds'"
  shows "grows ids' kinds' s s'"
proof -
  obtain x where "jlog (sy_journal s') = jlog (sy_journal s) @ x"
      "\<forall>e \<in> set x. keyed e \<and> entry_kind e \<in> kinds \<and> (\<exists>i \<in> ids. entry_target e = Some i)"
    using assms(1) by (auto simp: grows_def)
  then have "\<forall>e \<in> set x. keyed e \<and> entry_kind e \<in> kinds' \<and> (\<exists>i \<in> ids'. entry_target e = Some i)"
    using assms(2,3) by blast
  then show ?thesis
    using assms(1) \<open>jlog (sy_journal s') = _\<close> by (simp add: grows_def)
qed

lemma grows_log: "grows ids kinds s s' \<Longrightarrow> e \<in> set (jlog (sy_journal s)) \<Longrightarrow> e \<in> set (jlog (sy_journal s'))"
  by (auto simp: grows_def)

lemma grows_same_log: "sy_journal s' = sy_journal s \<Longrightarrow> grows ids kinds s s'"
  by (simp add: grows_def)

lemma keyed_set_seq [simp]: "keyed (set_seq n e) = keyed e"
  by (cases e) simp_all

lemma entry_target_set_seq [simp]: "entry_target (set_seq n e) = entry_target e"
  by (cases e) simp_all

lemma append_st_grows:
  assumes "keyed e" "entry_target e = Some i" "i \<in> ids" "entry_kind e \<in> kinds" "entry_kind e \<noteq> KIND_REPUDIATED"
  shows "runs (grows ids kinds) (append_st jo e)"
proof -
  have "grows ids kinds s (s\<lparr>sy_journal := j\<rparr>)" if a: "jo_append jo e (sy_journal s) = (r, j)" for s r j
  proof (cases r)
    case (Inl x)
    then show ?thesis using append_err append_inv a by (fastforce simp: grows_def)
  next
    case (Inr y)
    then have "jo_append jo e (sy_journal s) = (Inr y, j)" using a by simp
    from append_ok [OF this assms(5)] show ?thesis
      using assms append_inv [OF _ a] by (auto simp: grows_def)
  qed
  then show ?thesis
    by (auto simp: runs_def append_st_def split: prod.splits)
qed

lemma broker_st_same: "broker_st call s = (r, s') \<Longrightarrow> sy_journal s' = sy_journal s \<and> sy_rm s' = sy_rm s"
  by (auto simp: broker_st_def split: prod.splits)

lemma append_st_same: "append_st jo e s = (r, s') \<Longrightarrow>
    sy_store s' = sy_store s \<and> sy_world s' = sy_world s \<and> sy_rm s' = sy_rm s"
  by (auto simp: append_st_def split: prod.splits)

lemma broker_st_grows: "runs (grows ids kinds) (broker_st call)"
  using broker_st_same by (force simp: runs_def grows_def)

lemma committed_of_input_simps [simp]:
  "cin_idempotency_key inp = cin_id inp \<Longrightarrow> keyed (committed_of_input inp r)"
  "entry_target (committed_of_input inp r) = Some (cin_id inp)"
  "entry_kind (committed_of_input inp r) = KIND_COMMITTED"
  "idempotency_key (committed_of_input inp r) = cin_idempotency_key inp"
  by (simp_all add: committed_of_input_def)

lemma failed_entry_of_simps [simp]:
  "keyed (failed_entry_of i k reason)" "entry_target (failed_entry_of i k reason) = Some i"
  "entry_kind (failed_entry_of i k reason) = KIND_FAILED"
  by (simp_all add: failed_entry_of_def)

lemmas runs_intros = runs_then runs_err runs_lift runs_return grows_trans grows_refl
  append_st_grows broker_st_grows

lemma verify_and_commit_grows:
  "cin_idempotency_key inp = cin_id inp \<Longrightarrow> cin_id inp \<in> ids \<Longrightarrow> KIND_COMMITTED \<in> kinds \<Longrightarrow> runs (grows ids kinds) (verify_and_commit jo so inp r)"
  unfolding verify_and_commit_def by (auto intro!: runs_intros)

lemma dispatch_and_commit_grows:
  "cin_idempotency_key inp = cin_id inp \<Longrightarrow> cin_id inp \<in> ids \<Longrightarrow> KIND_COMMITTED \<in> kinds \<Longrightarrow>
     runs (grows ids kinds) (dispatch_and_commit quote jo so bo inp)"
  unfolding dispatch_and_commit_def by (auto intro!: runs_intros verify_and_commit_grows)

lemma commit_grows:
  "cin_idempotency_key inp = cin_id inp \<Longrightarrow> cin_id inp \<in> ids \<Longrightarrow>
     KIND_COMMITTED \<in> kinds \<Longrightarrow> KIND_EFFECT_STAGED \<in> kinds \<Longrightarrow> runs (grows ids kinds) (commit quote jo so bo inp)"
  unfolding commit_def commit_idempotent_def commit_stage_then_commit_def commit_validate_then_commit_def
  by (auto intro!: runs_intros dispatch_and_commit_grows split: effect_pattern.splits)

lemma try_commit_from_readback_grows:
  "cin_idempotency_key inp = cin_id inp \<Longrightarrow> cin_id inp \<in> ids \<Longrightarrow> KIND_COMMITTED \<in> kinds \<Longrightarrow>
     runs (grows ids kinds) (try_commit_from_readback jo so bo inp)"
  unfolding try_commit_from_readback_def
  by (auto intro!: runs_intros verify_and_commit_grows split: option.splits)

lemma try_compensate_grows:
  "cin_id inp \<in> ids \<Longrightarrow> KIND_FAILED \<in> kinds \<Longrightarrow> runs (grows ids kinds) (try_compensate jo so bo inp)"
  unfolding try_compensate_def by (auto intro!: runs_intros split: option.splits)

text \<open>
  A successful commit leaves a \<open>Committed\<close> entry of the Mote in the log, with the returned
  sequence number; when it is a new one, its result is in the store.
\<close>

lemma committed_same_fact:
  assumes "same_fact (committed_of_input inp r) y" "keyed y" "cin_idempotency_key inp = cin_id inp"
  shows "\<exists>c. y = Committed c \<and> c_mote_id c = cin_id inp"
  using assms by (cases y) (auto simp: same_fact_def committed_of_input_def)

definition holds_commit :: "'s store_ops \<Rightarrow> mote_id \<Rightarrow> u64 \<Rightarrow> ('j, 's, 'w) sys \<Rightarrow> ('j, 's, 'w) sys \<Rightarrow> bool" where
  "holds_commit so i n s s' \<longleftrightarrow> (\<exists>c. Committed c \<in> set (jlog (sy_journal s')) \<and> c_mote_id c = i \<and> c_seq c = n \<and>
     (Committed c \<in> set (jlog (sy_journal s)) \<or> so_get so (sy_store s') (c_result_ref c) \<noteq> None))"

lemma verify_and_commit_ok:
  assumes "verify_and_commit jo so inp r s = (Inr n, s')" "cin_idempotency_key inp = cin_id inp"
    and "\<forall>e \<in> set (jlog (sy_journal s)). keyed e"
  shows "holds_commit so (cin_id inp) n s s' \<and> so_get so (sy_store s') r \<noteq> None"
proof -
  obtain y where y: "so_get so (sy_store s) r \<noteq> None" "append_st jo (committed_of_input inp r) s = (Inr y, s')"
      "n = entry_seq y"
    using assms(1) by (auto simp: verify_and_commit_def step_simps enforce_r11_def split: if_splits)
  then have same: "sy_store s' = sy_store s"
    using append_st_same by blast
  have "jo_append jo (committed_of_input inp r) (sy_journal s) = (Inr y, sy_journal s')"
    using y(2) by (auto simp: append_st_def split: prod.splits)
  from append_ok [OF this] consider
    (new) k where "y = set_seq k (committed_of_input inp r)" "y \<in> set (jlog (sy_journal s'))"
    | (old) "jlog (sy_journal s') = jlog (sy_journal s)" "y \<in> set (jlog (sy_journal s))"
      "same_fact (committed_of_input inp r) y"
    by auto
  then show ?thesis
  proof cases
    case new
    then show ?thesis
      using y same by (auto simp: holds_commit_def committed_of_input_def)
  next
    case old
    obtain c where "y = Committed c" "c_mote_id c = cin_id inp"
      using committed_same_fact [OF old(3) _ assms(2)] old(2) assms(3) by blast
    with old y same show ?thesis
      by (auto simp: holds_commit_def)
  qed
qed

lemma holds_commit_after:
  assumes "holds_commit so i n s s'" "jlog (sy_journal s) = jlog (sy_journal s0) \<or>
      (\<exists>e. jlog (sy_journal s) = jlog (sy_journal s0) @ [e] \<and> entry_kind e \<noteq> KIND_COMMITTED)"
  shows "holds_commit so i n s0 s'"
  using assms by (fastforce simp: holds_commit_def)

lemma dispatch_and_commit_ok:
  assumes "dispatch_and_commit quote jo so bo inp s = (Inr n, s')" "cin_idempotency_key inp = cin_id inp"
    and "\<forall>e \<in> set (jlog (sy_journal s)). keyed e"
  shows "holds_commit so (cin_id inp) n s s'"
proof -
  obtain h s1 where h: "broker_st (bo_dispatch bo (cin_mote inp) (cin_warrant inp) (cin_capability inp)
      (cin_effect_request inp)) s = (Inr h, s1)" "verify_and_commit jo so inp (bh_staged_ref h) s1 = (Inr n, s')"
    using assms(1) by (auto simp: dispatch_and_commit_def step_simps)
  then have j: "sy_journal s1 = sy_journal s"
    using broker_st_same by blast
  have "holds_commit so (cin_id inp) n s1 s'"
    using verify_and_commit_ok [OF h(2) assms(2)] assms(3) j by simp
  then show ?thesis
    by (rule holds_commit_after) (simp add: j)
qed

lemma staged_append:
  assumes "append_st jo (EffectStaged \<lparr>es_mote_id = i, es_idempotency_key = i, es_seq = 0\<rparr>) s = (Inr y, s')"
    and "\<forall>e \<in> set (jlog (sy_journal s)). keyed e"
  shows "\<exists>e \<in> set (jlog (sy_journal s')). is_staged i e"
    and "jlog (sy_journal s') = jlog (sy_journal s) \<or>
      (\<exists>e. jlog (sy_journal s') = jlog (sy_journal s) @ [e] \<and> entry_kind e \<noteq> KIND_COMMITTED \<and> keyed e)"
proof -
  let ?e = "EffectStaged \<lparr>es_mote_id = i, es_idempotency_key = i, es_seq = 0\<rparr>"
  have "jo_append jo ?e (sy_journal s) = (Inr y, sy_journal s')"
    using assms(1) by (auto simp: append_st_def split: prod.splits)
  from append_ok [OF this] consider
    (new) k where "y = set_seq k ?e" "jlog (sy_journal s') = jlog (sy_journal s) @ [y]"
    | (old) "jlog (sy_journal s') = jlog (sy_journal s)" "y \<in> set (jlog (sy_journal s))" "same_fact ?e y"
    by auto
  note c = this
  from c show "\<exists>e \<in> set (jlog (sy_journal s')). is_staged i e"
  proof cases
    case old
    then have "is_staged i y"
      using assms(2) by (cases y) (auto simp: same_fact_def)
    with old show ?thesis by auto
  qed simp
  from c show "jlog (sy_journal s') = jlog (sy_journal s) \<or>
      (\<exists>e. jlog (sy_journal s') = jlog (sy_journal s) @ [e] \<and> entry_kind e \<noteq> KIND_COMMITTED \<and> keyed e)"
    by cases auto
qed

lemma commit_ok:
  assumes "commit quote jo so bo inp s = (Inr n, s')" "cin_idempotency_key inp = cin_id inp"
    and "\<forall>e \<in> set (jlog (sy_journal s)). keyed e"
  shows "holds_commit so (cin_id inp) n s s'"
proof (cases "md_effect_pattern (m_def (cin_mote inp))")
  case StageThenCommit
  then obtain y s1 where a: "append_st jo (EffectStaged \<lparr>es_mote_id = cin_id inp, es_idempotency_key = cin_id inp,
        es_seq = 0\<rparr>) s = (Inr y, s1)"
      and d: "dispatch_and_commit quote jo so bo inp s1 = (Inr n, s')"
    using assms(1,2) by (auto simp: commit_def commit_stage_then_commit_def step_simps)
  note g = staged_append(2) [OF a assms(3)]
  then have "\<forall>e \<in> set (jlog (sy_journal s1)). keyed e"
    using assms(3) by auto
  then have "holds_commit so (cin_id inp) n s1 s'"
    by (rule dispatch_and_commit_ok [OF d assms(2)])
  then show ?thesis
    by (rule holds_commit_after) (use g in blast)
qed (use assms in \<open>simp_all add: commit_def commit_idempotent_def commit_validate_then_commit_def
    dispatch_and_commit_ok\<close>)

text \<open>
  Stage-then-commit: as long as \<open>EffectStaged\<close> is not in the log the broker is not called, whatever
  it would do; and the broker is called once.
\<close>

lemma dispatch_and_commit_outside:
  assumes "dispatch_and_commit quote jo so bo inp s = (r, s')"
  shows "(sy_store s', sy_world s') =
    snd (bo_dispatch bo (cin_mote inp) (cin_warrant inp) (cin_capability inp) (cin_effect_request inp) (sy_store s, sy_world s))"
  using assms
  by (auto simp: dispatch_and_commit_def verify_and_commit_def then_st_def err_st_def lift_st_def broker_st_def append_st_def
      split: prod.splits sum.splits)

lemma stage_before_effect:
  assumes "commit quote jo so bo inp s = (r, s')" "cin_idempotency_key inp = cin_id inp"
    and "md_effect_pattern (m_def (cin_mote inp)) = StageThenCommit"
    and "\<forall>e \<in> set (jlog (sy_journal s)). keyed e"
  obtains (unstaged) "\<And>bo'. commit quote jo so bo' inp s = (r, s')" "sy_world s' = sy_world s" "sy_store s' = sy_store s"
  | (staged) s1 where "\<exists>e \<in> set (jlog (sy_journal s1)). is_staged (cin_id inp) e"
      "grows {cin_id inp} {KIND_EFFECT_STAGED} s s1" "sy_world s1 = sy_world s" "sy_store s1 = sy_store s"
      "dispatch_and_commit quote jo so bo inp s1 = (r, s')"
proof -
  let ?e = "EffectStaged \<lparr>es_mote_id = cin_id inp, es_idempotency_key = cin_id inp, es_seq = 0\<rparr>"
  obtain q s1 where a: "append_st jo ?e s = (q, s1)" by fastforce
  have c: "commit quote jo so bo' inp s =
      (case q of Inl _ \<Rightarrow> (Inl (JournalAppendEffectStagedFailed (cin_id inp)), s1)
       | Inr _ \<Rightarrow> dispatch_and_commit quote jo so bo' inp s1)" for bo'
    using a assms(2,3)
    by (simp add: commit_def commit_stage_then_commit_def then_st_def err_st_def map_err_def split: sum.splits)
  show thesis
  proof (cases q)
    case (Inl x)
    then show ?thesis using unstaged c assms(1) append_st_same [OF a] by simp
  next
    case (Inr y)
    have "grows {cin_id inp} {KIND_EFFECT_STAGED} s s1"
      using runsD [OF append_st_grows a] by simp
    then show ?thesis
      using staged [of s1] c assms(1,4) append_st_same [OF a] staged_append(1) [of "cin_id inp" s y s1] a Inr by simp
  qed
qed

end

lemma fjournal_append_cases:
  assumes "jo_append (fjournal_ops blake3) e f = (q, f')"
  obtains (fail) "q = Inl JournalFault" "fj_journal f' = fj_journal f"
  | (wrote) x j where "append_entry blake3 e (fj_journal f) = (x, j)" "q = Inr x" "fj_journal f' = j"
  using assms by (auto simp: fjournal_ops_def split: list.splits bool.splits prod.splits)

interpretation fj: journal_port "fjournal_ops blake3" "\<lambda>f. j_entries (fj_journal f)"
    "\<lambda>f. journal_inv blake3 (fj_journal f)" for blake3
proof (unfold_locales, goal_cases)
  case (1 j e q j')
  from 1(2) show ?case
  proof (cases rule: fjournal_append_cases)
    case (wrote x jn)
    then show ?thesis using append_entry_inv [OF 1(1), of e] by simp
  qed (use 1(1) in simp)
next
  case (2 j)
  then show ?case by (simp add: journal_inv_def)
next
  case (3 e j x j')
  then show ?case by (cases rule: fjournal_append_cases [OF 3]) auto
next
  case (4 e j y j')
  then have d: "derive_key blake3 e = e" by (cases e) simp_all
  from 4(1) show ?case
  proof (cases rule: fjournal_append_cases)
    case (wrote x jn)
    show ?thesis
    proof (cases rule: append_entry_cases [of blake3 e "fj_journal j"])
      case (hit z)
      then show ?thesis using wrote d by simp
    next
      case new
      then have "x = set_seq (j_next_seq (fj_journal j) + 1) e" "j_entries jn = j_entries (fj_journal j) @ [x]"
        using wrote(1) d by auto
      then show ?thesis
        using wrote(2,3) new(1) d by (auto simp: existing_None)
    qed
  qed simp
next
  case (5 j i r)
  then show ?case by (auto simp: fjournal_ops_def read_committed_def split: if_splits)
qed

end
