(* ===== verification/Kx_Lifecycle.thy ===== *)
theory Kx_Lifecycle
  imports Kx_Commit_Protocol
begin

text \<open>
  The Mote lifecycle of the executor (\<open>crates/kx-executor/src/lifecycle.rs\<close>, \<open>verify.rs\<close>):
  running a pure Mote, running a world-mutating Mote, recovering a staged effect after a crash,
  and re-running a pure Mote to verify it. Every early return and every release of the resource
  slot is a branch of the model; textual reasons are left out of the errors.
\<close>

section \<open>Types\<close>

datatype mote_executor_error =
    BackendUnsupported executor_class
  | RootfsExtractFailed
  | SandboxLoadFailed
  | ProfileSyntaxError nat
  | RlimitFailed
  | ProcessSpawnFailed
  | WallClockTimedOut u64
  | BodyExited
  | ExecutorInternal

record mote_execution_result =
  xr_result_ref :: content_ref
  xr_started_at_epoch_ms :: u64
  xr_finished_at_epoch_ms :: u64

text \<open>\<open>MoteExecutor::run\<close>, foreign to this crate: it may write to the store and touch the world.\<close>

type_synonym ('s, 'w) mote_executor =
  "mote \<Rightarrow> warrant_spec \<Rightarrow> 's \<times> 'w \<Rightarrow> (mote_executor_error, mote_execution_result) result \<times> ('s \<times> 'w)"

datatype lifecycle_error =
    Refused submission_refusal
  | ResourceAcquire resource_error
  | ExecutorRun mote_executor_error
  | JournalAppend
  | CommitProtocolErr commit_protocol_error
  | LifecycleInternal

record lifecycle_commit =
  lc_committed_seq :: u64
  lc_result_ref :: content_ref
  lc_mote_id :: mote_id

record wm_lifecycle_commit =
  wlc_committed_seq :: u64
  wlc_result_ref :: content_ref
  wlc_mote_id :: mote_id
  wlc_critic_proposed_seq :: "u64 option"

datatype recovery_action = Redispatch | CommitFromReadback | Compensate | Quarantine

datatype recovery_route = ProbeThenRedispatch | CompensateOrQuarantine

definition recovery_route_for :: "idempotency_class option \<Rightarrow> recovery_route" where
  "recovery_route_for cls =
     (case cls of
        Some IcAtLeastOnce \<Rightarrow> CompensateOrQuarantine
      | Some IcToken \<Rightarrow> ProbeThenRedispatch | Some IcReadback \<Rightarrow> ProbeThenRedispatch
      | Some IcStaged \<Rightarrow> ProbeThenRedispatch | None \<Rightarrow> ProbeThenRedispatch)"

datatype wm_recovery_outcome =
    RecoveryCommitted wm_lifecycle_commit recovery_action
  | TerminallyFailed mote_id u64 recovery_action

text \<open>The two content hashes the lifecycle computes: of a Mote definition and of a warrant.\<close>

record codec =
  cd_blake3 :: hash_fn
  cd_enc_def :: "mote_def \<Rightarrow> bytes"
  cd_enc_warrant :: "warrant_spec \<Rightarrow> bytes"

definition def_hash :: "codec \<Rightarrow> mote \<Rightarrow> mote_def_hash" where
  "def_hash cd m = mote_def_hash_of (cd_blake3 cd) (cd_enc_def cd) (m_def m)"

definition wref :: "codec \<Rightarrow> warrant_spec \<Rightarrow> content_ref" where
  "wref cd w = warrant_ref_of_spec (cd_blake3 cd) (cd_enc_warrant cd) w"

section \<open>Steps\<close>

definition acquire_st :: "warrant_spec \<Rightarrow> (lifecycle_error, u64, ('j, 's, 'w) sys) step" where
  "acquire_st warrant s =
     (case acquire (ws_resource_ceiling warrant) (sy_rm s) of (r, rm) \<Rightarrow> (map_err ResourceAcquire r, s\<lparr>sy_rm := rm\<rparr>))"

definition release_st :: "u64 \<Rightarrow> (lifecycle_error, unit, ('j, 's, 'w) sys) step" where
  "release_st slot s = (case release slot (sy_rm s) of (r, rm) \<Rightarrow> (map_err ResourceAcquire r, s\<lparr>sy_rm := rm\<rparr>))"

text \<open>\<open>let _ = resource_manager.release(slot)\<close> before an error return.\<close>

definition or_release :: "u64 \<Rightarrow> ('e, 'a, ('j, 's, 'w) sys) step \<Rightarrow> ('e, 'a, ('j, 's, 'w) sys) step" where
  "or_release slot m s =
     (case m s of
        (Inl e, s') \<Rightarrow> (Inl e, s'\<lparr>sy_rm := snd (release slot (sy_rm s'))\<rparr>)
      | (Inr a, s') \<Rightarrow> (Inr a, s'))"

definition run_st ::
  "('s, 'w) mote_executor \<Rightarrow> mote \<Rightarrow> warrant_spec \<Rightarrow> (mote_executor_error, mote_execution_result, ('j, 's, 'w) sys) step"
where
  "run_st executor m warrant s =
     (case executor m warrant (sy_store s, sy_world s) of (r, (st, w)) \<Rightarrow> (r, s\<lparr>sy_store := st, sy_world := w\<rparr>))"

definition proposed_of :: "mote_id \<Rightarrow> nd_class \<Rightarrow> content_ref \<Rightarrow> journal_entry" where
  "proposed_of i nd warrant_ref = Proposed
     \<lparr>p_mote_id = i, p_idempotency_key = i, p_seq = 0, p_nondeterminism = nd, p_placement_hint = 0,
      p_warrant_ref = warrant_ref\<rparr>"

definition serve_if_committed ::
  "'j journal_ops \<Rightarrow> mote_id \<Rightarrow> ('j, 's, 'w) sys \<Rightarrow> (lifecycle_error, (u64 \<times> content_ref) option) result"
where
  "serve_if_committed jo i s =
     (case jo_read_committed jo (sy_journal s) i of
        Inl _ \<Rightarrow> Inl JournalAppend
      | Inr (Some (Committed c)) \<Rightarrow> Inr (Some (c_seq c, c_result_ref c))
      | Inr _ \<Rightarrow> Inr None)"

definition append_lc :: "'j journal_ops \<Rightarrow> journal_entry \<Rightarrow> (lifecycle_error, journal_entry, ('j, 's, 'w) sys) step" where
  "append_lc jo e = err_st (\<lambda>_. JournalAppend) (append_st jo e)"

section \<open>Pure Motes\<close>

definition finish_pure ::
  "codec \<Rightarrow> 'j journal_ops \<Rightarrow> mote \<Rightarrow> warrant_spec \<Rightarrow> u64 \<Rightarrow> mote_execution_result \<Rightarrow>
     (lifecycle_error, lifecycle_commit, ('j, 's, 'w) sys) step"
where
  "finish_pure cd jo m warrant slot res =
     then_st (append_lc jo (proposed_of (m_id m) Pure (wref cd warrant))) (\<lambda>_.
     then_st (append_lc jo (Committed
       \<lparr>c_mote_id = m_id m, c_idempotency_key = m_id m, c_seq = 0, c_nondeterminism = Pure,
        c_result_ref = xr_result_ref res, c_parents = [], c_warrant_ref = wref cd warrant,
        c_mote_def_hash = def_hash cd m\<rparr>)) (\<lambda>committed.
     then_st (release_st slot) (\<lambda>_ s.
       (Inr \<lparr>lc_committed_seq = entry_seq committed, lc_result_ref = xr_result_ref res, lc_mote_id = m_id m\<rparr>, s))))"

definition run_pure_fresh ::
  "codec \<Rightarrow> 'j journal_ops \<Rightarrow> ('s, 'w) mote_executor \<Rightarrow> mote \<Rightarrow> warrant_spec \<Rightarrow>
     (lifecycle_error, lifecycle_commit, ('j, 's, 'w) sys) step"
where
  "run_pure_fresh cd jo executor m warrant =
     then_st (acquire_st warrant) (\<lambda>slot.
     then_st (or_release slot (err_st ExecutorRun (run_st executor m warrant))) (\<lambda>res.
     finish_pure cd jo m warrant slot res))"

definition run_pure_mote ::
  "codec \<Rightarrow> 'j journal_ops \<Rightarrow> ('s, 'w) mote_executor \<Rightarrow> mote \<Rightarrow> warrant_spec \<Rightarrow>
     (lifecycle_error, lifecycle_commit, ('j, 's, 'w) sys) step"
where
  "run_pure_mote cd jo executor m warrant =
     (if md_nd_class (m_def m) \<noteq> Pure then (\<lambda>s. (Inl LifecycleInternal, s))
      else then_st (lift_st (serve_if_committed jo (m_id m))) (\<lambda>found. case found of
          Some (seq, r) \<Rightarrow> (\<lambda>s. (Inr \<lparr>lc_committed_seq = seq, lc_result_ref = r, lc_mote_id = m_id m\<rparr>, s))
        | None \<Rightarrow> run_pure_fresh cd jo executor m warrant))"

section \<open>World-mutating Motes\<close>

definition schedule_sibling_critic ::
  "'j journal_ops \<Rightarrow> mote \<Rightarrow> mote_map \<Rightarrow> content_ref \<Rightarrow> (lifecycle_error, u64 option, ('j, 's, 'w) sys) step"
where
  "schedule_sibling_critic jo m submission_motes warrant_ref =
     (if md_effect_pattern (m_def m) \<noteq> ValidateThenCommit then (\<lambda>s. (Inr None, s))
      else case find (\<lambda>x. md_critic_for (m_def x) = Some (m_id m)) (bt_values submission_motes) of
          None \<Rightarrow> (\<lambda>s. (Inr None, s))
        | Some critic \<Rightarrow>
            then_st (append_lc jo (proposed_of (m_id critic) (md_nd_class (m_def critic)) warrant_ref))
              (\<lambda>e s. (Inr (Some (entry_seq e)), s)))"

definition read_committed_result_ref ::
  "'j journal_ops \<Rightarrow> mote_id \<Rightarrow> ('j, 's, 'w) sys \<Rightarrow> (lifecycle_error, content_ref) result"
where
  "read_committed_result_ref jo i s =
     (case jo_read_committed jo (sy_journal s) i of
        Inl _ \<Rightarrow> Inl JournalAppend
      | Inr (Some (Committed c)) \<Rightarrow> Inr (c_result_ref c)
      | Inr _ \<Rightarrow> Inl LifecycleInternal)"

definition commit_input_of ::
  "codec \<Rightarrow> mote \<Rightarrow> warrant_spec \<Rightarrow> tool_name \<Rightarrow> effect_request \<Rightarrow> idempotency_class option \<Rightarrow> commit_input"
where
  "commit_input_of cd m warrant capability req cls =
     \<lparr>cin_mote = m, cin_warrant = warrant, cin_capability = capability, cin_effect_request = req,
      cin_warrant_ref = wref cd warrant, cin_mote_def_hash = def_hash cd m, cin_idempotency_key = m_id m,
      cin_parents = [], cin_idempotency_class = cls\<rparr>"

text \<open>The tail shared by a first run and a recovery: the critic, the result reference, the slot.\<close>

definition finish_wm ::
  "codec \<Rightarrow> 'j journal_ops \<Rightarrow> mote \<Rightarrow> warrant_spec \<Rightarrow> mote_map \<Rightarrow> u64 \<Rightarrow> u64 \<Rightarrow>
     (lifecycle_error, wm_lifecycle_commit, ('j, 's, 'w) sys) step"
where
  "finish_wm cd jo m warrant submission_motes slot committed_seq =
     then_st (or_release slot (schedule_sibling_critic jo m submission_motes (wref cd warrant))) (\<lambda>critic_seq.
     then_st (or_release slot (lift_st (read_committed_result_ref jo (m_id m)))) (\<lambda>result_ref.
     then_st (release_st slot) (\<lambda>_ s.
       (Inr \<lparr>wlc_committed_seq = committed_seq, wlc_result_ref = result_ref, wlc_mote_id = m_id m,
          wlc_critic_proposed_seq = critic_seq\<rparr>, s))))"

definition run_wm_fresh ::
  "codec \<Rightarrow> 'j journal_ops \<Rightarrow> ('j, 's, 'w) sys commit_ops \<Rightarrow> mote \<Rightarrow> warrant_spec \<Rightarrow> tool_name \<Rightarrow> effect_request \<Rightarrow>
     mote_map \<Rightarrow> (lifecycle_error, wm_lifecycle_commit, ('j, 's, 'w) sys) step"
where
  "run_wm_fresh cd jo cp m warrant capability req submission_motes =
     then_st (acquire_st warrant) (\<lambda>slot.
     then_st (or_release slot (append_lc jo (proposed_of (m_id m) (md_nd_class (m_def m)) (wref cd warrant)))) (\<lambda>_.
     then_st (or_release slot (err_st CommitProtocolErr
       (co_commit cp (commit_input_of cd m warrant capability req None)))) (\<lambda>committed_seq.
     finish_wm cd jo m warrant submission_motes slot committed_seq)))"

definition run_wm_mote ::
  "codec \<Rightarrow> 'j journal_ops \<Rightarrow> ('j, 's, 'w) sys commit_ops \<Rightarrow> mote \<Rightarrow> warrant_spec \<Rightarrow> tool_name \<Rightarrow> effect_request \<Rightarrow>
     mote_map \<Rightarrow> (lifecycle_error, wm_lifecycle_commit, ('j, 's, 'w) sys) step"
where
  "run_wm_mote cd jo cp m warrant capability req submission_motes =
     (if md_nd_class (m_def m) = Pure then (\<lambda>s. (Inl LifecycleInternal, s))
      else then_st (lift_st (serve_if_committed jo (m_id m))) (\<lambda>found. case found of
          Some (seq, r) \<Rightarrow> (\<lambda>s. (Inr \<lparr>wlc_committed_seq = seq, wlc_result_ref = r, wlc_mote_id = m_id m,
            wlc_critic_proposed_seq = None\<rparr>, s))
        | None \<Rightarrow> run_wm_fresh cd jo cp m warrant capability req submission_motes))"

section \<open>Recovery\<close>

definition compensate_or_quarantine ::
  "'j journal_ops \<Rightarrow> ('j, 's, 'w) sys commit_ops \<Rightarrow> mote \<Rightarrow> array32 \<Rightarrow> commit_input \<Rightarrow>
     (lifecycle_error, wm_recovery_outcome, ('j, 's, 'w) sys) step"
where
  "compensate_or_quarantine jo cp m key inp =
     then_st (err_st CommitProtocolErr (co_try_compensate cp inp)) (\<lambda>undone. case undone of
        Some failed_seq \<Rightarrow> (\<lambda>s. (Inr (TerminallyFailed (m_id m) failed_seq Compensate), s))
      | None \<Rightarrow>
          then_st (append_lc jo (failed_entry_of (m_id m) key QuarantinedAtLeastOnce)) (\<lambda>written s.
            (Inr (TerminallyFailed (m_id m) (entry_seq written) Quarantine), s)))"

definition quiet_release :: "u64 \<Rightarrow> ('e, 'a, ('j, 's, 'w) sys) step \<Rightarrow> ('e, 'a, ('j, 's, 'w) sys) step" where
  "quiet_release slot m s = (case m s of (r, s') \<Rightarrow> (r, s'\<lparr>sy_rm := snd (release slot (sy_rm s'))\<rparr>))"

definition probe_or_redispatch ::
  "('j, 's, 'w) sys commit_ops \<Rightarrow> u64 \<Rightarrow> commit_input \<Rightarrow> (lifecycle_error, u64 \<times> recovery_action, ('j, 's, 'w) sys) step"
where
  "probe_or_redispatch cp slot inp =
     then_st (or_release slot (err_st CommitProtocolErr (co_try_commit_from_readback cp inp))) (\<lambda>found. case found of
        Some seq \<Rightarrow> (\<lambda>s. (Inr (seq, CommitFromReadback), s))
      | None \<Rightarrow> then_st (or_release slot (err_st CommitProtocolErr (co_commit cp inp)))
          (\<lambda>seq s. (Inr (seq, Redispatch), s)))"

definition redispatch_wm_mote ::
  "codec \<Rightarrow> 'j journal_ops \<Rightarrow> ('j, 's, 'w) sys commit_ops \<Rightarrow> (mote_id \<Rightarrow> bool) \<Rightarrow> mote \<Rightarrow> warrant_spec \<Rightarrow> tool_name \<Rightarrow>
     effect_request \<Rightarrow> idempotency_class option \<Rightarrow> mote_map \<Rightarrow>
     (lifecycle_error, wm_recovery_outcome, ('j, 's, 'w) sys) step"
where
  "redispatch_wm_mote cd jo cp oracle m warrant capability req cls submission_motes =
     (if md_nd_class (m_def m) = Pure then (\<lambda>s. (Inl LifecycleInternal, s))
      else if \<not> oracle (m_id m) then (\<lambda>s. (Inl (CommitProtocolErr (R13WmReDispatchRefused (m_id m))), s))
      else then_st (acquire_st warrant) (\<lambda>slot.
        let inp = commit_input_of cd m warrant capability req cls in
        case recovery_route_for cls of
          CompensateOrQuarantine \<Rightarrow> quiet_release slot (compensate_or_quarantine jo cp m (m_id m) inp)
        | ProbeThenRedispatch \<Rightarrow>
            then_st (probe_or_redispatch cp slot inp) (\<lambda>(committed_seq, action).
            then_st (finish_wm cd jo m warrant submission_motes slot committed_seq) (\<lambda>c s.
              (Inr (RecoveryCommitted c action), s)))))"

section \<open>Verification by re-run (verify.rs)\<close>

datatype verify_outcome = Confirmed content_ref | Diverged content_ref content_ref

datatype verify_error = NotPure nd_class | VerifyResource resource_error | VerifyExecutorRun mote_executor_error

definition verify_pure_rerun ::
  "('s, 'w) mote_executor \<Rightarrow> mote \<Rightarrow> warrant_spec \<Rightarrow> content_ref \<Rightarrow> (verify_error, verify_outcome, ('j, 's, 'w) sys) step"
where
  "verify_pure_rerun executor m warrant expected s =
     (if md_nd_class (m_def m) \<noteq> Pure then (Inl (NotPure (md_nd_class (m_def m))), s)
      else case acquire (ws_resource_ceiling warrant) (sy_rm s) of
          (Inl e, rm) \<Rightarrow> (Inl (VerifyResource e), s\<lparr>sy_rm := rm\<rparr>)
        | (Inr slot, rm) \<Rightarrow>
            (case run_st executor m warrant (s\<lparr>sy_rm := rm\<rparr>) of
               (run_result, s1) \<Rightarrow>
                 (case release slot (sy_rm s1) of
                    (release_result, rm2) \<Rightarrow>
                      (and_then (map_err VerifyExecutorRun run_result) (\<lambda>res.
                       and_then (map_err VerifyResource release_result) (\<lambda>_.
                       Inr (if xr_result_ref res = expected then Confirmed (xr_result_ref res)
                            else Diverged expected (xr_result_ref res)))),
                       s1\<lparr>sy_rm := rm2\<rparr>))))"

section \<open>Resource slots are bracketed\<close>

text \<open>
  Between \<open>acquire\<close> and \<open>release\<close> a step either keeps the slot and succeeds or gives it back
  and fails (\<open>keeps\<close>), and in the end it is given back on every path (\<open>closes\<close>).
\<close>

definition rm_same :: "('j, 's, 'w) sys \<Rightarrow> ('j, 's, 'w) sys \<Rightarrow> bool" where
  "rm_same s s' \<longleftrightarrow> sy_rm s' = sy_rm s"

definition keeps :: "u64 \<Rightarrow> ('e, 'a, ('j, 's, 'w) sys) step \<Rightarrow> bool" where
  "keeps slot m \<longleftrightarrow> (\<forall>s r s'. m s = (r, s') \<longrightarrow> slot \<in> rm_outstanding (sy_rm s) \<longrightarrow>
     rm_outstanding (sy_rm s') =
       (case r of Inl _ \<Rightarrow> rm_outstanding (sy_rm s) - {slot} | Inr _ \<Rightarrow> rm_outstanding (sy_rm s)))"

definition closes :: "u64 \<Rightarrow> ('e, 'a, ('j, 's, 'w) sys) step \<Rightarrow> bool" where
  "closes slot m \<longleftrightarrow> (\<forall>s r s'. m s = (r, s') \<longrightarrow> slot \<in> rm_outstanding (sy_rm s) \<longrightarrow>
     rm_outstanding (sy_rm s') = rm_outstanding (sy_rm s) - {slot})"

lemma rm_same_refl: "reflp rm_same"
  by (simp add: reflp_def rm_same_def)

lemma rm_same_trans: "transp rm_same"
  by (simp add: transp_def rm_same_def)

lemma append_st_rm: "runs rm_same (append_st jo e)"
  by (auto simp: runs_def rm_same_def append_st_def split: prod.splits)

lemma broker_st_rm: "runs rm_same (broker_st call)"
  by (auto simp: runs_def rm_same_def broker_st_def split: prod.splits)

lemma run_st_rm: "runs rm_same (run_st executor m warrant)"
  by (auto simp: runs_def rm_same_def run_st_def split: prod.splits)

lemmas rm_intros = runs_then runs_err runs_lift runs_return rm_same_trans rm_same_refl
  append_st_rm broker_st_rm run_st_rm

lemma verify_and_commit_rm: "runs rm_same (verify_and_commit jo so inp r)"
  unfolding verify_and_commit_def by (intro rm_intros)

lemma dispatch_and_commit_rm: "runs rm_same (dispatch_and_commit quote jo so bo inp)"
  unfolding dispatch_and_commit_def by (intro rm_intros verify_and_commit_rm)

lemma commit_rm: "runs rm_same (commit quote jo so bo inp)"
  unfolding commit_def commit_idempotent_def commit_stage_then_commit_def commit_validate_then_commit_def
  by (auto intro!: rm_intros dispatch_and_commit_rm split: effect_pattern.splits)

lemma try_commit_from_readback_rm: "runs rm_same (try_commit_from_readback jo so bo inp)"
  unfolding try_commit_from_readback_def
  by (auto intro!: rm_intros verify_and_commit_rm split: option.splits)

lemma try_compensate_rm: "runs rm_same (try_compensate jo so bo inp)"
  unfolding try_compensate_def by (auto intro!: rm_intros split: option.splits)

lemma append_lc_rm: "runs rm_same (append_lc jo e)"
  unfolding append_lc_def by (intro rm_intros)

lemma schedule_sibling_critic_rm: "runs rm_same (schedule_sibling_critic jo m motes wr)"
  unfolding schedule_sibling_critic_def
  by (auto intro!: rm_intros append_lc_rm split: option.splits)

lemma or_release_keeps: "runs rm_same m \<Longrightarrow> keeps slot (or_release slot m)"
  by (fastforce simp: keeps_def or_release_def runs_def rm_same_def release_def
      split: prod.splits sum.splits)

lemma keeps_return: "keeps slot (\<lambda>s. (Inr x, s))"
  by (simp add: keeps_def)

lemma keepsD:
  assumes "keeps slot m" "m s = (r, s')" "slot \<in> rm_outstanding (sy_rm s)"
  shows "rm_outstanding (sy_rm s') =
    (case r of Inl _ \<Rightarrow> rm_outstanding (sy_rm s) - {slot} | Inr _ \<Rightarrow> rm_outstanding (sy_rm s))"
  using assms unfolding keeps_def by blast

lemma closesD:
  assumes "closes slot m" "m s = (r, s')" "slot \<in> rm_outstanding (sy_rm s)"
  shows "rm_outstanding (sy_rm s') = rm_outstanding (sy_rm s) - {slot}"
  using assms unfolding closes_def by blast

lemma keeps_then:
  assumes "keeps slot m" "\<And>a. keeps slot (f a)"
  shows "keeps slot (then_st m f)"
  unfolding keeps_def
proof (intro allI impI)
  fix s r s' assume "then_st m f s = (r, s')" and slot: "slot \<in> rm_outstanding (sy_rm s)"
  then show "rm_outstanding (sy_rm s') =
      (case r of Inl _ \<Rightarrow> rm_outstanding (sy_rm s) - {slot} | Inr _ \<Rightarrow> rm_outstanding (sy_rm s))"
  proof (cases rule: then_st_cases)
    case (go a s1)
    then show ?thesis
      using keepsD [OF assms(1) go(1) slot] keepsD [OF assms(2) go(2)] slot by (simp split: sum.splits)
  qed (use keepsD [OF assms(1) _ slot] in simp)
qed

lemma closes_then:
  assumes "keeps slot m" "\<And>a. closes slot (f a)"
  shows "closes slot (then_st m f)"
  unfolding closes_def
proof (intro allI impI)
  fix s r s' assume "then_st m f s = (r, s')" and slot: "slot \<in> rm_outstanding (sy_rm s)"
  then show "rm_outstanding (sy_rm s') = rm_outstanding (sy_rm s) - {slot}"
  proof (cases rule: then_st_cases)
    case (go a s1)
    then show ?thesis
      using keepsD [OF assms(1) go(1) slot] closesD [OF assms(2) go(2)] slot by simp
  qed (use keepsD [OF assms(1) _ slot] in simp)
qed

lemma closes_map:
  assumes "closes slot m"
  shows "closes slot (then_st m (\<lambda>a s. (g a, s)))"
  unfolding closes_def
proof (intro allI impI)
  fix s r s' assume "then_st m (\<lambda>a s. (g a, s)) s = (r, s')" and slot: "slot \<in> rm_outstanding (sy_rm s)"
  then show "rm_outstanding (sy_rm s') = rm_outstanding (sy_rm s) - {slot}"
    by (cases rule: then_st_cases) (use closesD [OF assms _ slot] in auto)
qed

lemma release_closes: "closes slot (release_st slot)"
  by (auto simp: closes_def release_st_def release_def split: prod.splits if_splits)

lemma quiet_release_closes: "runs rm_same m \<Longrightarrow> closes slot (quiet_release slot m)"
  by (fastforce simp: closes_def quiet_release_def runs_def rm_same_def release_def split: prod.splits)

lemma acquire_closes:
  assumes "rm_inv (sy_rm s)" "\<And>slot. closes slot (f slot)" "then_st (acquire_st warrant) f s = (r, s')"
  shows "rm_outstanding (sy_rm s') = rm_outstanding (sy_rm s)"
proof (cases "acquire (ws_resource_ceiling warrant) (sy_rm s)")
  case (Pair q rm)
  show ?thesis
  proof (cases q)
    case (Inl e)
    then show ?thesis
      using assms(3) Pair acquire_err [of "ws_resource_ceiling warrant" "sy_rm s" e rm]
      by (auto simp: then_st_def acquire_st_def)
  next
    case (Inr slot)
    then have run: "f slot (s\<lparr>sy_rm := rm\<rparr>) = (r, s')"
      using assms(3) Pair by (simp add: then_st_def acquire_st_def)
    have a: "acquire (ws_resource_ceiling warrant) (sy_rm s) = (Inr slot, rm)"
      using Pair Inr by simp
    note ok = acquire_ok [OF a] acquire_fresh [OF assms(1) a]
    then have "rm_outstanding (sy_rm s') = rm_outstanding rm - {slot}"
      using assms(2) [of slot] run unfolding closes_def by fastforce
    then show ?thesis using ok by simp
  qed
qed

lemma finish_wm_closes: "closes slot (finish_wm cd jo m warrant motes slot n)"
  unfolding finish_wm_def
  by (intro closes_then or_release_keeps closes_map release_closes schedule_sibling_critic_rm rm_intros)

lemma run_wm_fresh_outstanding:
  assumes "rm_inv (sy_rm s)" "run_wm_fresh cd jo (standard_commit_protocol quote jo so bo) m warrant cap req motes s = (r, s')"
  shows "rm_outstanding (sy_rm s') = rm_outstanding (sy_rm s)"
  by (rule acquire_closes [OF assms(1) _ assms(2) [unfolded run_wm_fresh_def]])
    (auto intro!: closes_then or_release_keeps finish_wm_closes append_lc_rm runs_err commit_rm
      simp: standard_commit_protocol_def)

lemma compensate_or_quarantine_rm:
  "runs rm_same (compensate_or_quarantine jo (standard_commit_protocol quote jo so bo) m key inp)"
  unfolding compensate_or_quarantine_def standard_commit_protocol_def
  by (auto intro!: rm_intros append_lc_rm try_compensate_rm split: option.splits)

lemma probe_or_redispatch_keeps: "keeps slot (probe_or_redispatch (standard_commit_protocol quote jo so bo) slot inp)"
  unfolding probe_or_redispatch_def standard_commit_protocol_def
  by (auto intro!: keeps_then or_release_keeps keeps_return runs_err commit_rm try_commit_from_readback_rm
      split: option.splits)

lemma redispatch_outstanding:
  assumes "rm_inv (sy_rm s)"
    and "redispatch_wm_mote cd jo (standard_commit_protocol quote jo so bo) oracle m warrant cap req cls motes s = (r, s')"
  shows "rm_outstanding (sy_rm s') = rm_outstanding (sy_rm s)"
proof (cases "md_nd_class (m_def m) = Pure \<or> \<not> oracle (m_id m)")
  case True
  then show ?thesis using assms(2) by (auto simp: redispatch_wm_mote_def split: if_splits)
next
  case False
  then show ?thesis
    using assms(2) unfolding redispatch_wm_mote_def
    by (auto simp: Let_def split: recovery_route.splits
        elim!: acquire_closes [OF assms(1), rotated]
        intro!: quiet_release_closes compensate_or_quarantine_rm closes_then probe_or_redispatch_keeps
          closes_map finish_wm_closes)
qed

lemma run_wm_outstanding:
  assumes "rm_inv (sy_rm s)"
    and "run_wm_mote cd jo (standard_commit_protocol quote jo so bo) m warrant cap req motes s = (r, s')"
  shows "rm_outstanding (sy_rm s') = rm_outstanding (sy_rm s)"
proof (cases "md_nd_class (m_def m) = Pure")
  case False
  then have "then_st (lift_st (serve_if_committed jo (m_id m))) (\<lambda>found. case found of
          Some (seq, r) \<Rightarrow> (\<lambda>s. (Inr \<lparr>wlc_committed_seq = seq, wlc_result_ref = r, wlc_mote_id = m_id m,
            wlc_critic_proposed_seq = None\<rparr>, s))
        | None \<Rightarrow> run_wm_fresh cd jo (standard_commit_protocol quote jo so bo) m warrant cap req motes) s = (r, s')"
    using assms(2) by (simp add: run_wm_mote_def)
  then show ?thesis
    by (cases rule: then_st_cases)
      (auto simp: lift_st_def split: option.splits prod.splits dest: run_wm_fresh_outstanding [OF assms(1)])
qed (use assms(2) in \<open>simp add: run_wm_mote_def\<close>)

text \<open>
  A pure run gives its slot back unless an append to the journal fails: that error path returns
  with the slot still booked.
\<close>

lemma append_lc_ok: "append_lc jo e s = (Inr y, s') \<Longrightarrow> sy_rm s' = sy_rm s"
  by (auto simp: append_lc_def err_st_def append_st_def map_err_def split: prod.splits sum.splits)

lemma append_lc_err: "append_lc jo e s = (Inl x, s') \<Longrightarrow> sy_rm s' = sy_rm s \<and> x = JournalAppend"
  by (auto simp: append_lc_def err_st_def append_st_def map_err_def split: prod.splits sum.splits)

lemma release_st_ok:
  assumes "release_st slot s = (q, s')" "slot \<in> rm_outstanding (sy_rm s)"
  shows "rm_outstanding (sy_rm s') = rm_outstanding (sy_rm s) - {slot}" "\<exists>a. q = Inr a"
  using assms by (auto simp: release_st_def release_def split: prod.splits if_splits)

lemma finish_pure_outstanding:
  assumes "finish_pure cd jo m warrant slot res s = (r, s')" and slot: "slot \<in> rm_outstanding (sy_rm s)"
  shows "rm_outstanding (sy_rm s') = (if r = Inl JournalAppend then rm_outstanding (sy_rm s)
      else rm_outstanding (sy_rm s) - {slot})"
  using assms(1) unfolding finish_pure_def
proof (cases rule: then_st_cases)
  case (go a s1)
  note g1 = go append_lc_ok [OF go(1)]
  from go(2) show ?thesis
  proof (cases rule: then_st_cases)
    case (go b s2)
    note g2 = go append_lc_ok [OF go(1)]
    from go(2) show ?thesis
    proof (cases rule: then_st_cases)
      case (stop e)
      then show ?thesis using release_st_ok [OF stop(1)] slot g1 g2 by auto
    next
      case (go u s3)
      then show ?thesis using release_st_ok [OF go(1)] slot g1 g2 by auto
    qed
  next
    case (stop e)
    then show ?thesis using append_lc_err [OF stop(1)] g1 by simp
  qed
next
  case (stop e)
  then show ?thesis using append_lc_err [OF stop(1)] by simp
qed

lemma run_pure_fresh_outstanding:
  assumes inv: "rm_inv (sy_rm s)" and run: "run_pure_fresh cd jo executor m warrant s = (r, s')"
  shows "rm_outstanding (sy_rm s') =
    (if r = Inl JournalAppend then insert (rm_next_slot_id (sy_rm s)) (rm_outstanding (sy_rm s))
     else rm_outstanding (sy_rm s))"
  using run unfolding run_pure_fresh_def
proof (cases rule: then_st_cases)
  case (stop e)
  then show ?thesis
    by (cases "acquire (ws_resource_ceiling warrant) (sy_rm s)")
      (auto simp: acquire_st_def map_err_def dest: acquire_err split: sum.splits)
next
  case (go slot s1)
  then have a: "acquire (ws_resource_ceiling warrant) (sy_rm s) = (Inr slot, sy_rm s1)"
    by (auto simp: acquire_st_def map_err_def split: prod.splits sum.splits)
  note ok = acquire_ok [OF a] acquire_fresh [OF inv a]
  have k: "keeps slot (or_release slot (err_st ExecutorRun (run_st executor m warrant)))"
    by (intro or_release_keeps rm_intros)
  from go(2) show ?thesis
  proof (cases rule: then_st_cases)
    case (stop e)
    then have "e \<noteq> JournalAppend"
      by (auto simp: or_release_def err_st_def map_err_def split: prod.splits sum.splits)
    then show ?thesis using keepsD [OF k stop(1)] stop ok by simp
  next
    case (go res s2)
    then show ?thesis using keepsD [OF k go(1)] finish_pure_outstanding [OF go(2)] ok by auto
  qed
qed

end
