(* ===== verification/Kx_Executor_Properties.thy ===== *)
theory Kx_Executor_Properties
  imports Kx_Lifecycle
begin

text \<open>
  What the executor guarantees, over any broker, store and executor backend and under any
  failures of the journal: what it writes, that a commit is durable, that a committed Mote is
  served and not run again, that a staged effect is never forgotten nor blindly repeated, and
  that its journal always replays into a projection.
\<close>

section \<open>What the executor writes\<close>

context journal_port
begin

lemma or_release_grows: "runs (grows ids kinds) m \<Longrightarrow> runs (grows ids kinds) (or_release slot m)"
  by (fastforce simp: runs_def or_release_def grows_def split: prod.splits sum.splits)

lemma quiet_release_grows: "runs (grows ids kinds) m \<Longrightarrow> runs (grows ids kinds) (quiet_release slot m)"
  by (fastforce simp: runs_def quiet_release_def grows_def split: prod.splits)

lemma acquire_st_grows: "runs (grows ids kinds) (acquire_st warrant)"
  by (auto simp: runs_def acquire_st_def grows_def split: prod.splits)

lemma release_st_grows: "runs (grows ids kinds) (release_st slot)"
  by (auto simp: runs_def release_st_def grows_def split: prod.splits)

lemma run_st_grows: "runs (grows ids kinds) (run_st executor m warrant)"
  by (auto simp: runs_def run_st_def grows_def split: prod.splits)

lemma append_lc_grows:
  assumes "keyed e" "entry_target e = Some i" "i \<in> ids" "entry_kind e \<in> kinds" "entry_kind e \<noteq> KIND_REPUDIATED"
  shows "runs (grows ids kinds) (append_lc jo e)"
  unfolding append_lc_def by (intro runs_err append_st_grows [OF assms])

lemma proposed_of_simps [simp]:
  "keyed (proposed_of i nd w)" "entry_target (proposed_of i nd w) = Some i" "entry_kind (proposed_of i nd w) = KIND_PROPOSED"
  by (simp_all add: proposed_of_def)

lemma append_proposed_grows:
  "i \<in> ids \<Longrightarrow> KIND_PROPOSED \<in> kinds \<Longrightarrow> runs (grows ids kinds) (append_lc jo (proposed_of i nd w))"
  by (rule append_lc_grows [where i = i]) simp_all

lemma append_failed_grows:
  "i \<in> ids \<Longrightarrow> KIND_FAILED \<in> kinds \<Longrightarrow> runs (grows ids kinds) (append_lc jo (failed_entry_of i k reason))"
  by (rule append_lc_grows [where i = i]) simp_all

lemma append_committed_grows:
  "c_idempotency_key c = c_mote_id c \<Longrightarrow> c_mote_id c \<in> ids \<Longrightarrow> KIND_COMMITTED \<in> kinds \<Longrightarrow>
     runs (grows ids kinds) (append_lc jo (Committed c))"
  by (rule append_lc_grows [where i = "c_mote_id c"]) simp_all

lemmas lc_intros = runs_then runs_err runs_lift runs_return grows_trans grows_refl or_release_grows
  quiet_release_grows acquire_st_grows release_st_grows run_st_grows
  append_proposed_grows append_failed_grows append_committed_grows

lemma finish_pure_grows:
  "m_id m \<in> ids \<Longrightarrow> {KIND_PROPOSED, KIND_COMMITTED} \<subseteq> kinds \<Longrightarrow> runs (grows ids kinds) (finish_pure cd jo m warrant slot res)"
  unfolding finish_pure_def by (auto intro!: lc_intros)

lemma run_pure_mote_grows:
  "m_id m \<in> ids \<Longrightarrow> {KIND_PROPOSED, KIND_COMMITTED} \<subseteq> kinds \<Longrightarrow> runs (grows ids kinds) (run_pure_mote cd jo executor m warrant)"
  unfolding run_pure_mote_def run_pure_fresh_def
  by (auto intro!: lc_intros finish_pure_grows split: option.splits prod.splits)

text \<open>The Motes a world-mutating run may write about: itself, and its critic when it has to schedule one.\<close>

definition wm_ids :: "mote \<Rightarrow> mote_map \<Rightarrow> mote_id set" where
  "wm_ids m motes = insert (m_id m)
     (if md_effect_pattern (m_def m) = ValidateThenCommit
      then {m_id c | c. c \<in> set (bt_values motes) \<and> md_critic_for (m_def c) = Some (m_id m)} else {})"

lemma wm_ids_self [simp]: "m_id m \<in> wm_ids m motes"
  by (simp add: wm_ids_def)

lemma wm_ids_critic:
  "md_effect_pattern (m_def m) = ValidateThenCommit \<Longrightarrow>
   find (\<lambda>x. md_critic_for (m_def x) = Some (m_id m)) (bt_values motes) = Some c \<Longrightarrow> m_id c \<in> wm_ids m motes"
  by (auto simp: wm_ids_def find_Some_iff in_set_conv_nth)

lemma schedule_sibling_critic_grows:
  "KIND_PROPOSED \<in> kinds \<Longrightarrow> runs (grows (wm_ids m motes) kinds) (schedule_sibling_critic jo m motes w)"
  unfolding schedule_sibling_critic_def
  by (auto intro!: lc_intros wm_ids_critic split: option.splits)

lemma finish_wm_grows:
  "KIND_PROPOSED \<in> kinds \<Longrightarrow> runs (grows (wm_ids m motes) kinds) (finish_wm cd jo m warrant motes slot n)"
  unfolding finish_wm_def by (auto intro!: lc_intros schedule_sibling_critic_grows)

lemma commit_input_of_simps [simp]:
  "cin_id (commit_input_of cd m warrant cap req cls) = m_id m"
  "cin_idempotency_key (commit_input_of cd m warrant cap req cls) = m_id m"
  "cin_mote (commit_input_of cd m warrant cap req cls) = m"
  by (simp_all add: commit_input_of_def cin_id_def)

lemma run_wm_mote_grows:
  assumes "{KIND_PROPOSED, KIND_COMMITTED, KIND_EFFECT_STAGED} \<subseteq> kinds"
  shows "runs (grows (wm_ids m motes) kinds)
    (run_wm_mote cd jo (standard_commit_protocol quote jo so bo) m warrant cap req motes)"
  unfolding run_wm_mote_def run_wm_fresh_def standard_commit_protocol_def
  using assms by (auto intro!: lc_intros finish_wm_grows commit_grows split: option.splits prod.splits)

lemma recovery_route_alo: "recovery_route_for cls = CompensateOrQuarantine \<longleftrightarrow> cls = Some IcAtLeastOnce"
  by (simp add: recovery_route_for_def split: option.splits idempotency_class.splits)

lemma redispatch_wm_mote_grows:
  assumes "{KIND_PROPOSED, KIND_COMMITTED, KIND_EFFECT_STAGED} \<subseteq> kinds" "cls = Some IcAtLeastOnce \<Longrightarrow> KIND_FAILED \<in> kinds"
  shows "runs (grows (wm_ids m motes) kinds)
    (redispatch_wm_mote cd jo (standard_commit_protocol quote jo so bo) oracle m warrant cap req cls motes)"
  unfolding redispatch_wm_mote_def compensate_or_quarantine_def probe_or_redispatch_def standard_commit_protocol_def
  using assms recovery_route_alo [of cls]
  by (auto intro!: lc_intros finish_wm_grows commit_grows try_commit_from_readback_grows try_compensate_grows
      simp: Let_def split: option.splits prod.splits recovery_route.splits)

section \<open>What a result stands for\<close>

definition outside_same :: "('j, 's, 'w) sys \<Rightarrow> ('j, 's, 'w) sys \<Rightarrow> bool" where
  "outside_same s s' \<longleftrightarrow> sy_store s' = sy_store s \<and> sy_world s' = sy_world s"

lemma outside_refl: "reflp outside_same"
  by (simp add: reflp_def outside_same_def)

lemma outside_trans: "transp outside_same"
  by (simp add: transp_def outside_same_def)

lemma append_lc_outside: "runs outside_same (append_lc jo e)"
  by (auto simp: runs_def append_lc_def err_st_def append_st_def outside_same_def split: prod.splits)

lemma or_release_outside: "runs outside_same m \<Longrightarrow> runs outside_same (or_release slot m)"
  by (fastforce simp: runs_def or_release_def outside_same_def split: prod.splits sum.splits)

lemma acquire_st_outside: "runs outside_same (acquire_st warrant)"
  by (auto simp: runs_def acquire_st_def outside_same_def split: prod.splits)

lemma release_st_outside: "runs outside_same (release_st slot)"
  by (auto simp: runs_def release_st_def outside_same_def split: prod.splits)

lemmas outside_intros = runs_then runs_err runs_lift runs_return outside_trans outside_refl
  append_lc_outside or_release_outside acquire_st_outside release_st_outside

lemma finish_wm_outside: "runs outside_same (finish_wm cd jo m warrant motes slot n)"
  unfolding finish_wm_def schedule_sibling_critic_def
  by (auto intro!: outside_intros split: option.splits)

lemma keyed_grows:
  "grows ids kinds s s' \<Longrightarrow> \<forall>e \<in> set (jlog (sy_journal s)). keyed e \<Longrightarrow> \<forall>e \<in> set (jlog (sy_journal s')). keyed e"
  by (auto simp: grows_def)

lemma inv_grows: "grows ids kinds s s' \<Longrightarrow> jinv (sy_journal s) \<Longrightarrow> jinv (sy_journal s')"
  by (simp add: grows_def)

lemma one_committed:
  assumes "jinv j" "\<forall>e \<in> set (jlog j). keyed e" "Committed c \<in> set (jlog j)" "Committed d \<in> set (jlog j)"
    and "c_mote_id c = c_mote_id d"
  shows "c = d"
proof -
  have "c_idempotency_key c = c_idempotency_key d"
    using assms(2) [rule_format, OF assms(3)] assms(2) [rule_format, OF assms(4)] assms(5) by simp
  then show ?thesis
    using facts_unique_eq [OF inv_unique [OF assms(1)] assms(3,4)] by (simp add: dedupes_def)
qed

lemma read_finds:
  assumes "jo_read_committed jo j i = Inr (Some e)"
  shows "\<exists>c. e = Committed c \<and> Committed c \<in> set (jlog j) \<and> c_mote_id c = i"
proof -
  have "find (is_committed_for i) (jlog j) = Some e"
    using read_log [OF assms] by simp
  then have "e \<in> set (jlog j)" "is_committed_for i e"
    by (auto simp: find_Some_iff in_set_conv_nth)
  then show ?thesis by (auto elim: is_committed_for.elims(2))
qed

lemma read_none:
  assumes "jo_read_committed jo j i = Inr None" "Committed c \<in> set (jlog j)"
  shows "c_mote_id c \<noteq> i"
proof -
  have "find (is_committed_for i) (jlog j) = None"
    using read_log [OF assms(1)] by simp
  then show ?thesis using assms(2) by (auto simp: find_None_iff)
qed

text \<open>
  A recorded result: the one \<open>Committed\<close> entry of the Mote, with this sequence number and
  reference, that was in the log before or whose bytes are in the store.
\<close>

definition recorded :: "'s store_ops \<Rightarrow> mote_id \<Rightarrow> u64 \<Rightarrow> content_ref \<Rightarrow> ('j, 's, 'w) sys \<Rightarrow> ('j, 's, 'w) sys \<Rightarrow> bool" where
  "recorded so i n r s s' \<longleftrightarrow>
     (\<exists>c. Committed c \<in> set (jlog (sy_journal s')) \<and> c_mote_id c = i \<and> c_seq c = n \<and> c_result_ref c = r \<and>
       (Committed c \<in> set (jlog (sy_journal s)) \<or> so_get so (sy_store s') r \<noteq> None))"

lemma finish_wm_recorded:
  assumes "finish_wm cd jo m warrant motes slot n s1 = (Inr wc, s')"
    and "holds_commit so (m_id m) n s s1" "jinv (sy_journal s1)" "\<forall>e \<in> set (jlog (sy_journal s1)). keyed e"
  shows "wlc_committed_seq wc = n \<and> recorded so (m_id m) n (wlc_result_ref wc) s s'"
proof -
  obtain x s2 s3 where st: "or_release slot (schedule_sibling_critic jo m motes (wref cd warrant)) s1 = (Inr x, s2)"
      "or_release slot (lift_st (read_committed_result_ref jo (m_id m))) s2 = (Inr (wlc_result_ref wc), s3)"
      "release_st slot s3 = (Inr (), s')" "wlc_committed_seq wc = n"
    using assms(1) by (auto simp: finish_wm_def then_st_Inr)
  have "read_committed_result_ref jo (m_id m) s2 = Inr (wlc_result_ref wc)" "s3 = s2"
    using st(2) by (auto simp: or_release_def lift_st_def split: prod.splits sum.splits)
  then obtain d where d: "Committed d \<in> set (jlog (sy_journal s2))" "c_mote_id d = m_id m" "c_result_ref d = wlc_result_ref wc"
    using read_finds
    by (fastforce simp: read_committed_result_ref_def split: sum.splits option.splits journal_entry.splits)
  have g: "grows (wm_ids m motes) {KIND_PROPOSED} s1 s2"
    using runsD [OF or_release_grows [OF schedule_sibling_critic_grows] st(1)] by simp
  obtain c where c: "Committed c \<in> set (jlog (sy_journal s1))" "c_mote_id c = m_id m" "c_seq c = n"
      "Committed c \<in> set (jlog (sy_journal s)) \<or> so_get so (sy_store s1) (c_result_ref c) \<noteq> None"
    using assms(2) by (auto simp: holds_commit_def)
  have "c = d"
    using one_committed [OF inv_grows [OF g assms(3)] keyed_grows [OF g assms(4)] grows_log [OF g c(1)] d(1)] c(2) d(2)
    by simp
  moreover have "jlog (sy_journal s') = jlog (sy_journal s2)"
    using st(3) \<open>s3 = s2\<close> by (auto simp: release_st_def split: prod.splits)
  moreover have "sy_store s' = sy_store s1"
    using runsD [OF finish_wm_outside assms(1)] by (simp add: outside_same_def)
  ultimately show ?thesis
    using c d st(4) by (auto simp: recorded_def)
qed

lemma run_wm_mote_recorded:
  assumes run: "run_wm_mote cd jo (standard_commit_protocol quote jo so bo) m warrant cap req motes s = (Inr wc, s')"
    and inv: "jinv (sy_journal s)" and k: "\<forall>e \<in> set (jlog (sy_journal s)). keyed e"
  shows "wlc_mote_id wc = m_id m \<and> recorded so (m_id m) (wlc_committed_seq wc) (wlc_result_ref wc) s s'"
proof -
  have "md_nd_class (m_def m) \<noteq> Pure"
    using run by (auto simp: run_wm_mote_def split: if_splits)
  then obtain found where found: "serve_if_committed jo (m_id m) s = Inr found"
      and rest: "(case found of
          Some (seq, r) \<Rightarrow> (\<lambda>s. (Inr \<lparr>wlc_committed_seq = seq, wlc_result_ref = r, wlc_mote_id = m_id m,
            wlc_critic_proposed_seq = None\<rparr>, s))
        | None \<Rightarrow> run_wm_fresh cd jo (standard_commit_protocol quote jo so bo) m warrant cap req motes) s = (Inr wc, s')"
    using run by (auto simp: run_wm_mote_def step_simps)
  show ?thesis
  proof (cases found)
    case (Some p)
    then obtain n r where p: "found = Some (n, r)" by (cases p) auto
    then obtain c where "Committed c \<in> set (jlog (sy_journal s))" "c_mote_id c = m_id m" "c_seq c = n" "c_result_ref c = r"
      using found read_finds
      by (fastforce simp: serve_if_committed_def split: sum.splits option.splits journal_entry.splits)
    with rest p show ?thesis by (auto simp: recorded_def)
  next
    case None
    then obtain slot s1 e s2 n s3 where st: "acquire_st warrant s = (Inr slot, s1)"
        "or_release slot (append_lc jo (proposed_of (m_id m) (md_nd_class (m_def m)) (wref cd warrant))) s1 = (Inr e, s2)"
        "or_release slot (err_st CommitProtocolErr (commit quote jo so bo (commit_input_of cd m warrant cap req None))) s2 = (Inr n, s3)"
        "finish_wm cd jo m warrant motes slot n s3 = (Inr wc, s')"
      using rest by (auto simp: run_wm_fresh_def then_st_Inr standard_commit_protocol_def)
    have cm: "commit quote jo so bo (commit_input_of cd m warrant cap req None) s2 = (Inr n, s3)"
      using st(3) by (auto simp: or_release_def err_st_def map_err_def split: prod.splits sum.splits)
    have "jlog (sy_journal s1) = jlog (sy_journal s)"
      using st(1) by (auto simp: acquire_st_def split: prod.splits)
    moreover have g2: "grows {m_id m} {KIND_PROPOSED} s s2"
      using runsD [OF acquire_st_grows st(1)] runsD [OF or_release_grows [OF append_proposed_grows] st(2)]
      by (metis grows_trans insertI1 transpD)
    moreover have g3: "grows {m_id m} {KIND_COMMITTED, KIND_EFFECT_STAGED} s2 s3"
      using runsD [OF commit_grows cm] by simp
    moreover have "holds_commit so (m_id m) n s2 s3"
      using commit_ok [OF cm] keyed_grows [OF g2 k] by simp
    then have "holds_commit so (m_id m) n s s3"
      using g2 by (fastforce simp: holds_commit_def grows_def)
    ultimately have "wlc_committed_seq wc = n \<and> recorded so (m_id m) n (wlc_result_ref wc) s s'"
      using finish_wm_recorded [OF st(4)] inv_grows [OF g3 inv_grows [OF g2 inv]] keyed_grows [OF g3 keyed_grows [OF g2 k]]
      by blast
    moreover have "wlc_mote_id wc = m_id m"
      using st(4) by (auto simp: finish_wm_def then_st_Inr)
    ultimately show ?thesis by simp
  qed
qed

lemma or_release_Inr: "or_release slot m s = (Inr a, s') \<longleftrightarrow> m s = (Inr a, s')"
  by (auto simp: or_release_def split: prod.splits sum.splits)

lemma probe_or_redispatch_holds:
  assumes "probe_or_redispatch (standard_commit_protocol quote jo so bo) slot inp s = (Inr (n, a), s')"
    and "cin_idempotency_key inp = cin_id inp" "\<forall>e \<in> set (jlog (sy_journal s)). keyed e"
  shows "holds_commit so (cin_id inp) n s s' \<and> grows {cin_id inp} {KIND_COMMITTED, KIND_EFFECT_STAGED} s s'"
proof -
  obtain found s1 where p: "try_commit_from_readback jo so bo inp s = (Inr found, s1)"
      and rest: "(case found of Some seq \<Rightarrow> (\<lambda>s. (Inr (seq, CommitFromReadback), s))
        | None \<Rightarrow> then_st (or_release slot (err_st CommitProtocolErr (commit quote jo so bo inp)))
            (\<lambda>seq s. (Inr (seq, Redispatch), s))) s1 = (Inr (n, a), s')"
    using assms(1) by (auto simp: probe_or_redispatch_def step_simps or_release_Inr cong: option.case_cong)
  have g1: "grows {cin_id inp} {KIND_COMMITTED, KIND_EFFECT_STAGED} s s1"
    using runsD [OF try_commit_from_readback_grows p] assms(2) by simp
  obtain h s0 where h: "broker_st (bo_probe_readback bo (cin_mote inp) (cin_warrant inp) (cin_capability inp)
      (cin_effect_request inp)) s = (Inr h, s0)"
    and hrest: "(case h of None \<Rightarrow> (\<lambda>s. (Inr None, s)) | Some handle \<Rightarrow>
          then_st (verify_and_commit jo so inp (bh_staged_ref handle)) (\<lambda>seq s. (Inr (Some seq), s))) s0 = (Inr found, s1)"
    using p by (auto simp: try_commit_from_readback_def step_simps)
  have j0: "sy_journal s0 = sy_journal s"
    using broker_st_same [OF h] by simp
  show ?thesis
  proof (cases found)
    case None
    then have "sy_journal s1 = sy_journal s"
      using hrest j0 by (auto simp: step_simps split: option.splits)
    moreover have c: "commit quote jo so bo inp s1 = (Inr n, s')"
      using rest None by (auto simp: step_simps or_release_Inr)
    ultimately have "holds_commit so (cin_id inp) n s1 s'"
      using commit_ok [OF c assms(2)] assms(3) by simp
    then have "holds_commit so (cin_id inp) n s s'"
      by (rule holds_commit_after) (simp add: \<open>sy_journal s1 = sy_journal s\<close>)
    moreover have "grows {cin_id inp} {KIND_COMMITTED, KIND_EFFECT_STAGED} s1 s'"
      using runsD [OF commit_grows c] assms(2) by simp
    ultimately show ?thesis using g1 grows_trans by (blast dest: transpD)
  next
    case (Some k)
    then obtain handle :: broker_handle where v: "verify_and_commit jo so inp (bh_staged_ref handle) s0 = (Inr k, s1)"
      using hrest by (auto simp: step_simps split: option.splits)
    then have "holds_commit so (cin_id inp) k s0 s1"
      using verify_and_commit_ok [OF v assms(2)] assms(3) j0 by simp
    then have "holds_commit so (cin_id inp) k s s1"
      by (rule holds_commit_after) (simp add: j0)
    then show ?thesis using rest Some g1 by simp
  qed
qed

lemma redispatch_recorded:
  assumes run: "redispatch_wm_mote cd jo (standard_commit_protocol quote jo so bo) oracle m warrant cap req cls motes s
      = (Inr (RecoveryCommitted wc a), s')"
    and inv: "jinv (sy_journal s)" and k: "\<forall>e \<in> set (jlog (sy_journal s)). keyed e"
  shows "wlc_mote_id wc = m_id m \<and> recorded so (m_id m) (wlc_committed_seq wc) (wlc_result_ref wc) s s'"
proof -
  let ?inp = "commit_input_of cd m warrant cap req cls"
  obtain slot s1 where a: "acquire_st warrant s = (Inr slot, s1)"
    and rest: "(case recovery_route_for cls of
          CompensateOrQuarantine \<Rightarrow> quiet_release slot
            (compensate_or_quarantine jo (standard_commit_protocol quote jo so bo) m (m_id m) ?inp)
        | ProbeThenRedispatch \<Rightarrow>
            then_st (probe_or_redispatch (standard_commit_protocol quote jo so bo) slot ?inp) (\<lambda>(n, a).
            then_st (finish_wm cd jo m warrant motes slot n) (\<lambda>c s.
              (Inr (RecoveryCommitted c a), s)))) s1 = (Inr (RecoveryCommitted wc a), s')"
    using run by (auto simp: redispatch_wm_mote_def step_simps Let_def split: if_splits)
  have "recovery_route_for cls = ProbeThenRedispatch"
    using rest by (cases "recovery_route_for cls")
      (auto simp: quiet_release_def compensate_or_quarantine_def then_st_def split: prod.splits sum.splits option.splits)
  then obtain n s2 where p: "probe_or_redispatch (standard_commit_protocol quote jo so bo) slot ?inp s1 = (Inr (n, a), s2)"
      and f: "finish_wm cd jo m warrant motes slot n s2 = (Inr wc, s')"
    using rest by (auto simp: step_simps)
  have j: "sy_journal s1 = sy_journal s"
    using a by (auto simp: acquire_st_def split: prod.splits)
  have h: "holds_commit so (m_id m) n s1 s2 \<and> grows {m_id m} {KIND_COMMITTED, KIND_EFFECT_STAGED} s1 s2"
    using probe_or_redispatch_holds [OF p] k j by simp
  then have "holds_commit so (m_id m) n s s2"
    by (intro holds_commit_after [of so "m_id m" n s1 s2 s]) (simp_all add: j)
  moreover have "jinv (sy_journal s2)" "\<forall>e \<in> set (jlog (sy_journal s2)). keyed e"
    using h inv k j inv_grows [of "{m_id m}" _ s1 s2] keyed_grows [of "{m_id m}" _ s1 s2] by auto
  moreover have "wlc_mote_id wc = m_id m"
    using f by (auto simp: finish_wm_def then_st_Inr)
  ultimately show ?thesis
    using finish_wm_recorded [OF f] by blast
qed

text \<open>The pair of entries a Mote without a commit is recorded with: the second one is new.\<close>

lemma commit_pair_recorded:
  assumes p: "append_lc jo (proposed_of i nd w) s = (Inr e, s1)" and c: "append_lc jo (Committed c) s1 = (Inr y, s2)"
    and i: "c_mote_id c = i" "c_idempotency_key c = i"
    and none: "jo_read_committed jo (sy_journal s) i = Inr None" and k: "\<forall>e \<in> set (jlog (sy_journal s)). keyed e"
  shows "\<exists>n. y = set_seq n (Committed c) \<and> y \<in> set (jlog (sy_journal s2))"
proof -
  have no: "\<not> same_fact (Committed c) x" if "x \<in> set (jlog (sy_journal s))" for x
    using read_none [OF none] i that bspec [OF k that] by (cases x) (auto simp: same_fact_def)
  have "grows {i} {KIND_PROPOSED} s s1"
    using runsD [OF append_proposed_grows p] by simp
  then have "\<not> same_fact (Committed c) x" if "x \<in> set (jlog (sy_journal s1))" for x
    using that no by (fastforce simp: grows_def same_fact_def)
  moreover have "jo_append jo (Committed c) (sy_journal s1) = (Inr y, sy_journal s2)"
    using c by (auto simp: append_lc_def err_st_Inr append_st_def split: prod.splits)
  ultimately show ?thesis
    using append_ok by fastforce
qed

text \<open>A pure run: the entry it returns is new, since the Mote had none.\<close>

lemma run_pure_mote_recorded:
  assumes run: "run_pure_mote cd jo executor m warrant s = (Inr lc, s')"
    and k: "\<forall>e \<in> set (jlog (sy_journal s)). keyed e"
  shows "lc_mote_id lc = m_id m \<and> (\<exists>c. Committed c \<in> set (jlog (sy_journal s')) \<and> c_mote_id c = m_id m \<and>
    c_seq c = lc_committed_seq lc \<and> c_result_ref c = lc_result_ref lc \<and>
    (Committed c \<in> set (jlog (sy_journal s)) \<or>
     (\<exists>res x. executor m warrant (sy_store s, sy_world s) = (Inr res, x) \<and> xr_result_ref res = c_result_ref c)))"
proof -
  have "md_nd_class (m_def m) = Pure"
    using run by (auto simp: run_pure_mote_def split: if_splits)
  then obtain found where found: "serve_if_committed jo (m_id m) s = Inr found"
      and rest: "(case found of
          Some (seq, r) \<Rightarrow> (\<lambda>s. (Inr \<lparr>lc_committed_seq = seq, lc_result_ref = r, lc_mote_id = m_id m\<rparr>, s))
        | None \<Rightarrow> run_pure_fresh cd jo executor m warrant) s = (Inr lc, s')"
    using run by (auto simp: run_pure_mote_def step_simps)
  show ?thesis
  proof (cases found)
    case (Some p)
    then obtain n r where p: "found = Some (n, r)" by (cases p) auto
    then obtain c where "Committed c \<in> set (jlog (sy_journal s))" "c_mote_id c = m_id m" "c_seq c = n" "c_result_ref c = r"
      using found read_finds
      by (fastforce simp: serve_if_committed_def split: sum.splits option.splits journal_entry.splits)
    with rest p show ?thesis by auto
  next
    case None
    then obtain slot s1 res s2 where a: "acquire_st warrant s = (Inr slot, s1)"
        "run_st executor m warrant s1 = (Inr res, s2)" and f: "finish_pure cd jo m warrant slot res s2 = (Inr lc, s')"
      using rest by (auto simp: run_pure_fresh_def step_simps or_release_Inr)
    let ?c = "\<lparr>c_mote_id = m_id m, c_idempotency_key = m_id m, c_seq = 0, c_nondeterminism = Pure,
        c_result_ref = xr_result_ref res, c_parents = [], c_warrant_ref = wref cd warrant, c_mote_def_hash = def_hash cd m\<rparr>"
    obtain e s3 y s4 where f': "append_lc jo (proposed_of (m_id m) Pure (wref cd warrant)) s2 = (Inr e, s3)"
        "append_lc jo (Committed ?c) s3 = (Inr y, s4)" "release_st slot s4 = (Inr (), s')"
        "lc = \<lparr>lc_committed_seq = entry_seq y, lc_result_ref = xr_result_ref res, lc_mote_id = m_id m\<rparr>"
      using f by (auto simp: finish_pure_def step_simps)
    have j: "sy_journal s2 = sy_journal s" and x: "\<exists>x. executor m warrant (sy_store s, sy_world s) = (Inr res, x)"
      using a by (auto simp: acquire_st_def run_st_def split: prod.splits)
    have none: "jo_read_committed jo (sy_journal s2) (m_id m) = Inr None"
      using found None read_finds j
      by (fastforce simp: serve_if_committed_def split: sum.splits option.splits journal_entry.splits)
    obtain n where "y = set_seq n (Committed ?c)" "y \<in> set (jlog (sy_journal s4))"
      using commit_pair_recorded [OF f'(1,2) _ _ none] k j by auto
    moreover have "sy_journal s' = sy_journal s4"
      using f'(3) by (auto simp: release_st_def split: prod.splits)
    ultimately show ?thesis using f'(4) x by auto
  qed
qed

section \<open>Staged effects\<close>

lemma or_release_outcome:
  assumes "or_release slot m s = (r, s')"
  obtains s1 where "m s = (r, s1)" "sy_journal s' = sy_journal s1" "sy_store s' = sy_store s1" "sy_world s' = sy_world s1"
  using assms by (auto simp: or_release_def split: prod.splits sum.splits)

text \<open>Up to the commit protocol a first run has written at most its proposal and called nothing.\<close>

lemma run_wm_fresh_cases:
  obtains (early) e s' where "outside_same s s'" "\<And>cp. run_wm_fresh cd jo cp m warrant cap req motes s = (Inl e, s')"
  | (commit) slot s1 where "outside_same s s1" "grows {m_id m} {KIND_PROPOSED} s s1"
      "\<And>cp. run_wm_fresh cd jo cp m warrant cap req motes s =
        then_st (or_release slot (err_st CommitProtocolErr (co_commit cp (commit_input_of cd m warrant cap req None))))
          (finish_wm cd jo m warrant motes slot) s1"
proof -
  let ?p = "proposed_of (m_id m) (md_nd_class (m_def m)) (wref cd warrant)"
  obtain a s1 where a: "acquire_st warrant s = (a, s1)" by fastforce
  note oa = runsD [OF acquire_st_outside a] runsD [OF acquire_st_grows [of "{m_id m}" "{KIND_PROPOSED}"] a]
  show thesis
  proof (cases a)
    case (Inl e)
    then show ?thesis using early a oa by (simp add: run_wm_fresh_def then_st_def)
  next
    case (Inr slot)
    obtain q s2 where p: "or_release slot (append_lc jo ?p) s1 = (q, s2)" by fastforce
    have o2: "outside_same s s2"
      using oa(1) runsD [OF or_release_outside [OF append_lc_outside] p] outside_trans by (metis transpD)
    have g2: "grows {m_id m} {KIND_PROPOSED} s s2"
      using oa(2) runsD [OF or_release_grows [OF append_proposed_grows] p] grows_trans by (metis insertI1 transpD)
    show ?thesis
    proof (cases q)
      case (Inl e)
      then show ?thesis using early o2 a p \<open>a = Inr slot\<close> by (simp add: run_wm_fresh_def then_st_def)
    next
      case (Inr e)
      then show ?thesis
        using commit [OF o2 g2] a p \<open>a = Inr slot\<close> by (simp add: run_wm_fresh_def then_st_def)
    qed
  qed
qed

text \<open>Before its commit is in the log a Mote is not served.\<close>

lemma not_served:
  assumes "serve_if_committed jo i s = Inr None"
  shows "\<not> log_committed i (jlog (sy_journal s))"
proof -
  have "jo_read_committed jo (sy_journal s) i = Inr None"
    using assms read_finds by (fastforce simp: serve_if_committed_def split: sum.splits option.splits journal_entry.splits)
  then show ?thesis
    using read_none by (fastforce simp: log_committed_def list_ex_iff elim!: is_committed.elims)
qed

text \<open>After the commit protocol a run calls nothing either.\<close>

lemma commit_tail:
  assumes "then_st (or_release slot (err_st CommitProtocolErr c)) (finish_wm cd jo m warrant motes slot) s = (r, s')"
    and "c s = (q, s1)"
  shows "outside_same s1 s' \<and> grows (wm_ids m motes) {KIND_PROPOSED, KIND_COMMITTED} s1 s'"
proof -
  have t: "(case q of Inl e \<Rightarrow> (Inl (CommitProtocolErr e), s1\<lparr>sy_rm := snd (release slot (sy_rm s1))\<rparr>)
      | Inr n \<Rightarrow> finish_wm cd jo m warrant motes slot n s1) = (r, s')"
    using assms by (simp add: then_st_def or_release_def err_st_def map_err_def split: sum.splits)
  show ?thesis
  proof (cases q)
    case (Inr n)
    then have "finish_wm cd jo m warrant motes slot n s1 = (r, s')" using t by simp
    from runsD [OF finish_wm_outside this] runsD [OF finish_wm_grows this] show ?thesis by simp
  qed (use t in \<open>auto simp: outside_same_def grows_def\<close>)
qed

lemma run_wm_mote_stages:
  assumes run: "run_wm_mote cd jo (standard_commit_protocol quote jo so bo) m warrant cap req motes s = (r, s')"
    and pat: "md_effect_pattern (m_def m) = StageThenCommit" and k: "\<forall>e \<in> set (jlog (sy_journal s)). keyed e"
  obtains (unused) "\<And>bo'. run_wm_mote cd jo (standard_commit_protocol quote jo so bo') m warrant cap req motes s = (r, s')"
      "outside_same s s'"
  | (staged) s1 where "log_staged (m_id m) (jlog (sy_journal s1))" "\<not> log_committed (m_id m) (jlog (sy_journal s1))"
      "grows {m_id m} {KIND_PROPOSED, KIND_EFFECT_STAGED} s s1" "grows (wm_ids m motes) {KIND_PROPOSED, KIND_COMMITTED} s1 s'"
      "(sy_store s', sy_world s') = snd (bo_dispatch bo m warrant cap req (sy_store s, sy_world s))"
proof (cases "md_nd_class (m_def m) \<noteq> Pure \<and> serve_if_committed jo (m_id m) s = Inr None")
  case False
  then have "run_wm_mote cd jo (standard_commit_protocol quote jo so bo') m warrant cap req motes s = (r, s') \<and> s' = s" for bo'
    using run by (auto simp: run_wm_mote_def then_st_def lift_st_def split: sum.splits option.splits prod.splits if_splits)
  then show ?thesis using unused by (simp add: outside_same_def)
next
  case True
  then have fresh: "run_wm_mote cd jo (standard_commit_protocol quote jo so bo') m warrant cap req motes s =
      run_wm_fresh cd jo (standard_commit_protocol quote jo so bo') m warrant cap req motes s" for bo'
    by (simp add: run_wm_mote_def then_st_def lift_st_def)
  note none = not_served [OF conjunct2 [OF True]]
  let ?inp = "commit_input_of cd m warrant cap req None"
  show ?thesis
  proof (cases rule: run_wm_fresh_cases [of s cd m warrant cap req motes])
    case (early e s0)
    then show ?thesis using unused run fresh by auto
  next
    case (commit slot s1)
    obtain q s2 where c: "commit quote jo so bo ?inp s1 = (q, s2)" by fastforce
    have "then_st (or_release slot (err_st CommitProtocolErr (commit quote jo so bo ?inp))) (finish_wm cd jo m warrant motes slot) s1 = (r, s')"
      using run commit(3) fresh by simp
    note tail = commit_tail [OF this c]
    have k1: "\<forall>e \<in> set (jlog (sy_journal s1)). keyed e" by (rule keyed_grows [OF commit(2) k])
    have "cin_idempotency_key ?inp = cin_id ?inp" "md_effect_pattern (m_def (cin_mote ?inp)) = StageThenCommit"
      using pat by simp_all
    from c this k1 show ?thesis
    proof (cases rule: stage_before_effect [consumes 4])
      case unstaged
      have "run_wm_mote cd jo (standard_commit_protocol quote jo so bo') m warrant cap req motes s =
          run_wm_mote cd jo (standard_commit_protocol quote jo so bo) m warrant cap req motes s" for bo'
        by (simp add: fresh commit(3) c unstaged(1) then_st_def or_release_def err_st_def)
      then show ?thesis using unused run unstaged(2,3) commit(1) tail by (simp add: outside_same_def)
    next
      case (staged s3)
      have g: "grows {m_id m} {KIND_PROPOSED, KIND_EFFECT_STAGED} s s3"
        by (rule transpD [OF grows_trans grows_mono [OF commit(2)] grows_mono [OF staged(2)]]) simp_all
      then have "\<not> log_committed (m_id m) (jlog (sy_journal s3))"
        using none by (fastforce simp: grows_def log_committed_def list_ex_iff elim!: is_committed.elims)
      moreover have "grows (wm_ids m motes) {KIND_PROPOSED, KIND_COMMITTED} s3 s'"
        by (rule transpD [OF grows_trans runsD [OF dispatch_and_commit_grows staged(5)] conjunct2 [OF tail]]) simp_all
      ultimately show ?thesis
        using that(2) [of s3] staged g commit(1) tail dispatch_and_commit_outside [OF staged(5)]
        by (simp add: log_staged_def list_ex_iff outside_same_def commit_input_of_def cin_id_def)
    qed
  qed
qed

text \<open>Recovery of an at-least-once effect records a terminal failure and never dispatches again.\<close>

lemma append_failed_ok:
  assumes "append_lc jo (failed_entry_of i key reason) s = (Inr y, s')"
  shows "\<exists>f. y = Failed f \<and> Failed f \<in> set (jlog (sy_journal s')) \<and> f_mote_id f = i \<and> f_reason_class f = reason"
proof -
  have "jo_append jo (failed_entry_of i key reason) (sy_journal s) = (Inr y, sy_journal s')"
    using assms by (auto simp: append_lc_def err_st_Inr append_st_def split: prod.splits)
  from append_ok [OF this] show ?thesis
    by (auto simp: failed_entry_of_def dedupes_def)
qed

lemma at_least_once_terminal:
  assumes run: "redispatch_wm_mote cd jo (standard_commit_protocol quote jo so bo) oracle m warrant cap req
      (Some IcAtLeastOnce) motes s = (Inr out, s')"
  shows "\<exists>n a f. out = TerminallyFailed (m_id m) n a \<and> Failed f \<in> set (jlog (sy_journal s')) \<and> f_mote_id f = m_id m \<and>
    f_seq f = n \<and> f_reason_class f \<in> {CompensatedAtLeastOnce, QuarantinedAtLeastOnce}"
proof -
  let ?inp = "commit_input_of cd m warrant cap req (Some IcAtLeastOnce)"
  obtain s1 slot where "quiet_release slot (compensate_or_quarantine jo (standard_commit_protocol quote jo so bo) m (m_id m) ?inp) s1
      = (Inr out, s')"
    using run by (auto simp: redispatch_wm_mote_def step_simps Let_def recovery_route_for_def split: if_splits)
  then obtain s2 where c: "compensate_or_quarantine jo (standard_commit_protocol quote jo so bo) m (m_id m) ?inp s1 = (Inr out, s2)"
      and j: "sy_journal s' = sy_journal s2"
    by (auto simp: quiet_release_def split: prod.splits)
  obtain undone s3 where u: "try_compensate jo so bo ?inp s1 = (Inr undone, s3)"
    and rest: "(case undone of
        Some failed_seq \<Rightarrow> (\<lambda>s. (Inr (TerminallyFailed (m_id m) failed_seq Compensate), s))
      | None \<Rightarrow>
          then_st (append_lc jo (failed_entry_of (m_id m) (m_id m) QuarantinedAtLeastOnce)) (\<lambda>written s.
            (Inr (TerminallyFailed (m_id m) (entry_seq written) Quarantine), s))) s3 = (Inr out, s2)"
    using c by (auto simp: compensate_or_quarantine_def step_simps)
  show ?thesis
  proof (cases undone)
    case None
    then obtain y where "append_lc jo (failed_entry_of (m_id m) (m_id m) QuarantinedAtLeastOnce) s3 = (Inr y, s2)"
        "out = TerminallyFailed (m_id m) (entry_seq y) Quarantine"
      using rest by (auto simp: step_simps)
    with append_failed_ok [OF this(1)] j show ?thesis by auto
  next
    case (Some n)
    then have "s2 = s3" "out = TerminallyFailed (m_id m) n Compensate" using rest by auto
    moreover obtain y s4 where "append_lc jo (failed_entry_of (m_id m) (m_id m) CompensatedAtLeastOnce) s4 = (Inr y, s3)"
        "n = entry_seq y"
      using u Some
      by (auto simp: try_compensate_def step_simps append_lc_def split: option.splits)
    ultimately show ?thesis
      using append_failed_ok j by fastforce
  qed
qed

end

end
