(* ===== verification/Kx_Executor_Claims.thy ===== *)
theory Kx_Executor_Claims
  imports Kx_Executor_Properties
begin

text \<open>
  The properties of the executor over a journal that may fail: any schedule of failing appends
  and reads, any broker, any content store, any executor backend.
\<close>

section \<open>Executor states\<close>

type_synonym ('s, 'w) fsys = "(fjournal, 's, 'w) sys"

definition flog :: "('s, 'w) fsys \<Rightarrow> journal_entry list" where
  "flog s = j_entries (fj_journal (sy_journal s))"

definition executor_inv :: "hash_fn \<Rightarrow> ('s, 'w) fsys \<Rightarrow> bool" where
  "executor_inv blake3 s \<longleftrightarrow> journal_inv blake3 (fj_journal (sy_journal s)) \<and> (\<forall>e \<in> set (flog s). keyed e)"

lemma keyed_well_keyed: "keyed e \<Longrightarrow> well_keyed e"
  by (cases e) simp_all

text \<open>The projection the recovery path consults: rebuilt from the journal.\<close>

definition projection_oracle :: "journal \<Rightarrow> mote_id \<Rightarrow> bool" where
  "projection_oracle j i = (case from_journal j of Inr st \<Rightarrow> can_redispatch_world_effect_id st i | Inl _ \<Rightarrow> False)"

text \<open>
  An executor with its environment. Between two operations of the executor the outside may
  change the world, the store may be swept, the journal backend may become or stop being faulty,
  and another component may append an entry.
\<close>

record ('s, 'w) exec_env =
  ev_codec :: codec
  ev_quote :: "rstring \<Rightarrow> rstring"
  ev_store_ops :: "'s store_ops"
  ev_broker_ops :: "('s, 'w) broker_ops"
  ev_executor :: "('s, 'w) mote_executor"

datatype ('s, 'w) exec_action =
    RunPure mote warrant_spec
  | RunWm mote warrant_spec tool_name effect_request mote_map
  | Recover mote warrant_spec tool_name effect_request "idempotency_class option" mote_map
  | Outside 's 'w
  | Faults "bool list" bool
  | Foreign journal_entry

abbreviation ev_journal :: "('s, 'w) exec_env \<Rightarrow> fjournal journal_ops" where
  "ev_journal env \<equiv> fjournal_ops (cd_blake3 (ev_codec env))"

abbreviation ev_protocol :: "('s, 'w) exec_env \<Rightarrow> ('s, 'w) fsys commit_ops" where
  "ev_protocol env \<equiv> standard_commit_protocol (ev_quote env) (ev_journal env) (ev_store_ops env) (ev_broker_ops env)"

fun exec_step :: "('s, 'w) exec_env \<Rightarrow> ('s, 'w) exec_action \<Rightarrow> ('s, 'w) fsys \<Rightarrow> ('s, 'w) fsys" where
  "exec_step env (RunPure m w) s = snd (run_pure_mote (ev_codec env) (ev_journal env) (ev_executor env) m w s)"
| "exec_step env (RunWm m w cap req motes) s =
     snd (run_wm_mote (ev_codec env) (ev_journal env) (ev_protocol env) m w cap req motes s)"
| "exec_step env (Recover m w cap req cls motes) s =
     snd (redispatch_wm_mote (ev_codec env) (ev_journal env) (ev_protocol env)
       (projection_oracle (fj_journal (sy_journal s))) m w cap req cls motes s)"
| "exec_step env (Outside st w) s = s\<lparr>sy_store := st, sy_world := w\<rparr>"
| "exec_step env (Faults fails reads) s =
     s\<lparr>sy_journal := (sy_journal s)\<lparr>fj_append_fails := fails, fj_read_fails := reads\<rparr>\<rparr>"
| "exec_step env (Foreign e) s =
     s\<lparr>sy_journal := (sy_journal s)\<lparr>fj_journal := snd (append_entry (cd_blake3 (ev_codec env)) e (fj_journal (sy_journal s)))\<rparr>\<rparr>"

definition exec_steps :: "('s, 'w) exec_env \<Rightarrow> ('s, 'w) exec_action list \<Rightarrow> ('s, 'w) fsys \<Rightarrow> ('s, 'w) fsys" where
  "exec_steps env steps s = fold (exec_step env) steps s"

lemma grows_executor_inv:
  assumes "journal_port.grows (\<lambda>f. j_entries (fj_journal f)) (\<lambda>f. journal_inv blake3 (fj_journal f)) ids kinds s s'"
    and "executor_inv blake3 s"
  shows "executor_inv blake3 s' \<and> prefix (flog s) (flog s')"
  using fj.inv_grows [OF assms(1)] fj.keyed_grows [OF assms(1)] assms
  by (auto simp: executor_inv_def flog_def fj.grows_def)

lemma runs_executor_inv:
  assumes "runs (fj.grows blake3 ids kinds) m" "executor_inv blake3 s"
  shows "executor_inv blake3 (snd (m s)) \<and> prefix (flog s) (flog (snd (m s)))"
proof -
  have "fj.grows blake3 ids kinds s (snd (m s))"
    using assms(1) by (simp add: runs_snd)
  then show ?thesis by (rule grows_executor_inv [OF _ assms(2)])
qed

lemma append_entry_keyed:
  assumes "keyed e" "\<forall>x \<in> set (j_entries j). keyed x" "append_entry blake3 e j = (y, j')"
  shows "\<forall>x \<in> set (j_entries j'). keyed x"
proof -
  have "keyed (set_seq n (derive_key blake3 e))" for n
    using assms(1) by (cases e) simp_all
  then show ?thesis
    using assms(2,3) by (cases rule: append_entry_cases [of blake3 e j]) auto
qed

lemma exec_step_inv:
  assumes "executor_inv (cd_blake3 (ev_codec env)) s" "\<And>e. st = Foreign e \<Longrightarrow> keyed e"
  shows "executor_inv (cd_blake3 (ev_codec env)) (exec_step env st s) \<and> prefix (flog s) (flog (exec_step env st s))"
proof (cases st)
  case (RunPure m w)
  then show ?thesis
    using runs_executor_inv [OF fj.run_pure_mote_grows [where ids = UNIV and kinds = UNIV] assms(1)] by simp
next
  case (RunWm m w cap req motes)
  then show ?thesis
    using runs_executor_inv [OF fj.run_wm_mote_grows [where kinds = UNIV] assms(1)] by simp
next
  case (Recover m w cap req cls motes)
  then show ?thesis
    using runs_executor_inv [OF fj.redispatch_wm_mote_grows [where kinds = UNIV] assms(1)] by simp
next
  case (Outside s' w)
  then show ?thesis using assms(1) by (simp add: executor_inv_def flog_def)
next
  case (Faults fails reads)
  then show ?thesis using assms(1) by (simp add: executor_inv_def flog_def)
next
  case (Foreign e)
  obtain y j where a: "append_entry (cd_blake3 (ev_codec env)) e (fj_journal (sy_journal s)) = (y, j)"
    by fastforce
  then show ?thesis
    using Foreign assms append_entry_inv [of _ "fj_journal (sy_journal s)" e]
      append_entry_keyed [OF assms(2) [OF Foreign] _ a] append_entry_result(2) [OF a]
    by (auto simp: executor_inv_def flog_def) (metis a snd_conv)
qed

lemma exec_steps_inv:
  "executor_inv (cd_blake3 (ev_codec env)) s \<Longrightarrow> (\<And>e. Foreign e \<in> set steps \<Longrightarrow> keyed e) \<Longrightarrow>
     executor_inv (cd_blake3 (ev_codec env)) (exec_steps env steps s) \<and> prefix (flog s) (flog (exec_steps env steps s))"
proof (induction steps arbitrary: s)
  case (Cons st steps)
  have "executor_inv (cd_blake3 (ev_codec env)) (exec_step env st s) \<and> prefix (flog s) (flog (exec_step env st s))"
    using Cons.prems by (intro exec_step_inv) auto
  then show ?case
    using Cons.IH [of "exec_step env st s"] Cons.prems(2) by (auto simp: exec_steps_def intro: prefix_order.trans)
qed (simp add: exec_steps_def)

lemma executor_replay:
  assumes "executor_inv blake3 s" "length (flog s) + 1 < 2 ^ 64"
  shows "\<exists>st. from_journal (fj_journal (sy_journal s)) = Inr st \<and>
    run_ops None (map FoldE (flog s)) pstate_default = Inr st"
  using assms replay_run [of blake3 "fj_journal (sy_journal s)"] keyed_well_keyed
  by (auto simp: executor_inv_def flog_def)

lemma entries_of_map_FoldE [simp]: "entries_of (map FoldE es) = es"
  by (induction es) simp_all

lemma only_commit:
  assumes "executor_inv blake3 s" "Committed c \<in> set (flog s)" "c_mote_id c = i"
  shows "\<forall>d. Committed d \<in> set (flog s) \<and> c_mote_id d = i \<longrightarrow> d = c"
proof (intro allI impI, elim conjE)
  fix d assume "Committed d \<in> set (flog s)" "c_mote_id d = i"
  then show "d = c"
    using fj.one_committed [of blake3 "sy_journal s" d c] assms by (simp add: executor_inv_def flog_def)
qed

section \<open>Properties\<close>

text \<open>
  C7: The executor's journal always replays. However pure runs, world-mutating runs and recoveries
  follow one another, whatever fails in them, and whatever the outside does in between, the log
  only grows at its end, keeps the journal invariant and the keys, and rebuilds into a projection
  that is at the head of the journal and gives each Mote the state its log says.
\<close>

theorem executor_journal_replays:
  assumes "executor_inv (cd_blake3 (ev_codec env)) s" and "\<And>e. Foreign e \<in> set steps \<Longrightarrow> keyed e"
    and "length (flog (exec_steps env steps s)) + 1 < 2 ^ 64"
  shows "executor_inv (cd_blake3 (ev_codec env)) (exec_steps env steps s) \<and>
    prefix (flog s) (flog (exec_steps env steps s)) \<and>
    (\<exists>st. from_journal (fj_journal (sy_journal (exec_steps env steps s))) = Inr st \<and>
       (\<forall>i. state_of_id st i = log_state i (flog (exec_steps env steps s))))"
proof -
  have inv: "executor_inv (cd_blake3 (ev_codec env)) (exec_steps env steps s) \<and> prefix (flog s) (flog (exec_steps env steps s))"
    by (rule exec_steps_inv [OF assms(1,2)])
  moreover from this obtain st where "from_journal (fj_journal (sy_journal (exec_steps env steps s))) = Inr st"
      "run_ops None (map FoldE (flog (exec_steps env steps s))) pstate_default = Inr st"
    using executor_replay [OF _ assms(3)] by blast
  ultimately show ?thesis
    using run_ops_state by fastforce
qed

text \<open>
  C8: A success is a durable commit, whatever the broker and the backend do. When a pure run, a
  world-mutating run or a recovery reports success, the log holds exactly one \<open>Committed\<close> entry of
  the Mote, with the reported sequence number and result reference. Either that entry was there
  before, or it is new: then its result is in the content store, for a world-mutating Mote, and
  is the one the backend returned, for a pure Mote (whose bytes the executor does not look up).
\<close>

theorem success_is_durable_commit:
  assumes "executor_inv blake3 s"
    and "run_wm_mote cd (fjournal_ops blake3) (standard_commit_protocol quote (fjournal_ops blake3) so bo)
        m warrant cap req motes s = (Inr wc, s') \<and> i = wlc_mote_id wc \<and> n = wlc_committed_seq wc \<and> r = wlc_result_ref wc \<or>
      redispatch_wm_mote cd (fjournal_ops blake3) (standard_commit_protocol quote (fjournal_ops blake3) so bo)
        oracle m warrant cap req cls motes s = (Inr (RecoveryCommitted wc action), s') \<and>
        i = wlc_mote_id wc \<and> n = wlc_committed_seq wc \<and> r = wlc_result_ref wc \<or>
      run_pure_mote cd (fjournal_ops blake3) executor m warrant s = (Inr lc, s') \<and>
        i = lc_mote_id lc \<and> n = lc_committed_seq lc \<and> r = lc_result_ref lc"
  shows "i = m_id m \<and> (\<exists>c. Committed c \<in> set (flog s') \<and> c_mote_id c = m_id m \<and> c_seq c = n \<and> c_result_ref c = r \<and>
    (Committed c \<in> set (flog s) \<or>
     md_nd_class (m_def m) \<noteq> Pure \<and> so_get so (sy_store s') r \<noteq> None \<or>
     md_nd_class (m_def m) = Pure \<and>
       (\<exists>res x. executor m warrant (sy_store s, sy_world s) = (Inr res, x) \<and> xr_result_ref res = r)) \<and>
    (\<forall>d. Committed d \<in> set (flog s') \<and> c_mote_id d = m_id m \<longrightarrow> d = c))"
proof -
  have inv: "journal_inv blake3 (fj_journal (sy_journal s))" "\<forall>e \<in> set (j_entries (fj_journal (sy_journal s))). keyed e"
    using assms(1) by (simp_all add: executor_inv_def flog_def)
  from assms(2) consider (wm) "run_wm_mote cd (fjournal_ops blake3) (standard_commit_protocol quote (fjournal_ops blake3) so bo)
        m warrant cap req motes s = (Inr wc, s')" "i = wlc_mote_id wc" "n = wlc_committed_seq wc" "r = wlc_result_ref wc"
    | (recovery) "redispatch_wm_mote cd (fjournal_ops blake3) (standard_commit_protocol quote (fjournal_ops blake3) so bo)
        oracle m warrant cap req cls motes s = (Inr (RecoveryCommitted wc action), s')"
        "i = wlc_mote_id wc" "n = wlc_committed_seq wc" "r = wlc_result_ref wc"
    | (pure) "run_pure_mote cd (fjournal_ops blake3) executor m warrant s = (Inr lc, s')"
        "i = lc_mote_id lc" "n = lc_committed_seq lc" "r = lc_result_ref lc"
    by blast
  then show ?thesis
  proof cases
    case wm
    have inv': "executor_inv blake3 s'"
      using grows_executor_inv [OF runsD [OF fj.run_wm_mote_grows [where kinds = UNIV] wm(1)] assms(1)] by simp
    have nd: "md_nd_class (m_def m) \<noteq> Pure"
      using wm(1) by (auto simp: run_wm_mote_def)
    obtain c where c: "Committed c \<in> set (flog s')" "c_mote_id c = m_id m" "c_seq c = n" "c_result_ref c = r"
        "Committed c \<in> set (flog s) \<or> so_get so (sy_store s') r \<noteq> None" "i = m_id m"
      using fj.run_wm_mote_recorded [OF wm(1) inv] wm(2-4) by (auto simp: fj.recorded_def flog_def)
    show ?thesis by (intro conjI exI [of _ c] only_commit [OF inv' c(1,2)]) (use c nd in auto)
  next
    case recovery
    have inv': "executor_inv blake3 s'"
      using grows_executor_inv [OF runsD [OF fj.redispatch_wm_mote_grows [where kinds = UNIV] recovery(1)] assms(1)] by simp
    have nd: "md_nd_class (m_def m) \<noteq> Pure"
      using recovery(1) by (auto simp: redispatch_wm_mote_def)
    obtain c where c: "Committed c \<in> set (flog s')" "c_mote_id c = m_id m" "c_seq c = n" "c_result_ref c = r"
        "Committed c \<in> set (flog s) \<or> so_get so (sy_store s') r \<noteq> None" "i = m_id m"
      using fj.redispatch_recorded [OF recovery(1) inv] recovery(2-4) by (auto simp: fj.recorded_def flog_def)
    show ?thesis by (intro conjI exI [of _ c] only_commit [OF inv' c(1,2)]) (use c nd in auto)
  next
    case pure
    have inv': "executor_inv blake3 s'"
      using grows_executor_inv [OF runsD [OF fj.run_pure_mote_grows [where ids = UNIV and kinds = UNIV] pure(1)] assms(1)] by simp
    have nd: "md_nd_class (m_def m) = Pure"
      using pure(1) by (auto simp: run_pure_mote_def split: if_splits)
    obtain c where c: "Committed c \<in> set (flog s')" "c_mote_id c = m_id m" "c_seq c = n" "c_result_ref c = r"
        "Committed c \<in> set (flog s) \<or>
          (\<exists>res x. executor m warrant (sy_store s, sy_world s) = (Inr res, x) \<and> xr_result_ref res = r)" "i = m_id m"
      using fj.run_pure_mote_recorded [OF pure(1) inv(2)] pure(2-4) by (auto simp: flog_def)
    show ?thesis by (intro conjI exI [of _ c] only_commit [OF inv' c(1,2)]) (use c nd in auto)
  qed
qed

text \<open>
  C28: A committed Mote is served, not run again. When the log holds the commit of a Mote and can be
  read, running the Mote returns that commit and changes nothing: no slot, no entry, no call of
  the executor or the broker.
\<close>

theorem committed_is_served:
  assumes "executor_inv blake3 s" and "Committed c \<in> set (flog s)" and "c_mote_id c = m_id m"
    and "\<not> fj_read_fails (sy_journal s)"
  shows "(md_nd_class (m_def m) = Pure \<longrightarrow>
      run_pure_mote cd (fjournal_ops blake3) executor m warrant s =
        (Inr \<lparr>lc_committed_seq = c_seq c, lc_result_ref = c_result_ref c, lc_mote_id = m_id m\<rparr>, s)) \<and>
    (md_nd_class (m_def m) \<noteq> Pure \<longrightarrow>
      run_wm_mote cd (fjournal_ops blake3) cp m warrant cap req motes s =
        (Inr \<lparr>wlc_committed_seq = c_seq c, wlc_result_ref = c_result_ref c, wlc_mote_id = m_id m,
           wlc_critic_proposed_seq = None\<rparr>, s))"
proof -
  have read: "jo_read_committed (fjournal_ops blake3) (sy_journal s) (m_id m) =
      Inr (find (is_committed_for (m_id m)) (flog s))"
    using assms(4) by (simp add: fjournal_ops_def read_committed_def flog_def)
  have "find (is_committed_for (m_id m)) (flog s) \<noteq> None"
    using assms(2,3) by (auto simp: find_None_iff)
  then obtain e where e: "find (is_committed_for (m_id m)) (flog s) = Some e" by blast
  then obtain d where d: "e = Committed d" "Committed d \<in> set (flog s)" "c_mote_id d = m_id m"
    using fj.read_finds [of blake3 "sy_journal s" "m_id m" e] read by (auto simp: flog_def)
  moreover have "d = c"
    using fj.one_committed [of blake3 "sy_journal s" d c] assms(1-3) d by (simp add: executor_inv_def flog_def)
  ultimately have "serve_if_committed (fjournal_ops blake3) (m_id m) s = Inr (Some (c_seq c, c_result_ref c))"
    using read e by (simp add: serve_if_committed_def)
  then show ?thesis
    by (simp add: run_pure_mote_def run_wm_mote_def then_st_def lift_st_def)
qed

text \<open>What the executor appends repudiates nothing, and fails nothing unless it writes \<open>Failed\<close>.\<close>

abbreviation executor_kinds :: "u8 set" where
  "executor_kinds \<equiv> {KIND_PROPOSED, KIND_COMMITTED, KIND_EFFECT_STAGED, KIND_FAILED}"

lemma executor_entries_log:
  assumes "\<forall>e \<in> set new. entry_kind e \<in> executor_kinds"
  shows "log_inconsistent i (es @ new) = log_inconsistent i es" "log_repudiated i (es @ new) = log_repudiated i es"
proof -
  have no: "\<not> is_repudiation i e" "\<not> (is_committed i c \<and> repudiates e c)" if "entry_kind e \<in> executor_kinds" for e c
    using that by (cases e; cases c; auto)+
  show "log_inconsistent i (es @ new) = log_inconsistent i es"
    using assms by (induction new rule: rev_induct) (simp_all add: no log_occurs_snoc flip: append_assoc)
  show "log_repudiated i (es @ new) = log_repudiated i es"
    using assms by (induction new rule: rev_induct) (simp_all add: no log_occurs_snoc list_ex_iff flip: append_assoc)
qed

lemma executor_entries_terminal:
  assumes "\<forall>e \<in> set new. entry_kind e \<noteq> KIND_FAILED"
  shows "log_terminal i (es @ new) = log_terminal i es"
proof -
  have "\<not> is_terminal_failed i e" if "entry_kind e \<noteq> KIND_FAILED" for e
    using that by (cases e) auto
  then show ?thesis
    using assms by (induction new rule: rev_induct) (simp_all add: log_occurs_snoc flip: append_assoc)
qed

lemma projection_oracle_log:
  assumes "executor_inv blake3 s" "length (flog s) + 1 < 2 ^ 64"
  shows "projection_oracle (fj_journal (sy_journal s)) i \<longleftrightarrow> log_staged i (flog s) \<and> \<not> log_committed i (flog s) \<and>
    \<not> log_terminal i (flog s) \<and> \<not> log_inconsistent i (flog s)"
  using executor_replay [OF assms] run_ops_redispatch by (fastforce simp: projection_oracle_def)

text \<open>An effect that is staged and not committed stays known, whatever the executor appends.\<close>

lemma staged_recoverable:
  assumes "executor_inv blake3 s'" "length (flog s') + 1 < 2 ^ 64"
    and "flog s' = es @ new" "\<forall>e \<in> set new. entry_kind e \<in> executor_kinds"
    and "log_staged i es" "\<not> log_committed i es"
  shows "\<exists>st. from_journal (fj_journal (sy_journal s')) = Inr st \<and>
    (state_of_id st i = MsCommitted \<or> projection_oracle (fj_journal (sy_journal s')) i \<or> log_inconsistent i es \<or>
     state_of_id st i = MsFailed \<and> log_terminal i (flog s'))"
proof -
  obtain st where st: "from_journal (fj_journal (sy_journal s')) = Inr st"
      "run_ops None (map FoldE (flog s')) pstate_default = Inr st"
    using executor_replay [OF assms(1,2)] by blast
  have "state_of_id st i = log_state i (flog s')"
    using run_ops_state [OF st(2)] by simp
  moreover have "\<not> log_repudiated i es"
    using assms(6) log_repudiated_committed by blast
  moreover have "log_staged i (flog s')"
    using assms(3,5) by (simp add: log_staged_def)
  ultimately show ?thesis
    using st(1) executor_entries_log(1,2) [OF assms(4), of i es] assms(3)
      projection_oracle_log [OF assms(1,2), of i]
    by (auto simp: log_state_def)
qed

lemma grows_new:
  assumes "fj.grows blake3 ids kinds s s'"
  obtains new where "flog s' = flog s @ new" "\<forall>e \<in> set new. entry_kind e \<in> kinds"
  using assms by (auto simp: fj.grows_def flog_def)

text \<open>The two halves: a first run, and a recovery under the projection of the journal.\<close>

lemma run_wm_effect_known:
  assumes inv: "executor_inv blake3 s" and pat: "md_effect_pattern (m_def m) = StageThenCommit"
    and run: "run_wm_mote cd (fjournal_ops blake3) (standard_commit_protocol quote (fjournal_ops blake3) so bo)
        m warrant cap req motes s = (r, s')" and len: "length (flog s') + 1 < 2 ^ 64"
  shows "(\<forall>bo'. run_wm_mote cd (fjournal_ops blake3) (standard_commit_protocol quote (fjournal_ops blake3) so bo')
        m warrant cap req motes s = (r, s')) \<and> (sy_store s', sy_world s') = (sy_store s, sy_world s) \<or>
    (\<exists>es. prefix (flog s) es \<and> prefix es (flog s') \<and> log_staged (m_id m) es \<and> \<not> log_committed (m_id m) es) \<and>
    (sy_store s', sy_world s') = snd (bo_dispatch bo m warrant cap req (sy_store s, sy_world s)) \<and>
    (\<exists>st. from_journal (fj_journal (sy_journal s')) = Inr st \<and>
      (state_of_id st (m_id m) = MsCommitted \<or> projection_oracle (fj_journal (sy_journal s')) (m_id m) \<or>
       log_inconsistent (m_id m) (flog s) \<or> state_of_id st (m_id m) = MsFailed \<and> log_terminal (m_id m) (flog s)))"
proof -
  have "\<forall>e \<in> set (j_entries (fj_journal (sy_journal s))). keyed e"
    using inv by (simp add: executor_inv_def flog_def)
  from run pat this show ?thesis
  proof (cases rule: fj.run_wm_mote_stages [consumes 3])
    case unused
    then show ?thesis by (simp add: fj.outside_same_def)
  next
    case (staged s1)
    obtain new1 where n1: "flog s1 = flog s @ new1" "\<forall>e \<in> set new1. entry_kind e \<in> {KIND_PROPOSED, KIND_EFFECT_STAGED}"
      using grows_new [OF staged(3)] .
    obtain new2 where n2: "flog s' = flog s1 @ new2" "\<forall>e \<in> set new2. entry_kind e \<in> {KIND_PROPOSED, KIND_COMMITTED}"
      using grows_new [OF staged(4)] .
    have inv': "executor_inv blake3 s'"
      using grows_executor_inv [OF runsD [OF fj.run_wm_mote_grows [where kinds = UNIV] run] inv] by simp
    have "\<forall>e \<in> set (new1 @ new2). entry_kind e \<noteq> KIND_FAILED"
      using n1(2) n2(2) by auto
    then have "log_terminal (m_id m) (flog s') = log_terminal (m_id m) (flog s)"
      using executor_entries_terminal [of "new1 @ new2" "m_id m" "flog s"] n1(1) n2(1) by simp
    moreover have "log_inconsistent (m_id m) (flog s1) = log_inconsistent (m_id m) (flog s)"
      using executor_entries_log(1) [of new1 "m_id m" "flog s"] n1 by auto
    moreover have "\<forall>e \<in> set new2. entry_kind e \<in> executor_kinds" using n2(2) by auto
    ultimately have "\<exists>st. from_journal (fj_journal (sy_journal s')) = Inr st \<and>
      (state_of_id st (m_id m) = MsCommitted \<or> projection_oracle (fj_journal (sy_journal s')) (m_id m) \<or>
       log_inconsistent (m_id m) (flog s) \<or> state_of_id st (m_id m) = MsFailed \<and> log_terminal (m_id m) (flog s))"
      using staged_recoverable [OF inv' len n2(1), of "m_id m"] staged(1,2) by (simp add: flog_def)
    moreover have "prefix (flog s) (flog s1) \<and> prefix (flog s1) (flog s') \<and> log_staged (m_id m) (flog s1) \<and>
        \<not> log_committed (m_id m) (flog s1)"
      using n1(1) n2(1) staged(1,2) by (simp add: flog_def)
    ultimately show ?thesis
      using staged(5) by blast
  qed
qed

lemma redispatch_effect_known:
  assumes inv: "executor_inv blake3 s"
    and run: "redispatch_wm_mote cd (fjournal_ops blake3) (standard_commit_protocol quote (fjournal_ops blake3) so bo)
        (projection_oracle (fj_journal (sy_journal s))) m warrant cap req cls motes s = (r, s')"
    and len: "length (flog s') + 1 < 2 ^ 64"
  shows "(\<forall>bo'. redispatch_wm_mote cd (fjournal_ops blake3) (standard_commit_protocol quote (fjournal_ops blake3) so bo')
        (projection_oracle (fj_journal (sy_journal s))) m warrant cap req cls motes s = (r, s')) \<and> s' = s \<or>
    (prefix (flog s) (flog s') \<and> log_staged (m_id m) (flog s) \<and> \<not> log_committed (m_id m) (flog s)) \<and>
    (\<exists>st. from_journal (fj_journal (sy_journal s')) = Inr st \<and>
      (state_of_id st (m_id m) = MsCommitted \<or> projection_oracle (fj_journal (sy_journal s')) (m_id m) \<or>
       state_of_id st (m_id m) = MsFailed \<and> cls = Some IcAtLeastOnce))"
proof (cases "md_nd_class (m_def m) \<noteq> Pure \<and> projection_oracle (fj_journal (sy_journal s)) (m_id m)")
  case False
  then show ?thesis using run by (auto simp: redispatch_wm_mote_def split: if_splits)
next
  case True
  let ?kinds = "{KIND_PROPOSED, KIND_COMMITTED, KIND_EFFECT_STAGED} \<union> (if cls = Some IcAtLeastOnce then {KIND_FAILED} else {})"
  have g: "fj.grows blake3 (fj.wm_ids m motes) ?kinds s s'"
    by (rule runsD [OF fj.redispatch_wm_mote_grows run]) auto
  obtain new where new: "flog s' = flog s @ new" "\<forall>e \<in> set new. entry_kind e \<in> ?kinds"
    using grows_new [OF g] .
  have inv': "executor_inv blake3 s'"
    using grows_executor_inv [OF g inv] by simp
  have log: "log_staged (m_id m) (flog s)" "\<not> log_committed (m_id m) (flog s)" "\<not> log_terminal (m_id m) (flog s)"
      "\<not> log_inconsistent (m_id m) (flog s)"
    using True projection_oracle_log [OF inv, of "m_id m"] len new(1) by auto
  have "cls = Some IcAtLeastOnce" if "log_terminal (m_id m) (flog s')"
  proof (rule ccontr)
    assume "cls \<noteq> Some IcAtLeastOnce"
    then have "\<forall>e \<in> set new. entry_kind e \<noteq> KIND_FAILED" using new(2) by auto
    then show False using executor_entries_terminal [of new "m_id m" "flog s"] that log(3) new(1) by simp
  qed
  moreover have "\<forall>e \<in> set new. entry_kind e \<in> executor_kinds" using new(2) by (auto split: if_splits)
  ultimately show ?thesis
    using staged_recoverable [OF inv' len new(1) _ log(1,2)] log new(1) by auto
qed

text \<open>
  C1: No effect is lost. Let a stage-then-commit Mote be run, or recovered under the projection of
  the journal, with any history and with journal failures at any point. Either the broker is not
  called: any other broker leaves the same state, and the outside is as before. Or the log has, in
  a prefix that does not hold the commit of the Mote, its \<open>EffectStaged\<close> entry (since any append
  may be the one that fails, this means that the entry is written before the broker is called);
  a first run calls the dispatch once. In that case the projection rebuilt from the journal afterwards
  holds the Mote as committed, or lets recovery take the effect up again, or holds it as failed
  because its log had a terminal failure before the run or an at-least-once effect was given up;
  only a Mote that was inconsistent before is in none of these states.
\<close>

theorem no_lost_effect:
  assumes "executor_inv (cd_blake3 (ev_codec env)) s" and "md_effect_pattern (m_def m) = StageThenCommit"
    and "a = RunWm m w cap req motes \<or> a = Recover m w cap req cls motes"
    and "s' = exec_step env a s" and "length (flog s') + 1 < 2 ^ 64"
  shows "(\<forall>bo. exec_step (env\<lparr>ev_broker_ops := bo\<rparr>) a s = s') \<and> (sy_store s', sy_world s') = (sy_store s, sy_world s) \<or>
    (\<exists>es. prefix (flog s) es \<and> prefix es (flog s') \<and> log_staged (m_id m) es \<and> \<not> log_committed (m_id m) es) \<and>
    (a = RunWm m w cap req motes \<longrightarrow>
      (sy_store s', sy_world s') = snd (bo_dispatch (ev_broker_ops env) m w cap req (sy_store s, sy_world s))) \<and>
    (\<exists>st. from_journal (fj_journal (sy_journal s')) = Inr st \<and>
      (state_of_id st (m_id m) = MsCommitted \<or> projection_oracle (fj_journal (sy_journal s')) (m_id m) \<or>
       state_of_id st (m_id m) = MsFailed \<and>
         (log_terminal (m_id m) (flog s) \<or> a = Recover m w cap req (Some IcAtLeastOnce) motes) \<or>
       log_inconsistent (m_id m) (flog s)))"
  using assms(3)
proof
  assume a: "a = RunWm m w cap req motes"
  obtain r where "run_wm_mote (ev_codec env) (ev_journal env) (ev_protocol env) m w cap req motes s = (r, s')"
    using assms(4) a by (metis exec_step.simps(2) prod.collapse)
  from run_wm_effect_known [OF assms(1,2) this assms(5)] a show ?thesis by auto
next
  assume a: "a = Recover m w cap req cls motes"
  obtain r where "redispatch_wm_mote (ev_codec env) (ev_journal env) (ev_protocol env)
      (projection_oracle (fj_journal (sy_journal s))) m w cap req cls motes s = (r, s')"
    using assms(4) a by (metis exec_step.simps(3) prod.collapse)
  from redispatch_effect_known [OF assms(1) this assms(5)] a show ?thesis by auto
qed

lemma terminal_or_committed: "list_ex (is_terminal_failed i) es \<Longrightarrow> log_terminal i es \<or> log_committed i es"
  by (induction es rule: rev_induct) (auto simp: log_occurs_snoc)

lemma redispatch_at_least_once:
  "redispatch_wm_mote cd jo cp oracle m warrant cap req (Some IcAtLeastOnce) motes =
     (if md_nd_class (m_def m) = Pure then (\<lambda>s. (Inl LifecycleInternal, s))
      else if \<not> oracle (m_id m) then (\<lambda>s. (Inl (CommitProtocolErr (R13WmReDispatchRefused (m_id m))), s))
      else then_st (acquire_st warrant) (\<lambda>slot. quiet_release slot (compensate_or_quarantine jo cp m (m_id m)
        (commit_input_of cd m warrant cap req (Some IcAtLeastOnce)))))"
  by (simp add: redispatch_wm_mote_def recovery_route_for_def Let_def)

text \<open>
  C2: An at-least-once effect is never repeated by recovery. Recovering it uses neither dispatch nor
  probe of the broker, whatever they would do; when it succeeds the Mote has failed terminally,
  and the projection rebuilt from the journal refuses every further recovery of it.
\<close>

theorem at_least_once_not_repeated:
  assumes "executor_inv blake3 s"
    and "redispatch_wm_mote cd (fjournal_ops blake3) (standard_commit_protocol quote (fjournal_ops blake3) so bo)
        (projection_oracle (fj_journal (sy_journal s))) m warrant cap req (Some IcAtLeastOnce) motes s = (r, s')"
    and "length (flog s') + 1 < 2 ^ 64"
  shows "(\<forall>d p. redispatch_wm_mote cd (fjournal_ops blake3) (standard_commit_protocol quote (fjournal_ops blake3) so
        (bo\<lparr>bo_dispatch := d, bo_probe_readback := p\<rparr>))
        (projection_oracle (fj_journal (sy_journal s))) m warrant cap req (Some IcAtLeastOnce) motes s = (r, s')) \<and>
    (\<forall>out. r = Inr out \<longrightarrow> (\<exists>n a. out = TerminallyFailed (m_id m) n a) \<and>
       \<not> projection_oracle (fj_journal (sy_journal s')) (m_id m))"
proof (intro conjI allI impI)
  fix d p
  have "try_compensate (fjournal_ops blake3) so (bo\<lparr>bo_dispatch := d, bo_probe_readback := p\<rparr>) =
      try_compensate (fjournal_ops blake3) so bo"
    by (simp add: try_compensate_def [abs_def])
  then have "compensate_or_quarantine (fjournal_ops blake3) (standard_commit_protocol quote (fjournal_ops blake3) so
      (bo\<lparr>bo_dispatch := d, bo_probe_readback := p\<rparr>)) =
      compensate_or_quarantine (fjournal_ops blake3) (standard_commit_protocol quote (fjournal_ops blake3) so bo)"
    by (simp add: compensate_or_quarantine_def [abs_def])
  then show "redispatch_wm_mote cd (fjournal_ops blake3) (standard_commit_protocol quote (fjournal_ops blake3) so
        (bo\<lparr>bo_dispatch := d, bo_probe_readback := p\<rparr>))
        (projection_oracle (fj_journal (sy_journal s))) m warrant cap req (Some IcAtLeastOnce) motes s = (r, s')"
    using assms(2) by (simp only: redispatch_at_least_once)
next
  fix out assume "r = Inr out"
  then have t: "\<exists>n a f. out = TerminallyFailed (m_id m) n a \<and> Failed f \<in> set (flog s') \<and> f_mote_id f = m_id m \<and>
      f_seq f = n \<and> f_reason_class f \<in> {CompensatedAtLeastOnce, QuarantinedAtLeastOnce}"
    using fj.at_least_once_terminal assms(2) by (fastforce simp: flog_def)
  then show "\<exists>n a. out = TerminallyFailed (m_id m) n a" by blast
  have inv: "executor_inv blake3 s'"
    using grows_executor_inv [OF runsD [OF fj.redispatch_wm_mote_grows [where kinds = UNIV] assms(2)] assms(1)] by simp
  obtain st where st: "from_journal (fj_journal (sy_journal s')) = Inr st"
      "run_ops None (map FoldE (flog s')) pstate_default = Inr st"
    using executor_replay [OF inv assms(3)] by blast
  have "list_ex (is_terminal_failed (m_id m)) (flog s')"
    using t by (auto simp: list_ex_iff intro!: bexI [of _ "Failed _"])
  then have "log_terminal (m_id m) (flog s') \<or> log_committed (m_id m) (flog s')"
    by (rule terminal_or_committed)
  then show "\<not> projection_oracle (fj_journal (sy_journal s')) (m_id m)"
    using st run_ops_redispatch [OF st(2), of "m_id m"] by (auto simp: projection_oracle_def)
qed

lemma verify_pure_rerun_outstanding:
  assumes "rm_inv (sy_rm s)" "verify_pure_rerun executor m warrant expected s = (r, s')"
  shows "rm_outstanding (sy_rm s') = rm_outstanding (sy_rm s)"
proof (cases "acquire (ws_resource_ceiling warrant) (sy_rm s)")
  case (Pair q rm)
  show ?thesis
  proof (cases q)
    case (Inl e)
    then show ?thesis
      using assms(2) Pair acquire_err [of "ws_resource_ceiling warrant" "sy_rm s" e rm]
      by (auto simp: verify_pure_rerun_def split: if_splits)
  next
    case (Inr slot)
    then have a: "acquire (ws_resource_ceiling warrant) (sy_rm s) = (Inr slot, rm)" using Pair by simp
    show ?thesis
      using assms(2) a acquire_ok [OF a] acquire_fresh [OF assms(1) a]
      by (auto simp: verify_pure_rerun_def run_st_def release_def split: if_splits prod.splits)
  qed
qed

text \<open>
  C34: Resource slots are bracketed. A world-mutating run, a recovery and a verifying re-run give
  back the slot they took on every path. A pure run does so as well unless it fails with a journal
  error after the slot was taken; in that case it returns with the slot still booked.
\<close>

theorem slots_bracketed:
  assumes "rm_inv (sy_rm s)"
  shows "(\<forall>r s'. run_wm_mote cd jo (standard_commit_protocol quote jo so bo) m warrant cap req motes s = (r, s') \<longrightarrow>
      rm_outstanding (sy_rm s') = rm_outstanding (sy_rm s)) \<and>
    (\<forall>r s'. redispatch_wm_mote cd jo (standard_commit_protocol quote jo so bo) oracle m warrant cap req cls motes s = (r, s') \<longrightarrow>
      rm_outstanding (sy_rm s') = rm_outstanding (sy_rm s)) \<and>
    (\<forall>r s'. verify_pure_rerun executor m warrant expected s = (r, s') \<longrightarrow>
      rm_outstanding (sy_rm s') = rm_outstanding (sy_rm s)) \<and>
    (\<forall>r s'. run_pure_mote cd jo executor m warrant s = (r, s') \<longrightarrow>
      rm_outstanding (sy_rm s') =
        (if r = Inl JournalAppend \<and> jo_read_committed jo (sy_journal s) (m_id m) \<noteq> Inl JournalFault
         then insert (rm_next_slot_id (sy_rm s)) (rm_outstanding (sy_rm s)) else rm_outstanding (sy_rm s)))"
proof (intro conjI allI impI)
  fix r s' assume run: "run_pure_mote cd jo executor m warrant s = (r, s')"
  have fault: "x = JournalFault" for x by (cases x)
  show "rm_outstanding (sy_rm s') =
        (if r = Inl JournalAppend \<and> jo_read_committed jo (sy_journal s) (m_id m) \<noteq> Inl JournalFault
         then insert (rm_next_slot_id (sy_rm s)) (rm_outstanding (sy_rm s)) else rm_outstanding (sy_rm s))"
  proof (cases "md_nd_class (m_def m) = Pure \<and> serve_if_committed jo (m_id m) s = Inr None")
    case True
    then have "run_pure_fresh cd jo executor m warrant s = (r, s')"
      using run by (simp add: run_pure_mote_def then_st_def lift_st_def)
    moreover have "jo_read_committed jo (sy_journal s) (m_id m) \<noteq> Inl JournalFault"
      using True by (auto simp: serve_if_committed_def)
    ultimately show ?thesis
      using run_pure_fresh_outstanding [OF assms] by simp
  next
    case False
    then have "s' = s \<and> (r = Inl JournalAppend \<longrightarrow> (\<exists>x. jo_read_committed jo (sy_journal s) (m_id m) = Inl x))"
      using run
      by (auto simp: run_pure_mote_def then_st_def lift_st_def serve_if_committed_def
          split: if_splits sum.splits option.splits prod.splits journal_entry.splits)
    then show ?thesis using fault by auto
  qed
qed (erule run_wm_outstanding [OF assms] redispatch_outstanding [OF assms] verify_pure_rerun_outstanding [OF assms])+

section \<open>A sample executor\<close>

text \<open>One capability that counts its calls in the world, behind the local broker and the in-memory store.\<close>

definition sample_capability :: "nat capability" where
  "sample_capability = \<lparr>cap_name = [1], cap_version = [1],
     cap_supported_patterns = [IdempotentByConstruction, StageThenCommit, ValidateThenCommit],
     cap_required_secret_scope = SecretNone, cap_invoke = (\<lambda>req w. (Inr [7], Suc w)),
     cap_probe = (\<lambda>req w. (Inr None, w)), cap_compensate = (\<lambda>req w. (Inr None, w))\<rparr>"

definition sample_env :: "(content_store, nat) exec_env" where
  "sample_env = \<lparr>ev_codec = \<lparr>cd_blake3 = (\<lambda>_. 5), cd_enc_def = (\<lambda>_. []), cd_enc_warrant = (\<lambda>_. [])\<rparr>,
     ev_quote = id, ev_store_ops = mem_store_ops (\<lambda>_. 5),
     ev_broker_ops = local_broker (mem_store_ops (\<lambda>_. 5)) [([1], sample_capability)],
     ev_executor = (\<lambda>m w x. (Inr \<lparr>xr_result_ref = 9, xr_started_at_epoch_ms = 0, xr_finished_at_epoch_ms = 0\<rparr>, x))\<rparr>"

definition sample_warrant :: warrant_spec where
  "sample_warrant = warrant_default\<lparr>ws_tool_grants := {\<lparr>tg_tool_id = [1], tg_tool_version = [1]\<rparr>}\<rparr>"

definition sample_request :: effect_request where
  "sample_request = \<lparr>er_payload = [], er_pattern = StageThenCommit, er_idempotency_key = None, er_net_scope = NetNone,
     er_fs_scope = [], er_secret_scope = SecretNone\<rparr>"

definition sample_effect :: mote where
  "sample_effect = sample_producer\<lparr>m_def := sample_def\<lparr>md_effect_pattern := StageThenCommit, md_tool_contract := [([1], [1])]\<rparr>\<rparr>"

definition sample_start :: "bool list \<Rightarrow> (content_store, nat) fsys" where
  "sample_start fails = \<lparr>sy_journal = \<lparr>fj_journal = journal_new, fj_append_fails = fails, fj_read_fails = False\<rparr>,
     sy_store = store_new, sy_world = 0, sy_rm = dev_defaults\<rparr>"

lemma sample_start_inv: "executor_inv (\<lambda>_. 5) (sample_start fails)"
  by (simp add: executor_inv_def sample_start_def flog_def journal_inv_new) (simp add: journal_new_def)

lemmas sample_eval = sample_env_def sample_capability_def sample_warrant_def sample_request_def sample_effect_def
  sample_start_def sample_producer_def sample_def_def warrant_default_def
  run_wm_mote_def run_wm_fresh_def finish_wm_def schedule_sibling_critic_def commit_input_of_def cin_id_def
  commit_def commit_stage_then_commit_def dispatch_and_commit_def verify_and_commit_def enforce_r11_def
  committed_of_input_def read_committed_result_ref_def serve_if_committed_def
  then_st_def err_st_def lift_st_def append_st_def append_lc_def broker_st_def or_release_def acquire_st_def release_st_def
  local_broker_def dispatch_def precheck_def stage_def mem_store_ops_def store_put_def store_get_def store_contains_def
  store_new_def content_ref_of_def fjournal_ops_def append_entry_def existing_def dedupes_def same_fact_def
  read_committed_def journal_new_def proposed_of_def acquire_def release_def dev_defaults_def resource_manager_new_def
  saturating_succ_def fs_scope_is_subset_of_def wref_def def_hash_def warrant_ref_of_spec_def mote_def_hash_of_def Let_def

text \<open>With no failures the effect runs and commits; when the last append fails it has run but is not committed.\<close>

abbreviation sample_run where
  "sample_run fails \<equiv> run_wm_mote (ev_codec sample_env) (fjournal_ops (\<lambda>_. 5))
     (standard_commit_protocol id (fjournal_ops (\<lambda>_. 5)) (mem_store_ops (\<lambda>_. 5)) (ev_broker_ops sample_env))
     sample_effect sample_warrant [1] sample_request [] (sample_start fails)"

lemma sample_run_ok:
  "\<exists>s'. sample_run [] = (Inr \<lparr>wlc_committed_seq = 3, wlc_result_ref = 5, wlc_mote_id = 1, wlc_critic_proposed_seq = None\<rparr>, s') \<and>
     sy_world s' = 1 \<and> length (flog s') = 3"
  by (simp add: sample_eval flog_def)

lemma sample_run_crash:
  "\<exists>s'. sample_run [False, False, True] = (Inl (CommitProtocolErr (JournalAppendCommittedFailed 1)), s') \<and>
     sy_world s' = 1 \<and> length (flog s') = 2"
  by (simp add: sample_eval flog_def)

theorem executor_journal_replays_witness:
  "\<exists>st. from_journal (fj_journal (sy_journal (exec_steps sample_env
       [RunWm sample_effect sample_warrant [1] sample_request []] (sample_start [])))) = Inr st \<and>
     state_of_id st 1 = log_state 1 (flog (exec_steps sample_env
       [RunWm sample_effect sample_warrant [1] sample_request []] (sample_start [])))"
proof -
  let ?steps = "[RunWm sample_effect sample_warrant [1] sample_request []]"
  have env: "cd_blake3 (ev_codec sample_env) = (\<lambda>_. 5)" "ev_quote sample_env = id"
    "ev_store_ops sample_env = mem_store_ops (\<lambda>_. 5)"
    by (simp_all add: sample_env_def)
  have "exec_steps sample_env ?steps (sample_start []) = snd (sample_run [])"
    by (simp add: exec_steps_def env)
  then have len: "length (flog (exec_steps sample_env ?steps (sample_start []))) + 1 < 2 ^ 64"
    using sample_run_ok by auto
  have "executor_inv (cd_blake3 (ev_codec sample_env)) (sample_start [])"
    by (simp add: env sample_start_inv)
  from executor_journal_replays [OF this _ len] show ?thesis by auto
qed

lemma sample_pure_ok:
  "\<exists>s'. run_pure_mote (ev_codec sample_env) (fjournal_ops (\<lambda>_. 5)) (ev_executor sample_env) sample_critic sample_warrant
     (sample_start []) = (Inr \<lparr>lc_committed_seq = 2, lc_result_ref = 9, lc_mote_id = 2\<rparr>, s')"
  by (simp add: sample_eval run_pure_mote_def run_pure_fresh_def finish_pure_def run_st_def sample_critic_def)

theorem success_is_durable_commit_witness:
  "(\<exists>s' c. sample_run [] = (Inr \<lparr>wlc_committed_seq = 3, wlc_result_ref = 5, wlc_mote_id = 1, wlc_critic_proposed_seq = None\<rparr>, s') \<and>
     Committed c \<in> set (flog s') \<and> c_seq c = 3 \<and> so_get (mem_store_ops (\<lambda>_. 5)) (sy_store s') 5 \<noteq> None) \<and>
   (\<exists>s' c. run_pure_mote (ev_codec sample_env) (fjournal_ops (\<lambda>_. 5)) (ev_executor sample_env) sample_critic sample_warrant
     (sample_start []) = (Inr \<lparr>lc_committed_seq = 2, lc_result_ref = 9, lc_mote_id = 2\<rparr>, s') \<and>
     Committed c \<in> set (flog s') \<and> c_seq c = 2 \<and> c_result_ref c = 9)"
proof -
  obtain s1 where r1: "sample_run [] =
      (Inr \<lparr>wlc_committed_seq = 3, wlc_result_ref = 5, wlc_mote_id = 1, wlc_critic_proposed_seq = None\<rparr>, s1)"
    using sample_run_ok by blast
  obtain s2 where r2: "run_pure_mote (ev_codec sample_env) (fjournal_ops (\<lambda>_. 5)) (ev_executor sample_env) sample_critic
      sample_warrant (sample_start []) = (Inr \<lparr>lc_committed_seq = 2, lc_result_ref = 9, lc_mote_id = 2\<rparr>, s2)"
    using sample_pure_ok by blast
  have "flog (sample_start []) = []" "md_nd_class (m_def sample_effect) \<noteq> Pure"
    by (simp_all add: sample_start_def flog_def journal_new_def sample_effect_def sample_producer_def sample_def_def)
  then obtain c where c: "Committed c \<in> set (flog s1)" "c_seq c = 3" "so_get (mem_store_ops (\<lambda>_. 5)) (sy_store s1) 5 \<noteq> None"
    using success_is_durable_commit [OF sample_start_inv disjI1 [OF conjI [OF r1 conjI [OF refl conjI [OF refl refl]]]]] by auto
  obtain d where d: "Committed d \<in> set (flog s2)" "c_seq d = 2" "c_result_ref d = 9"
    using success_is_durable_commit [OF sample_start_inv disjI2 [OF disjI2 [OF conjI [OF r2 conjI [OF refl conjI [OF refl refl]]]]]]
    by auto
  show ?thesis using r1 r2 c d by blast
qed

lemma sample_log_start [simp]: "flog (sample_start fails) = []" "sy_world (sample_start fails) = 0"
  by (simp_all add: sample_start_def flog_def journal_new_def)

text \<open>The state such a crash leaves: an effect that is staged and not committed.\<close>

definition sample_crashed :: "(content_store, nat) fsys" where
  "sample_crashed = (sample_start [])
     \<lparr>sy_journal := \<lparr>fj_journal = \<lparr>j_entries = [EffectStaged \<lparr>es_mote_id = 1, es_idempotency_key = 1, es_seq = 1\<rparr>], j_next_seq = 1\<rparr>,
        fj_append_fails = [], fj_read_fails = False\<rparr>\<rparr>"

lemma sample_crashed_inv: "executor_inv (\<lambda>_. 5) sample_crashed"
  by (simp add: sample_crashed_def executor_inv_def flog_def journal_inv_def seqs_dense_def facts_unique_def dedupes_def)

lemma sample_crashed_oracle: "projection_oracle (fj_journal (sy_journal sample_crashed)) 1"
proof -
  have l: "flog sample_crashed = [] @ [EffectStaged \<lparr>es_mote_id = 1, es_idempotency_key = 1, es_seq = 1\<rparr>]"
    by (simp add: sample_crashed_def flog_def)
  then show ?thesis
    using projection_oracle_log [OF sample_crashed_inv, of 1]
      executor_entries_log(1) [of "[EffectStaged \<lparr>es_mote_id = 1, es_idempotency_key = 1, es_seq = 1\<rparr>]" 1 "[]"]
      executor_entries_terminal [of "[EffectStaged \<lparr>es_mote_id = 1, es_idempotency_key = 1, es_seq = 1\<rparr>]" 1 "[]"]
    by (simp add: log_staged_def log_committed_def)
qed

lemma sample_recover:
  "sy_world (exec_step sample_env (Recover sample_effect sample_warrant [1] sample_request None []) sample_crashed) = 1 \<and>
   length (flog (exec_step sample_env (Recover sample_effect sample_warrant [1] sample_request None []) sample_crashed)) = 2"
proof -
  have "m_id sample_effect = 1" by (simp add: sample_effect_def sample_producer_def)
  then show ?thesis
    using sample_crashed_oracle unfolding exec_step.simps redispatch_wm_mote_def
    by (simp add: sample_eval recovery_route_for_def probe_or_redispatch_def try_commit_from_readback_def probe_readback_def
        optional_call_def flog_def sample_crashed_def)
qed

theorem no_lost_effect_witness:
  "(\<exists>s' es st. sample_run [False, False, True] = (Inl (CommitProtocolErr (JournalAppendCommittedFailed 1)), s') \<and>
     sy_world s' = 1 \<and> prefix es (flog s') \<and> log_staged 1 es \<and> \<not> log_committed 1 es \<and>
     from_journal (fj_journal (sy_journal s')) = Inr st \<and>
     (state_of_id st 1 = MsCommitted \<or> projection_oracle (fj_journal (sy_journal s')) 1)) \<and>
   (\<exists>s' st. s' = exec_step sample_env (Recover sample_effect sample_warrant [1] sample_request None []) sample_crashed \<and>
     sy_world s' = 1 \<and> from_journal (fj_journal (sy_journal s')) = Inr st \<and>
     (state_of_id st 1 = MsCommitted \<or> projection_oracle (fj_journal (sy_journal s')) 1))"
proof -
  obtain s' where r: "sample_run [False, False, True] = (Inl (CommitProtocolErr (JournalAppendCommittedFailed 1)), s')"
      "sy_world s' = 1" "length (flog s') = 2"
    using sample_run_crash by blast
  have e: "executor_inv (cd_blake3 (ev_codec sample_env)) (sample_start [False, False, True])"
      "md_effect_pattern (m_def sample_effect) = StageThenCommit" "m_id sample_effect = 1"
      "s' = exec_step sample_env (RunWm sample_effect sample_warrant [1] sample_request []) (sample_start [False, False, True])"
    using r(1) sample_start_inv by (simp_all add: sample_env_def sample_effect_def sample_producer_def)
  let ?a = "Recover sample_effect sample_warrant [1] sample_request None []"
  define s2 where "s2 = exec_step sample_env ?a sample_crashed"
  have w: "sy_world s2 = 1" "length (flog s2) = 2" "sy_world sample_crashed = 0"
      "\<not> log_inconsistent 1 (flog sample_crashed)" "\<not> log_terminal 1 (flog sample_crashed)"
    unfolding s2_def using sample_recover projection_oracle_log [OF sample_crashed_inv, of 1] sample_crashed_oracle
    by (auto simp: sample_crashed_def flog_def sample_start_def)
  have "executor_inv (cd_blake3 (ev_codec sample_env)) sample_crashed"
    using sample_crashed_inv by (simp add: sample_env_def)
  from no_lost_effect [OF this e(2) disjI2 [OF refl] s2_def] e(3) w
  have "\<exists>st. from_journal (fj_journal (sy_journal s2)) = Inr st \<and>
      (state_of_id st 1 = MsCommitted \<or> projection_oracle (fj_journal (sy_journal s2)) 1)"
    by auto
  moreover from no_lost_effect [OF e(1,2) disjI1 [OF refl] e(4)] r e(3)
  have "\<exists>es st. prefix es (flog s') \<and> log_staged 1 es \<and> \<not> log_committed 1 es \<and>
      from_journal (fj_journal (sy_journal s')) = Inr st \<and>
      (state_of_id st 1 = MsCommitted \<or> projection_oracle (fj_journal (sy_journal s')) 1)"
    by auto
  ultimately show ?thesis using r(1,2) w(1) s2_def by blast
qed

theorem at_least_once_not_repeated_witness:
  "\<exists>s' n. redispatch_wm_mote (ev_codec sample_env) (fjournal_ops (\<lambda>_. 5))
       (standard_commit_protocol id (fjournal_ops (\<lambda>_. 5)) (mem_store_ops (\<lambda>_. 5)) (ev_broker_ops sample_env))
       (projection_oracle (fj_journal (sy_journal sample_crashed))) sample_effect sample_warrant [1] sample_request
       (Some IcAtLeastOnce) [] sample_crashed = (Inr (TerminallyFailed 1 n Quarantine), s') \<and>
     \<not> projection_oracle (fj_journal (sy_journal s')) 1"
proof -
  have id: "m_id sample_effect = 1" by (simp add: sample_effect_def sample_producer_def)
  obtain s' where r: "redispatch_wm_mote (ev_codec sample_env) (fjournal_ops (\<lambda>_. 5))
       (standard_commit_protocol id (fjournal_ops (\<lambda>_. 5)) (mem_store_ops (\<lambda>_. 5)) (ev_broker_ops sample_env))
       (projection_oracle (fj_journal (sy_journal sample_crashed))) sample_effect sample_warrant [1] sample_request
       (Some IcAtLeastOnce) [] sample_crashed = (Inr (TerminallyFailed 1 2 Quarantine), s')" "length (flog s') = 2"
    using sample_crashed_oracle unfolding redispatch_at_least_once id
    by (simp add: sample_eval compensate_or_quarantine_def try_compensate_def quiet_release_def compensate_def
        optional_call_def failed_entry_of_def flog_def sample_crashed_def)
  with at_least_once_not_repeated [OF sample_crashed_inv r(1)] id show ?thesis by auto
qed

theorem committed_is_served_witness:
  "run_wm_mote (ev_codec sample_env) (fjournal_ops (\<lambda>_. 5)) (ev_protocol sample_env) sample_effect sample_warrant [1]
     sample_request [] (sample_crashed\<lparr>sy_journal := (sy_journal sample_crashed)\<lparr>fj_journal :=
       snd (append_entry (\<lambda>_. 5) (committed_of_input (commit_input_of (ev_codec sample_env) sample_effect sample_warrant [1]
         sample_request None) 5) (fj_journal (sy_journal sample_crashed)))\<rparr>\<rparr>) =
   (Inr \<lparr>wlc_committed_seq = 2, wlc_result_ref = 5, wlc_mote_id = 1, wlc_critic_proposed_seq = None\<rparr>,
    sample_crashed\<lparr>sy_journal := (sy_journal sample_crashed)\<lparr>fj_journal :=
       snd (append_entry (\<lambda>_. 5) (committed_of_input (commit_input_of (ev_codec sample_env) sample_effect sample_warrant [1]
         sample_request None) 5) (fj_journal (sy_journal sample_crashed)))\<rparr>\<rparr>)"
  (is "run_wm_mote _ _ _ _ _ _ _ _ ?s = _")
proof -
  have "executor_inv (\<lambda>_. 5) ?s"
    by (simp add: executor_inv_def flog_def sample_crashed_def journal_inv_def seqs_dense_def facts_unique_def
        append_entry_def existing_def dedupes_def same_fact_def committed_of_input_def commit_input_of_def cin_id_def Let_def
        sample_effect_def sample_producer_def nth_Cons split: nat.splits)
  moreover obtain c where "Committed c \<in> set (flog ?s)" "c_mote_id c = m_id sample_effect" "c_seq c = 2" "c_result_ref c = 5"
    by (simp add: flog_def sample_crashed_def append_entry_def existing_def dedupes_def same_fact_def
        committed_of_input_def commit_input_of_def cin_id_def Let_def)
  moreover have "md_nd_class (m_def sample_effect) \<noteq> Pure" "m_id sample_effect = 1"
    by (simp_all add: sample_effect_def sample_producer_def sample_def_def)
  moreover have "\<not> fj_read_fails (sy_journal ?s)"
    by (simp add: sample_crashed_def)
  ultimately show ?thesis
    using committed_is_served [of "\<lambda>_. 5" ?s c sample_effect] by (simp add: sample_env_def)
qed

theorem slots_bracketed_witness:
  "rm_outstanding (sy_rm (snd (sample_run []))) = {} \<and>
   rm_outstanding (sy_rm (snd (verify_pure_rerun (ev_executor sample_env) sample_critic sample_warrant 9 (sample_start [])))) = {} \<and>
   rm_outstanding (sy_rm (snd (run_pure_mote (ev_codec sample_env) (fjournal_ops (\<lambda>_. 5)) (ev_executor sample_env)
     sample_critic sample_warrant (sample_start [True])))) = {1}"
proof -
  have inv: "rm_inv (sy_rm (sample_start fails))" "rm_outstanding (sy_rm (sample_start fails)) = {}"
      "rm_next_slot_id (sy_rm (sample_start fails)) = 1" for fails
    by (simp_all add: sample_start_def rm_inv_def dev_defaults_def resource_manager_new_def)
  have "fst (run_pure_mote (ev_codec sample_env) (fjournal_ops (\<lambda>_. 5)) (ev_executor sample_env)
     sample_critic sample_warrant (sample_start [True])) = Inl JournalAppend"
    by (simp add: sample_eval run_pure_mote_def run_pure_fresh_def finish_pure_def run_st_def sample_critic_def)
  moreover have "jo_read_committed (fjournal_ops (\<lambda>_. 5)) (sy_journal (sample_start [True])) (m_id sample_critic) \<noteq> Inl JournalFault"
    by (simp add: fjournal_ops_def sample_start_def)
  moreover note slots_bracketed [OF inv(1), of "ev_codec sample_env" "fjournal_ops (\<lambda>_. 5)" id "mem_store_ops (\<lambda>_. 5)"
      "ev_broker_ops sample_env" sample_effect sample_warrant "[1]" sample_request "[]" "[]"]
    slots_bracketed [OF inv(1), where executor = "ev_executor sample_env" and expected = 9, of "ev_codec sample_env" "fjournal_ops (\<lambda>_. 5)" id "mem_store_ops (\<lambda>_. 5)"
      "ev_broker_ops sample_env" sample_critic sample_warrant "[1]" sample_request "[]" "[]"]
    slots_bracketed [OF inv(1), of "ev_codec sample_env" "fjournal_ops (\<lambda>_. 5)" id "mem_store_ops (\<lambda>_. 5)"
      "ev_broker_ops sample_env" sample_critic sample_warrant "[1]" sample_request "[]" "[True]"]
  ultimately show ?thesis
    by (intro conjI; metis inv(2,3) prod.collapse)
qed

end
