(* ===== verification/Kx_Critic.thy ===== *)
theory Kx_Critic
  imports Kx_Journal_Entry
begin

text \<open>
  The deterministic critic (\<open>crates/kx-critic\<close>): record framing, the four checks and the
  dispatching \<open>evaluate\<close>. The regular expression engine and the JSON parser are third-party
  and enter as parameters: the matches of the frozen patterns and the column of the first error.
\<close>

section \<open>Framing (framing.rs)\<close>

text \<open>\<open>current\<close> is the part of the record read so far; a trailing record needs no line feed.\<close>

fun frame_lines :: "bytes \<Rightarrow> bytes \<Rightarrow> bytes list" where
  "frame_lines current [] = (if current = [] then [] else [current])"
| "frame_lines current (b # bs) =
     (if b = 10 then current # frame_lines [] bs else frame_lines (current @ [b]) bs)"

text \<open>\<open>pos\<close> is the offset of the remaining input; an error carries the offset it was met at.\<close>

function frame_prefixed :: "nat \<Rightarrow> bytes \<Rightarrow> (u64, bytes list) result" where
  "frame_prefixed pos bs =
     (if bs = [] then Inr []
      else if length bs < 4 then Inl (of_nat pos)
      else let len = unat (le_word (take 4 bs) :: u32); rest = drop 4 bs in
        if length rest < len then Inl (of_nat (pos + 4))
        else and_then (frame_prefixed (pos + 4 + len) (drop len rest)) (\<lambda>rs. Inr (take len rest # rs)))"
  by pat_completeness auto
termination by (relation "measure (\<lambda>(pos, bs). length bs)") auto

declare frame_prefixed.simps [simp del]

function fixed_chunks :: "nat \<Rightarrow> bytes \<Rightarrow> bytes list" where
  "fixed_chunks width bs =
     (if width = 0 \<or> bs = [] then [] else take width bs # fixed_chunks width (drop width bs))"
  by pat_completeness auto
termination by (relation "measure (\<lambda>(w, bs). length bs)") auto

declare fixed_chunks.simps [simp del]

definition frame :: "record_framing \<Rightarrow> bytes \<Rightarrow> (u64, bytes list) result" where
  "frame framing input =
     (case framing of
        LinesLf \<Rightarrow> Inr (frame_lines [] input)
      | LengthPrefixedU32 \<Rightarrow> frame_prefixed 0 input
      | FixedWidth width \<Rightarrow>
          if width = 0 then Inl 0
          else if length input mod unat width \<noteq> 0
          then Inl (of_nat (length input div unat width * unat width))
          else Inr (fixed_chunks (unat width) input))"

definition key_of :: "bytes \<Rightarrow> (u32 \<times> u32) option \<Rightarrow> bytes option" where
  "key_of record key_range =
     (case key_range of
        None \<Rightarrow> Some record
      | Some (start, end_pos) \<Rightarrow>
          if unat start > unat end_pos then None
          else if unat end_pos > length record then None
          else Some (take (unat end_pos - unat start) (drop (unat start) record)))"

section \<open>Duplicates (checks/dedup.rs)\<close>

fun dedup_loop ::
  "(u32 \<times> u32) option \<Rightarrow> nat \<Rightarrow> bytes set \<Rightarrow> nat \<Rightarrow> nat option \<Rightarrow> bytes list \<Rightarrow> (nat, nat \<times> nat option) result"
where
  "dedup_loop key_range idx seen count first [] = Inr (count, first)"
| "dedup_loop key_range idx seen count first (record # rest) =
     (case key_of record key_range of
        None \<Rightarrow> Inl idx
      | Some key \<Rightarrow>
          if key \<in> seen
          then dedup_loop key_range (Suc idx) seen (Suc count) (if first = None then Some idx else first) rest
          else dedup_loop key_range (Suc idx) (insert key seen) count first rest)"

definition dedup_eval :: "dedup_spec \<Rightarrow> bytes \<Rightarrow> critic_verdict" where
  "dedup_eval spec input =
     (case frame (ds_framing spec) input of
        Inl at_offset \<Rightarrow> VInvalid (Unparseable CKDedup at_offset)
      | Inr records \<Rightarrow>
          (case dedup_loop (ds_key_range spec) 0 {} 0 None records of
             Inl idx \<Rightarrow> VInvalid (Unparseable CKDedup (of_nat idx))
           | Inr (count, None) \<Rightarrow> VValid
           | Inr (count, Some first) \<Rightarrow> VInvalid (DuplicateDetected (of_nat count) (of_nat first))))"

section \<open>Statistics (checks/stat\_bounds.rs)\<close>

text \<open>\<open>str::parse::<i64>\<close>: an optional sign and at least one digit, in the key_range of \<open>i64\<close>. A field
  that is not UTF-8 has a byte that is no digit, so the UTF-8 check changes nothing.\<close>

definition digit_of :: "u8 \<Rightarrow> int option" where
  "digit_of b = (if 48 \<le> unat b \<and> unat b \<le> 57 then Some (int (unat b - 48)) else None)"

fun parse_digits :: "int \<Rightarrow> bytes \<Rightarrow> int option" where
  "parse_digits acc [] = Some acc"
| "parse_digits acc (b # bs) = Option.bind (digit_of b) (\<lambda>d. parse_digits (acc * 10 + d) bs)"

definition in_i64 :: "int \<Rightarrow> bool" where
  "in_i64 v \<longleftrightarrow> - (2 ^ 63) \<le> v \<and> v < 2 ^ 63"

definition parse_scaled_int :: "bytes \<Rightarrow> int option" where
  "parse_scaled_int field =
     (let (negative, digits) = (case field of
          [] \<Rightarrow> (False, [])
        | b # bs \<Rightarrow> if b = 45 then (True, bs) else if b = 43 then (False, bs) else (False, field))
      in if digits = [] then None
         else case parse_digits 0 digits of
             None \<Rightarrow> None
           | Some n \<Rightarrow> (let v = (if negative then - n else n) in if in_i64 v then Some v else None))"

fun stat_values :: "(u32 \<times> u32) option \<Rightarrow> nat \<Rightarrow> bytes list \<Rightarrow> (nat, int list) result" where
  "stat_values key_range idx [] = Inr []"
| "stat_values key_range idx (record # rest) =
     (case key_of record key_range of
        None \<Rightarrow> Inl idx
      | Some field \<Rightarrow>
          (case parse_scaled_int field of
             None \<Rightarrow> Inl idx
           | Some value \<Rightarrow> and_then (stat_values key_range (Suc idx) rest) (\<lambda>vs. Inr (value # vs))))"

text \<open>Division that truncates toward zero, as \<open>/\<close> on \<open>i128\<close>.\<close>

definition trunc_div :: "int \<Rightarrow> int \<Rightarrow> int" where
  "trunc_div a b = sgn a * sgn b * (\<bar>a\<bar> div \<bar>b\<bar>)"

definition clamp_i64 :: "int \<Rightarrow> int \<Rightarrow> int" where
  "clamp_i64 s v = (if in_i64 v then v else if s < 0 then - (2 ^ 63) else 2 ^ 63 - 1)"

definition stat_of :: "stat_kind \<Rightarrow> int list \<Rightarrow> int" where
  "stat_of stat vs =
     (case stat of
        MeanScaled \<Rightarrow> if vs = [] then 0 else clamp_i64 (sum_list vs) (trunc_div (sum_list vs) (int (length vs)))
      | MinScaled \<Rightarrow> if vs = [] then 0 else Min (set vs)
      | MaxScaled \<Rightarrow> if vs = [] then 0 else Max (set vs)
      | RecordCount \<Rightarrow> 0)"

definition stat_verdict :: "stat_bounds_spec \<Rightarrow> int \<Rightarrow> critic_verdict" where
  "stat_verdict spec observed =
     (if sint (sb_lo_scaled spec) \<le> observed \<and> observed \<le> sint (sb_hi_scaled spec) then VValid
      else VInvalid (StatOutOfBounds (sb_stat spec) (word_of_int observed) (sb_lo_scaled spec) (sb_hi_scaled spec)))"

definition stat_bounds_eval :: "stat_bounds_spec \<Rightarrow> bytes \<Rightarrow> critic_verdict" where
  "stat_bounds_eval spec input =
     (case frame (sb_framing spec) input of
        Inl at_offset \<Rightarrow> VInvalid (Unparseable CKStatBounds at_offset)
      | Inr records \<Rightarrow>
          if sb_stat spec = RecordCount
          then stat_verdict spec (if in_i64 (int (length records)) then int (length records) else 2 ^ 63 - 1)
          else case stat_values (sb_numeric_field_range spec) 0 records of
              Inl idx \<Rightarrow> VInvalid (Unparseable CKStatBounds (of_nat idx))
            | Inr vs \<Rightarrow> stat_verdict spec (stat_of (sb_stat spec) vs))"

section \<open>Personal data (checks/pii.rs)\<close>

text \<open>The matches of the frozen patterns: the first one, and for card numbers all of them in order.\<close>

record pii_patterns =
  px_email :: "bytes \<Rightarrow> (nat \<times> nat) option"
  px_ipv4 :: "bytes \<Rightarrow> (nat \<times> nat) option"
  px_us_ssn :: "bytes \<Rightarrow> (nat \<times> nat) option"
  px_cc_candidates :: "bytes \<Rightarrow> (nat \<times> nat) list"

fun luhn_sum :: "nat \<Rightarrow> bytes \<Rightarrow> nat" where
  "luhn_sum i [] = 0"
| "luhn_sum i (b # bs) =
     (let d = unat b - 48;
          d' = (if i mod 2 = 1 then (if d * 2 > 9 then d * 2 - 9 else d * 2) else d)
      in d' + luhn_sum (Suc i) bs)"

definition luhn_ok :: "bytes \<Rightarrow> bool" where
  "luhn_ok digits \<longleftrightarrow> luhn_sum 0 (rev digits) mod 10 = 0"

definition pii_find_first :: "pii_patterns \<Rightarrow> pii_class \<Rightarrow> bytes \<Rightarrow> (nat \<times> nat) option" where
  "pii_find_first px cls input =
     (case cls of
        Email \<Rightarrow> px_email px input
      | IpV4 \<Rightarrow> px_ipv4 px input
      | UsSsn \<Rightarrow> px_us_ssn px input
      | CreditCardLuhn \<Rightarrow> find (\<lambda>(start, len). luhn_ok (take len (drop start input))) (px_cc_candidates px input))"

text \<open>The classes in the order of the enumeration, which is the iteration order of the set.\<close>

definition pii_order :: "pii_class list" where
  "pii_order = [Email, IpV4, CreditCardLuhn, UsSsn]"

fun pii_best :: "pii_patterns \<Rightarrow> bytes \<Rightarrow> (pii_class \<times> nat \<times> nat) option \<Rightarrow> pii_class list \<Rightarrow> (pii_class \<times> nat \<times> nat) option"
where
  "pii_best px input best [] = best"
| "pii_best px input best (cls # rest) =
     pii_best px input
       (case pii_find_first px cls input of
          None \<Rightarrow> best
        | Some (start, len) \<Rightarrow>
            (case best of
               None \<Rightarrow> Some (cls, start, len)
             | Some (_, best_start, _) \<Rightarrow> if start < best_start then Some (cls, start, len) else best)) rest"

definition pii_eval :: "pii_patterns \<Rightarrow> pii_class set \<Rightarrow> bytes \<Rightarrow> critic_verdict" where
  "pii_eval px forbidden input =
     (case pii_best px input None (filter (\<lambda>c. c \<in> forbidden) pii_order) of
        None \<Rightarrow> VValid
      | Some (cls, start, len) \<Rightarrow> VInvalid (PiiLeak cls (of_nat start) (of_nat len)))"

section \<open>Schemas (checks/schema.rs)\<close>

text \<open>\<open>Utf8Error::valid_up_to\<close>\<close>

function valid_up_to :: "bytes \<Rightarrow> nat" where
  "valid_up_to bs = (case utf8_step bs of None \<Rightarrow> 0 | Some (c, rest) \<Rightarrow> length c + valid_up_to rest)"
  by pat_completeness auto
termination by (relation "measure length") (auto dest!: utf8_step_split)

declare valid_up_to.simps [simp del]

definition utf8_fault :: "bytes \<Rightarrow> schema_fault option" where
  "utf8_fault input = (if valid_utf8 input then None else Some (NotUtf8 (of_nat (valid_up_to input))))"

text \<open>\<open>u64::saturating_mul\<close>\<close>

definition sat_mul :: "u64 \<Rightarrow> u64 \<Rightarrow> u64" where
  "sat_mul a b = (if unat a * unat b < 2 ^ 64 then a * b else - 1)"

definition check_len :: "u64 \<Rightarrow> u64 \<Rightarrow> u64 \<Rightarrow> schema_tag \<Rightarrow> critic_verdict" where
  "check_len expected_bytes actual_bytes expected_elems expected =
     (if expected_bytes = actual_bytes then VValid
      else VInvalid (SchemaMismatch expected (ShapeMismatch expected_elems actual_bytes)))"

text \<open>\<open>json\<close> is the parser: \<open>None\<close> on well-formed input, otherwise the column of the error.\<close>

definition schema_eval :: "(bytes \<Rightarrow> nat option) \<Rightarrow> schema_tag \<Rightarrow> bytes \<Rightarrow> critic_verdict" where
  "schema_eval json expected input =
     (case expected of
        Blob \<Rightarrow> VValid | Image \<Rightarrow> VValid | Audio \<Rightarrow> VValid
      | TextS \<Rightarrow> (case utf8_fault input of None \<Rightarrow> VValid | Some detail \<Rightarrow> VInvalid (SchemaMismatch TextS detail))
      | Json \<Rightarrow>
          (case utf8_fault input of
             Some detail \<Rightarrow> VInvalid (SchemaMismatch Json detail)
           | None \<Rightarrow>
               (case json input of
                  None \<Rightarrow> VValid
                | Some col \<Rightarrow> VInvalid (SchemaMismatch Json (NotJson (of_nat (min (col - 1) (length input)))))))
      | Tensor dtype shape \<Rightarrow>
          (let elems = fold (\<lambda>d acc. sat_mul acc d) shape 1 in
           check_len (sat_mul elems (byte_width dtype)) (of_nat (length input)) elems (Tensor dtype shape))
      | Vector dim \<Rightarrow>
          (let elems = ucast dim in
           check_len (sat_mul elems 4) (of_nat (length input)) elems (Vector dim)))"

section \<open>Evaluation (evaluate.rs)\<close>

definition evaluate :: "(bytes \<Rightarrow> nat option) \<Rightarrow> pii_patterns \<Rightarrow> check_spec \<Rightarrow> bytes \<Rightarrow> critic_verdict" where
  "evaluate json px spec input =
     (case spec of
        SchemaCheck s \<Rightarrow> schema_eval json s input
      | DedupCheck s \<Rightarrow> dedup_eval s input
      | StatBoundsCheck s \<Rightarrow> stat_bounds_eval s input
      | PiiLeakCheck s \<Rightarrow> pii_eval px s input
      | LlmJudge _ \<Rightarrow> VInvalid (JudgeRejected 1))"

section \<open>What the checks decide\<close>



















end
