(* ===== verification/Kx_Scheduler.thy ===== *)
theory Kx_Scheduler
  imports Kx_Projection_Ready Kx_Lifecycle
begin

text \<open>
  The per-run scheduler (\<open>crates/kx-scheduler\<close>): placement policies, submission and the dispatch
  round. The projection belongs to the caller and is passed in; the placement policy and the
  executor backend are state transformers, since both may carry state of their own.
\<close>

section \<open>Placement\<close>

type_synonym worker_id = u64

type_synonym 'p placement = "mote_id \<Rightarrow> 'p \<Rightarrow> worker_id \<times> 'p"

definition local_place :: "unit placement" where
  "local_place i p = (0, p)"

record round_robin =
  rr_n_workers :: u64
  rr_next :: u64

text \<open>\<open>None\<close> is the panic of the constructor; the counter wraps as \<open>fetch_add\<close> does.\<close>

definition round_robin_new :: "u64 \<Rightarrow> round_robin option" where
  "round_robin_new n = (if n > 0 then Some \<lparr>rr_n_workers = n, rr_next = 0\<rparr> else None)"

definition round_robin_place :: "round_robin placement" where
  "round_robin_place i p = (rr_next p mod rr_n_workers p, p\<lparr>rr_next := rr_next p + 1\<rparr>)"

section \<open>The scheduler\<close>

datatype scheduler_error = DuplicateSubmission mote_id

record dispatched_mote =
  dm_mote_id :: mote_id
  dm_worker :: worker_id
  dm_result :: "(mote_executor_error, mote_execution_result) result"

record 'p scheduler =
  sc_placement :: 'p
  sc_pending :: "(mote_id, mote \<times> warrant_spec) btree"

definition scheduler_new :: "'p \<Rightarrow> 'p scheduler" where
  "scheduler_new p = \<lparr>sc_placement = p, sc_pending = []\<rparr>"

definition pending_count :: "'p scheduler \<Rightarrow> nat" where
  "pending_count sc = length (sc_pending sc)"

definition register_of :: "codec \<Rightarrow> mote \<Rightarrow> warrant_spec \<Rightarrow> register_mote_req" where
  "register_of cd m warrant =
     \<lparr>rg_mote_id = m_id m, rg_nd_class = md_nd_class (m_def m),
      rg_effect_pattern = md_effect_pattern (m_def m), rg_critic_for = md_critic_for (m_def m),
      rg_is_topology_shaper = md_is_topology_shaper (m_def m), rg_parents = m_parents m,
      rg_warrant_ref = wref cd warrant\<rparr>"

definition submit ::
  "codec \<Rightarrow> mote \<Rightarrow> warrant_spec \<Rightarrow> 'p scheduler \<times> pstate \<Rightarrow>
     (scheduler_error, unit) result \<times> ('p scheduler \<times> pstate)"
where
  "submit cd m warrant = (\<lambda>(sc, st).
     if map_of (sc_pending sc) (m_id m) \<noteq> None then (Inl (DuplicateSubmission (m_id m)), (sc, st))
     else (Inr (), (sc\<lparr>sc_pending := bt_insert (m_id m) (m, warrant) (sc_pending sc)\<rparr>,
       register_mote (register_of cd m warrant) st)))"

fun tick_loop ::
  "'p placement \<Rightarrow> ('s, 'w) mote_executor \<Rightarrow> mote_id list \<Rightarrow> dispatched_mote list \<Rightarrow> 'p scheduler \<times> 's \<times> 'w \<Rightarrow>
     dispatched_mote list \<times> ('p scheduler \<times> 's \<times> 'w)"
where
  "tick_loop place executor [] out x = (out, x)"
| "tick_loop place executor (i # ready) out (sc, x) =
     (case map_of (sc_pending sc) i of
        None \<Rightarrow> tick_loop place executor ready out (sc, x)
      | Some (m, warrant) \<Rightarrow>
          let (worker, p) = place i (sc_placement sc);
              (res, x') = executor m warrant x
          in tick_loop place executor ready
               (out @ [\<lparr>dm_mote_id = i, dm_worker = worker, dm_result = res\<rparr>])
               (sc\<lparr>sc_pending := bt_remove i (sc_pending sc), sc_placement := p\<rparr>, x'))"

definition tick ::
  "'p placement \<Rightarrow> ('s, 'w) mote_executor \<Rightarrow> pstate \<Rightarrow> 'p scheduler \<times> 's \<times> 'w \<Rightarrow>
     (scheduler_error, dispatched_mote list) result \<times> ('p scheduler \<times> 's \<times> 'w)"
where
  "tick place executor st x =
     (case tick_loop place executor (ready_set st) [] x of (dispatched, x') \<Rightarrow> (Inr dispatched, x'))"

section \<open>One round\<close>

text \<open>
  What a round should do: select the pending Motes among the ready ones, ask the placement for
  each of them in turn, and run each of them in turn.
\<close>

fun place_all :: "'p placement \<Rightarrow> mote_id list \<Rightarrow> 'p \<Rightarrow> worker_id list \<times> 'p" where
  "place_all place [] p = ([], p)"
| "place_all place (i # is) p =
     (case place i p of (w, p') \<Rightarrow> case place_all place is p' of (ws, p'') \<Rightarrow> (w # ws, p''))"

fun run_all ::
  "('s, 'w) mote_executor \<Rightarrow> (mote \<times> warrant_spec) list \<Rightarrow> 's \<times> 'w \<Rightarrow>
     (mote_executor_error, mote_execution_result) result list \<times> ('s \<times> 'w)"
where
  "run_all executor [] x = ([], x)"
| "run_all executor ((m, w) # ms) x =
     (case executor m w x of (r, x') \<Rightarrow> case run_all executor ms x' of (rs, x'') \<Rightarrow> (r # rs, x''))"

definition due :: "'p scheduler \<Rightarrow> mote_id list \<Rightarrow> mote_id list" where
  "due sc ready = filter (\<lambda>i. map_of (sc_pending sc) i \<noteq> None) ready"

definition due_motes :: "'p scheduler \<Rightarrow> mote_id list \<Rightarrow> (mote \<times> warrant_spec) list" where
  "due_motes sc ready = map (\<lambda>i. the (map_of (sc_pending sc) i)) (due sc ready)"

lemma due_remove:
  assumes "i \<notin> set ready"
  shows "due (sc\<lparr>sc_pending := bt_remove i (sc_pending sc), sc_placement := p\<rparr>) ready = due sc ready"
    and "due_motes (sc\<lparr>sc_pending := bt_remove i (sc_pending sc), sc_placement := p\<rparr>) ready = due_motes sc ready"
proof -
  show "due (sc\<lparr>sc_pending := bt_remove i (sc_pending sc), sc_placement := p\<rparr>) ready = due sc ready"
    using assms by (auto simp: due_def intro!: filter_cong)
  then show "due_motes (sc\<lparr>sc_pending := bt_remove i (sc_pending sc), sc_placement := p\<rparr>) ready = due_motes sc ready"
    using assms by (auto simp: due_motes_def due_def)
qed

lemma tick_loop_exact:
  assumes "distinct ready" and "tick_loop place executor ready out (sc, x) = (ds, (sc', x'))"
  shows "\<exists>new. ds = out @ new \<and>
    map dm_mote_id new = due sc ready \<and>
    (map dm_worker new, sc_placement sc') = place_all place (due sc ready) (sc_placement sc) \<and>
    (map dm_result new, x') = run_all executor (due_motes sc ready) x \<and>
    map_of (sc_pending sc') = map_of (sc_pending sc) |` (- set ready)"
  using assms
proof (induction ready arbitrary: out sc x)
  case Nil
  then show ?case by (simp add: due_def due_motes_def)
next
  case (Cons i ready)
  then have i: "i \<notin> set ready" "distinct ready" by simp_all
  show ?case
  proof (cases "map_of (sc_pending sc) i")
    case None
    then have "map_of (sc_pending sc) |` (- set (i # ready)) = map_of (sc_pending sc) |` (- set ready)"
      by (auto simp: restrict_map_def fun_eq_iff)
    then show ?thesis
      using Cons.IH [OF i(2), of out sc x] Cons.prems(2) None by (simp add: due_def due_motes_def)
  next
    case (Some mw)
    then obtain m w where mw: "map_of (sc_pending sc) i = Some (m, w)" by (cases mw) simp
    obtain worker p res y where st: "place i (sc_placement sc) = (worker, p)" "executor m w x = (res, y)"
      by (meson surj_pair)
    let ?sc = "sc\<lparr>sc_pending := bt_remove i (sc_pending sc), sc_placement := p\<rparr>"
    let ?d = "\<lparr>dm_mote_id = i, dm_worker = worker, dm_result = res\<rparr>"
    have "tick_loop place executor ready (out @ [?d]) (?sc, y) = (ds, (sc', x'))"
      using Cons.prems(2) mw st by simp
    from Cons.IH [OF i(2) this] obtain new where new: "ds = (out @ [?d]) @ new"
      "map dm_mote_id new = due ?sc ready"
      "(map dm_worker new, sc_placement sc') = place_all place (due ?sc ready) (sc_placement ?sc)"
      "(map dm_result new, x') = run_all executor (due_motes ?sc ready) y"
      "map_of (sc_pending sc') = map_of (sc_pending ?sc) |` (- set ready)"
      by blast
    have "due sc (i # ready) = i # due sc ready" "due_motes sc (i # ready) = (m, w) # due_motes sc ready"
      using mw by (simp_all add: due_def due_motes_def)
    moreover have "(map_of (sc_pending sc))(i := None) |` (- set ready) = map_of (sc_pending sc) |` (- set (i # ready))"
      by (auto simp: restrict_map_def fun_eq_iff)
    moreover have "place_all place (due sc ready) p = (map dm_worker new, sc_placement sc')"
      "run_all executor (due_motes sc ready) y = (map dm_result new, x')"
      using new(3,4) by (simp_all add: due_remove [OF i(1)])
    ultimately show ?thesis
      using new(1,2,5) st by (intro exI [of _ "?d # new"]) (simp add: due_remove [OF i(1)])
  qed
qed

text \<open>The ready set the scheduler reads never consults a critic's verdict.\<close>

lemma ready_set_mem:
  assumes "proj_reach mat st"
  shows "i \<in> set (ready_set st) \<longleftrightarrow> state_of_id st i = MsPending \<and>
    (\<exists>d. mi_declared (moteinfo st i) = Some d \<and> (\<forall>p \<in> set (di_parents d). state_of_id st (pr_parent_id p) = MsCommitted))"
  using ready_with_mem [OF reach_motes_inv [OF assms]]
  by (simp add: ready_set_def ready_spec_def parent_ok_def promotion_state_impl_def)

lemma ready_set_sorted: "proj_reach mat st \<Longrightarrow> sorted_wrt (<) (ready_set st)"
  by (simp add: ready_set_def ready_with_sorted [OF reach_motes_inv])

lemma tick_exact:
  assumes "proj_reach mat st" and "tick place executor st (sc, x) = (r, (sc', x'))"
  obtains ds where "r = Inr ds" "tick_loop place executor (ready_set st) [] (sc, x) = (ds, (sc', x'))"
    "map dm_mote_id ds = due sc (ready_set st)" "distinct (due sc (ready_set st))"
    "(map dm_worker ds, sc_placement sc') = place_all place (due sc (ready_set st)) (sc_placement sc)"
    "(map dm_result ds, x') = run_all executor (due_motes sc (ready_set st)) x"
    "map_of (sc_pending sc') = map_of (sc_pending sc) |` (- set (due sc (ready_set st)))"
proof -
  let ?ready = "ready_set st"
  have d: "distinct ?ready"
    using ready_set_sorted [OF assms(1)] by (simp add: strict_sorted_iff)
  obtain ds where ds: "r = Inr ds" "tick_loop place executor ?ready [] (sc, x) = (ds, (sc', x'))"
    using assms(2) by (auto simp: tick_def split: prod.splits)
  have "map_of (sc_pending sc) |` (- set ?ready) = map_of (sc_pending sc) |` (- set (due sc ?ready))"
    by (auto simp: due_def restrict_map_def fun_eq_iff) (metis option.exhaust surj_pair)
  moreover have "distinct (due sc ?ready)"
    using d by (simp add: due_def)
  ultimately show ?thesis
    using that [OF ds] tick_loop_exact [OF d ds(2)] by auto
qed

text \<open>
  C30: A dispatch round never fails. It dispatches, in ascending order and each once, exactly the
  submitted Motes that the projection holds as declared, pending and with every parent committed;
  it asks the placement once per dispatch and runs each Mote with the warrant it was submitted
  with, in that order. The dispatched Motes leave the pending map whatever the executor answered,
  and nothing else changes in it. Whether a world-mutating parent was promoted by its critics
  plays no part.
\<close>

theorem tick_dispatches_ready:
  assumes "proj_reach mat st" and "tick place executor st (sc, x) = (r, (sc', x'))"
  shows "\<exists>ds. r = Inr ds \<and> sorted_wrt (<) (map dm_mote_id ds) \<and>
    (\<forall>i. i \<in> dm_mote_id ` set ds \<longleftrightarrow> map_of (sc_pending sc) i \<noteq> None \<and> state_of_id st i = MsPending \<and>
      (\<exists>d. mi_declared (moteinfo st i) = Some d \<and>
        (\<forall>p \<in> set (di_parents d). state_of_id st (pr_parent_id p) = MsCommitted))) \<and>
    (map dm_worker ds, sc_placement sc') = place_all place (map dm_mote_id ds) (sc_placement sc) \<and>
    (map dm_result ds, x') = run_all executor (map (\<lambda>d. the (map_of (sc_pending sc) (dm_mote_id d))) ds) x \<and>
    map_of (sc_pending sc') = map_of (sc_pending sc) |` (- (dm_mote_id ` set ds))"
proof -
  let ?ready = "ready_set st"
  obtain ds where ds: "r = Inr ds" "map dm_mote_id ds = due sc ?ready"
    "(map dm_worker ds, sc_placement sc') = place_all place (due sc ?ready) (sc_placement sc)"
    "(map dm_result ds, x') = run_all executor (due_motes sc ?ready) x"
    "map_of (sc_pending sc') = map_of (sc_pending sc) |` (- set (due sc ?ready))"
    by (rule tick_exact [OF assms])
  have ids: "dm_mote_id ` set ds = set (due sc ?ready)"
    using arg_cong [OF ds(2), of set] by simp
  have "map (\<lambda>d. the (map_of (sc_pending sc) (dm_mote_id d))) ds = due_motes sc ?ready"
    using arg_cong [OF ds(2), of "map (\<lambda>i. the (map_of (sc_pending sc) i))"] by (simp add: due_motes_def o_def)
  moreover have "sorted_wrt (<) (due sc ?ready)"
    using ready_set_sorted [OF assms(1)] by (simp add: due_def sorted_wrt_filter)
  moreover have "i \<in> set (due sc ?ready) \<longleftrightarrow> map_of (sc_pending sc) i \<noteq> None \<and> i \<in> set ?ready" for i
    by (auto simp: due_def)
  ultimately show ?thesis
    using ds unfolding ready_set_mem [OF assms(1)] by (intro exI [of _ ds]) (simp add: ids)
qed

section \<open>A whole run\<close>

text \<open>
  The caller submits Motes, runs rounds and folds journal entries into the projection, in any
  order. A run records what was accepted and what was dispatched.
\<close>

datatype sched_op = Submit mote warrant_spec | Tick | Observe journal_entry

datatype sched_event = Accepted mote_id | Dispatched mote_id

fun sched_step ::
  "codec \<Rightarrow> materializer option \<Rightarrow> 'p placement \<Rightarrow> ('s, 'w) mote_executor \<Rightarrow> sched_op \<Rightarrow>
     'p scheduler \<times> pstate \<times> 's \<times> 'w \<Rightarrow> sched_event list \<times> ('p scheduler \<times> pstate \<times> 's \<times> 'w)"
where
  "sched_step cd mat place executor (Submit m w) (sc, st, x) =
     (case submit cd m w (sc, st) of
        (Inl _, (sc', st')) \<Rightarrow> ([], (sc', st', x))
      | (Inr _, (sc', st')) \<Rightarrow> ([Accepted (m_id m)], (sc', st', x)))"
| "sched_step cd mat place executor Tick (sc, st, x) =
     (case tick place executor st (sc, x) of
        (Inl _, (sc', x')) \<Rightarrow> ([], (sc', st, x'))
      | (Inr ds, (sc', x')) \<Rightarrow> (map (\<lambda>d. Dispatched (dm_mote_id d)) ds, (sc', st, x')))"
| "sched_step cd mat place executor (Observe e) (sc, st, x) = ([], (sc, snd (fold_entry mat e st), x))"

fun sched_run ::
  "codec \<Rightarrow> materializer option \<Rightarrow> 'p placement \<Rightarrow> ('s, 'w) mote_executor \<Rightarrow> sched_op list \<Rightarrow>
     'p scheduler \<times> pstate \<times> 's \<times> 'w \<Rightarrow> sched_event list \<times> ('p scheduler \<times> pstate \<times> 's \<times> 'w)"
where
  "sched_run cd mat place executor [] s = ([], s)"
| "sched_run cd mat place executor (op # ops) s =
     (case sched_step cd mat place executor op s of
        (es, s') \<Rightarrow> case sched_run cd mat place executor ops s' of (es', s'') \<Rightarrow> (es @ es', s''))"

definition held :: "'p scheduler \<Rightarrow> mote_id \<Rightarrow> nat" where
  "held sc i = (if map_of (sc_pending sc) i = None then 0 else 1)"

definition sched_inv :: "materializer option \<Rightarrow> 'p scheduler \<Rightarrow> pstate \<Rightarrow> bool" where
  "sched_inv mat sc st \<longleftrightarrow> proj_reach mat st \<and> bt_inv (sc_pending sc) \<and>
     (\<forall>i m w. map_of (sc_pending sc) i = Some (m, w) \<longrightarrow> m_id m = i)"

lemma tick_loop_inv:
  "tick_loop place executor ready out (sc, x) = (ds, (sc', x')) \<Longrightarrow> bt_inv (sc_pending sc) \<Longrightarrow> bt_inv (sc_pending sc')"
proof (induction ready arbitrary: out sc x)
  case (Cons i ready)
  then show ?case
    by (cases "map_of (sc_pending sc) i")
      (auto simp: Let_def split: prod.splits intro: Cons.IH)
qed simp

lemma count_dispatched:
  "count_list (map Dispatched is) (Accepted i) = 0"
  "count_list (map Dispatched is) (Dispatched i) = count_list is i"
  by (induction "is") auto

lemma reach_fold: "proj_reach mat st \<Longrightarrow> proj_reach mat (snd (fold_entry mat e st))"
  by (metis proj_reach.foldE surjective_pairing)

lemma count_distinct: "distinct xs \<Longrightarrow> count_list xs x = (if x \<in> set xs then 1 else 0)"
  by (induction xs) auto

lemma sched_step_conserves:
  assumes "sched_step cd mat place executor op (sc, st, x) = (es, (sc', st', x'))" "sched_inv mat sc st"
  shows "sched_inv mat sc' st' \<and>
    held sc i + count_list es (Accepted i) = held sc' i + count_list es (Dispatched i)"
proof (cases op)
  case (Submit m w)
  show ?thesis
  proof (cases "map_of (sc_pending sc) (m_id m)")
    case None
    then have sub: "es = [Accepted (m_id m)]" "st' = register_mote (register_of cd m w) st"
        "sc' = sc\<lparr>sc_pending := bt_insert (m_id m) (m, w) (sc_pending sc)\<rparr>"
      using assms(1) Submit by (simp_all add: submit_def)
    have "held sc i + count_list es (Accepted i) = held sc' i + count_list es (Dispatched i)"
      using None by (simp add: sub held_def)
    moreover have "sched_inv mat sc' st'"
      using assms(2) proj_reach.register [of mat st] by (simp add: sub sched_inv_def)
    ultimately show ?thesis by simp
  next
    case (Some mw)
    then show ?thesis
      using assms Submit by (simp add: submit_def)
  qed
next
  case Tick
  then obtain r where t: "tick place executor st (sc, x) = (r, (sc', x'))" and st: "st' = st"
    and es: "es = (case r of Inl _ \<Rightarrow> [] | Inr ds \<Rightarrow> map (\<lambda>d. Dispatched (dm_mote_id d)) ds)"
    using assms(1) by (cases "tick place executor st (sc, x)") (auto split: sum.splits)
  have "proj_reach mat st" using assms(2) by (simp add: sched_inv_def)
  from this t obtain ds where ds: "r = Inr ds" "tick_loop place executor (ready_set st) [] (sc, x) = (ds, (sc', x'))"
    "map dm_mote_id ds = due sc (ready_set st)" "distinct (due sc (ready_set st))"
    "map_of (sc_pending sc') = map_of (sc_pending sc) |` (- set (due sc (ready_set st)))"
    by (rule tick_exact)
  have "map (\<lambda>d. Dispatched (dm_mote_id d)) ds = map Dispatched (due sc (ready_set st))"
    by (simp flip: ds(3))
  then have ev: "es = map Dispatched (due sc (ready_set st))"
    using es ds(1) by simp
  have "count_list es (Accepted i) = 0" "count_list es (Dispatched i) = count_list (due sc (ready_set st)) i"
    by (simp_all add: ev count_dispatched)
  moreover have "count_list (due sc (ready_set st)) i = (if i \<in> set (due sc (ready_set st)) then 1 else 0)"
    by (rule count_distinct [OF ds(4)])
  moreover have "i \<in> set (due sc (ready_set st)) \<Longrightarrow> map_of (sc_pending sc) i \<noteq> None"
    by (simp add: due_def)
  ultimately have "held sc i + count_list es (Accepted i) = held sc' i + count_list es (Dispatched i)"
    by (simp add: held_def ds(5))
  moreover have "sched_inv mat sc' st'"
    using assms(2) tick_loop_inv [OF ds(2)] by (simp add: sched_inv_def st ds(5) restrict_map_def)
  ultimately show ?thesis by simp
next
  case (Observe e)
  then show ?thesis
    using assms reach_fold [of mat st e] by (auto simp: sched_inv_def held_def simp del: fold_entry_snd)
qed

text \<open>
  C29: Over a whole run, however submissions, rounds and journal entries are interleaved, every
  accepted submission of a Mote is dispatched at most once and none is lost: the accepted
  submissions of a Mote are its dispatches plus the one still pending, if any. A second submission
  of a pending Mote is refused without any change, and the pending map keeps its order and holds
  each Mote under its own identity.
\<close>

theorem scheduler_conserves:
  assumes "proj_reach mat st"
    and "sched_run cd mat place executor ops (scheduler_new p, st, x) = (es, (sc', st', x'))"
  shows "count_list es (Accepted i) = count_list es (Dispatched i) + held sc' i \<and>
    pending_count sc' = card {i. held sc' i = 1} \<and>
    (held sc' (m_id m) = 1 \<longrightarrow> submit cd m w (sc', st') = (Inl (DuplicateSubmission (m_id m)), (sc', st'))) \<and>
    (\<forall>i m w. map_of (sc_pending sc') i = Some (m, w) \<longrightarrow> m_id m = i) \<and> proj_reach mat st'"
proof -
  have run: "sched_inv mat sc' st' \<and>
      held sc i + count_list es (Accepted i) = held sc' i + count_list es (Dispatched i)"
    if "sched_run cd mat place executor ops (sc, st, x) = (es, (sc', st', x'))" "sched_inv mat sc st"
    for ops :: "sched_op list" and sc :: "'a scheduler" and st x es i
    using that
  proof (induction ops arbitrary: sc st x es)
    case (Cons op ops)
    obtain es1 sc1 st1 x1 where s1: "sched_step cd mat place executor op (sc, st, x) = (es1, (sc1, st1, x1))"
      by (metis prod_cases4)
    then obtain es2 where s2: "sched_run cd mat place executor ops (sc1, st1, x1) = (es2, (sc', st', x'))"
      and es: "es = es1 @ es2"
      using Cons.prems(1) by (auto split: prod.splits)
    show ?case
      using sched_step_conserves [OF s1 Cons.prems(2), of i] Cons.IH [OF s2] by (simp add: es)
  qed simp
  have "sched_inv mat (scheduler_new p) st"
    using assms(1) by (simp add: sched_inv_def scheduler_new_def)
  from run [OF assms(2) this] have fin: "sched_inv mat sc' st'"
    "count_list es (Accepted i) = held sc' i + count_list es (Dispatched i)" for i
    by (simp_all add: held_def scheduler_new_def)
  have "length (sc_pending sc') = card (dom (map_of (sc_pending sc')))"
    using fin(1) bt_inv_distinct [of "sc_pending sc'"]
    by (simp add: sched_inv_def dom_map_of_conv_image_fst) (metis distinct_card length_map set_map)
  moreover have "dom (map_of (sc_pending sc')) = {i. held sc' i = 1}"
    by (auto simp: held_def)
  ultimately show ?thesis
    using fin by (auto simp: sched_inv_def pending_count_def submit_def held_def)
qed

section \<open>Witnesses\<close>

definition sample_codec :: codec where
  "sample_codec = \<lparr>cd_blake3 = (\<lambda>_. 5), cd_enc_def = (\<lambda>_. []), cd_enc_warrant = (\<lambda>_. [])\<rparr>"

definition failing_executor :: "(unit, unit) mote_executor" where
  "failing_executor m w x = (Inl BodyExited, x)"

definition sample_queue :: "unit scheduler" where
  "sample_queue = \<lparr>sc_placement = (), sc_pending =
     [(3, (sample_producer\<lparr>m_id := 3\<rparr>, warrant_default)), (4, (sample_producer\<lparr>m_id := 4\<rparr>, warrant_default))]\<rparr>"

text \<open>
  In the state of the gate's witness, Mote 3 has a world-mutating parent whose critic has not
  committed: the gated ready set withholds it and the scheduler's round dispatches it.
\<close>

theorem tick_dispatches_ready_witness:
  "\<exists>ds x'. tick local_place failing_executor gate_state (sample_queue, ((), ())) = (Inr ds, x') \<and>
     3 \<in> dm_mote_id ` set ds \<and> 4 \<notin> dm_mote_id ` set ds"
proof -
  obtain r sc' x' where t: "tick local_place failing_executor gate_state (sample_queue, ((), ())) = (r, (sc', x'))"
    by (metis prod_cases3)
  have st: "state_of_id gate_state 1 = MsCommitted" "state_of_id gate_state 3 = MsPending"
    by (simp_all add: gate_state_def gate_ops_def reg_of_def ent_committed_def run_eval state_of_id_def)
  have "map di_parents (case mi_declared (moteinfo gate_state 3) of Some d \<Rightarrow> [d] | None \<Rightarrow> []) =
        [[\<lparr>pr_parent_id = 1, pr_edge = data_edge\<rparr>]]"
      "map di_parents (case mi_declared (moteinfo gate_state 4) of Some d \<Rightarrow> [d] | None \<Rightarrow> []) =
        [[\<lparr>pr_parent_id = 3, pr_edge = data_edge\<rparr>]]"
    by (simp_all add: gate_state_def gate_ops_def reg_of_def ent_committed_def run_eval)
  then obtain d3 d4 where d: "mi_declared (moteinfo gate_state 3) = Some d3" "di_parents d3 = [\<lparr>pr_parent_id = 1, pr_edge = data_edge\<rparr>]"
      "mi_declared (moteinfo gate_state 4) = Some d4" "di_parents d4 = [\<lparr>pr_parent_id = 3, pr_edge = data_edge\<rparr>]"
    by (auto split: option.splits)
  have "map_of (sc_pending sample_queue) 3 \<noteq> None"
    by (simp add: sample_queue_def)
  then have "\<exists>ds. r = Inr ds \<and> 3 \<in> dm_mote_id ` set ds \<and> 4 \<notin> dm_mote_id ` set ds"
    using tick_dispatches_ready [OF gate_reach t] st d by auto
  then show ?thesis
    using t by blast
qed

theorem scheduler_conserves_witness:
  "\<exists>es s. sched_run sample_codec None local_place failing_executor
      [Submit sample_producer warrant_default, Submit sample_producer warrant_default, Tick,
       Submit sample_producer warrant_default] (scheduler_new (), pstate_default, ((), ())) = (es, s) \<and>
     es = [Accepted 1, Dispatched 1, Accepted 1] \<and>
     count_list es (Accepted 1) = count_list es (Dispatched 1) + held (fst s) 1"
proof -
  let ?run = "sched_run sample_codec None local_place failing_executor
      [Submit sample_producer warrant_default, Submit sample_producer warrant_default, Tick,
       Submit sample_producer warrant_default] (scheduler_new (), pstate_default, ((), ()))"
  obtain es sc st x where r: "?run = (es, (sc, st, x))"
    by (metis prod_cases4)
  moreover have "fst ?run = [Accepted 1, Dispatched 1, Accepted 1]"
    by (simp add: submit_def scheduler_new_def sample_producer_def sample_def_def register_of_def tick_def
        run_eval ready_set_def ready_set_impl_with_def state_of_id_def bt_remove_def local_place_def failing_executor_def)
  ultimately show ?thesis
    using scheduler_conserves [OF proj_reach.new r, of 1] by simp
qed

end
