(* ===== verification/Kx_Native_Critic.thy ===== *)
theory Kx_Native_Critic
  imports Kx_Executor_Claims Kx_Critic Kx_Scheduler
begin

text \<open>
  Running a deterministic critic in process (\<open>crates/kx-executor/src/native_critic.rs\<close>): the declared
  check is evaluated on the producer's committed bytes and the verdict is committed as the critic's
  own result. The property follows a verdict from the check through the content store, the journal
  and the replayed projection to the promotion gate.
\<close>

section \<open>The critic's run\<close>

definition put_st :: "'s store_ops \<Rightarrow> bytes \<Rightarrow> (store_error, content_ref, ('j, 's, 'w) sys) step" where
  "put_st so bs s = (case so_put so bs (sy_store s) of (r, st) \<Rightarrow> (r, s\<lparr>sy_store := st\<rparr>))"

definition read_committed_ref ::
  "'j journal_ops \<Rightarrow> mote_id \<Rightarrow> ('j, 's, 'w) sys \<Rightarrow> (lifecycle_error, (u64 \<times> content_ref) option) result"
where
  "read_committed_ref jo i s =
     (case jo_read_committed jo (sy_journal s) i of
        Inl _ \<Rightarrow> Inl JournalAppend
      | Inr (Some (Committed c)) \<Rightarrow> Inr (Some (c_seq c, c_result_ref c))
      | Inr _ \<Rightarrow> Inr None)"

definition native_committed :: "codec \<Rightarrow> mote \<Rightarrow> warrant_spec \<Rightarrow> content_ref \<Rightarrow> committed_entry" where
  "native_committed cd m warrant result_ref =
     \<lparr>c_mote_id = m_id m, c_idempotency_key = m_id m, c_seq = 0, c_nondeterminism = Pure,
      c_result_ref = result_ref, c_parents = [], c_warrant_ref = wref cd warrant,
      c_mote_def_hash = def_hash cd m\<rparr>"

definition commit_verdict ::
  "codec \<Rightarrow> (critic_verdict \<Rightarrow> bytes) \<Rightarrow> 'j journal_ops \<Rightarrow> 's store_ops \<Rightarrow> mote \<Rightarrow> warrant_spec \<Rightarrow> critic_verdict \<Rightarrow>
     (lifecycle_error, lifecycle_commit, ('j, 's, 'w) sys) step"
where
  "commit_verdict cd enc jo so m warrant verdict =
     then_st (err_st (\<lambda>_. LifecycleInternal) (put_st so (verdict_encode enc verdict))) (\<lambda>result_ref.
     then_st (append_lc jo (proposed_of (m_id m) Pure (wref cd warrant))) (\<lambda>_.
     then_st (append_lc jo (Committed (native_committed cd m warrant result_ref))) (\<lambda>committed s.
       (Inr \<lparr>lc_committed_seq = entry_seq committed, lc_result_ref = result_ref, lc_mote_id = m_id m\<rparr>, s))))"

text \<open>\<open>json\<close> and \<open>px\<close> are the parser and the patterns of the checks, \<open>enc\<close> the verdict's bincode body.\<close>

definition evaluate_and_commit ::
  "codec \<Rightarrow> (bytes \<Rightarrow> nat option) \<Rightarrow> pii_patterns \<Rightarrow> (critic_verdict \<Rightarrow> bytes) \<Rightarrow> 'j journal_ops \<Rightarrow> 's store_ops \<Rightarrow>
     mote \<Rightarrow> warrant_spec \<Rightarrow> check_spec \<Rightarrow> mote_id \<Rightarrow> (lifecycle_error, lifecycle_commit, ('j, 's, 'w) sys) step"
where
  "evaluate_and_commit cd json px enc jo so m warrant spec producer =
     then_st (lift_st (read_committed_ref jo producer)) (\<lambda>p. case p of
        None \<Rightarrow> (\<lambda>s. (Inl LifecycleInternal, s))
      | Some (_, producer_ref) \<Rightarrow>
          then_st (lift_st (\<lambda>s. ok_or (so_get so (sy_store s) producer_ref) LifecycleInternal)) (\<lambda>producer_bytes.
            commit_verdict cd enc jo so m warrant (evaluate json px spec producer_bytes)))"

definition run_native_critic_mote ::
  "codec \<Rightarrow> (bytes \<Rightarrow> nat option) \<Rightarrow> pii_patterns \<Rightarrow> (critic_verdict \<Rightarrow> bytes) \<Rightarrow> 'j journal_ops \<Rightarrow> 's store_ops \<Rightarrow>
     mote \<Rightarrow> warrant_spec \<Rightarrow> (lifecycle_error, lifecycle_commit, ('j, 's, 'w) sys) step"
where
  "run_native_critic_mote cd json px enc jo so m warrant =
     (case md_critic_check (m_def m) of
        None \<Rightarrow> (\<lambda>s. (Inl LifecycleInternal, s))
      | Some spec \<Rightarrow>
          if md_nd_class (m_def m) \<noteq> Pure \<or> md_is_topology_shaper (m_def m) then (\<lambda>s. (Inl LifecycleInternal, s))
          else (case md_critic_for (m_def m) of
              None \<Rightarrow> (\<lambda>s. (Inl LifecycleInternal, s))
            | Some producer \<Rightarrow>
                then_st (lift_st (read_committed_ref jo (m_id m))) (\<lambda>found. case found of
                  Some (seq, r) \<Rightarrow> (\<lambda>s. (Inr \<lparr>lc_committed_seq = seq, lc_result_ref = r, lc_mote_id = m_id m\<rparr>, s))
                | None \<Rightarrow> evaluate_and_commit cd json px enc jo so m warrant spec producer)))"

section \<open>From the check to the gate\<close>

context journal_port
begin

lemma commit_verdict_recorded:
  assumes run: "commit_verdict cd enc jo so m warrant verdict s = (Inr lc, s')"
    and none: "jo_read_committed jo (sy_journal s) (m_id m) = Inr None"
    and k: "\<forall>e \<in> set (jlog (sy_journal s)). keyed e"
  shows "so_put so (verdict_encode enc verdict) (sy_store s) = (Inr (lc_result_ref lc), sy_store s') \<and>
    (\<exists>n. Committed ((native_committed cd m warrant (lc_result_ref lc))\<lparr>c_seq := n\<rparr>) \<in> set (jlog (sy_journal s'))) \<and>
    grows {m_id m} {KIND_PROPOSED, KIND_COMMITTED} s s'"
proof -
  obtain r s1 e s2 y where st: "put_st so (verdict_encode enc verdict) s = (Inr r, s1)"
      "append_lc jo (proposed_of (m_id m) Pure (wref cd warrant)) s1 = (Inr e, s2)"
      "append_lc jo (Committed (native_committed cd m warrant r)) s2 = (Inr y, s')"
      "lc = \<lparr>lc_committed_seq = entry_seq y, lc_result_ref = r, lc_mote_id = m_id m\<rparr>"
    using run by (auto simp: commit_verdict_def step_simps)
  have s1: "so_put so (verdict_encode enc verdict) (sy_store s) = (Inr r, sy_store s1)" "sy_journal s1 = sy_journal s"
    using st(1) by (auto simp: put_st_def split: prod.splits)
  have "\<exists>n. y = set_seq n (Committed (native_committed cd m warrant r)) \<and> y \<in> set (jlog (sy_journal s'))"
    using k none by (intro commit_pair_recorded [OF st(2,3)]) (simp_all add: s1 native_committed_def)
  moreover have "sy_store s' = sy_store s1"
    using runsD [OF append_lc_outside st(2)] runsD [OF append_lc_outside st(3)] by (simp add: outside_same_def)
  moreover have "grows {m_id m} {KIND_PROPOSED, KIND_COMMITTED} s1 s2" "grows {m_id m} {KIND_PROPOSED, KIND_COMMITTED} s2 s'"
    using runsD [OF append_proposed_grows st(2)] runsD [OF append_committed_grows st(3)]
    by (simp_all add: native_committed_def)
  then have "grows {m_id m} {KIND_PROPOSED, KIND_COMMITTED} s s'"
    using grows_same_log [OF s1(2)] grows_trans [THEN transpD] by blast
  ultimately show ?thesis
    using st(4) s1 by auto
qed

end

lemma log_commit_in: "log_commit i es = Some c \<Longrightarrow> Committed c \<in> set es \<and> c_mote_id c = i"
  by (induction i es rule: log_commit.induct) (auto split: if_splits)

lemma verdict_passes:
  assumes run: "run_ops mat ops pstate_default = Inr st" and log: "log_commit i (entries_of ops) = Some c"
    and rep: "\<not> log_repudiated i (entries_of ops)" and look: "lookup (c_result_ref c) = Some v"
    and only: "\<And>j. critic_of producer (moteinfo st j) \<longleftrightarrow> j = i"
  shows "promotion_state_with st producer lookup = (if verdict_is_valid v then Promoted else Unpromoted)"
proof -
  have inv: "bt_inv (st_motes st)"
    by (rule reach_motes_inv [OF run_ops_reach [OF proj_reach.new run]])
  have info: "moteinfo st j = info" if "(j, info) \<in> set (st_motes st)" for j info
    using map_of_is_SomeI [OF bt_inv_distinct [OF inv] that] by (simp add: moteinfo_def)
  have "mi_committed (moteinfo st i) = Some ((committed_info_of c)\<lparr>ci_repudiated := False\<rparr>)"
    using run_ops_log_info [OF run, of i] log rep by (simp add: log_info_ok_def facts_def)
  then have passed: "passed lookup (moteinfo st i) \<longleftrightarrow> verdict_is_valid v"
    using look by (simp add: passed_def committed_info_of_def)
  have crit: "critic_of producer (moteinfo st i)"
    by (simp add: only)
  have "map_of (st_motes st) i \<noteq> None"
  proof
    assume "map_of (st_motes st) i = None"
    then have "moteinfo st i = mote_info_default" by (simp add: moteinfo_def)
    with crit show False by (simp add: critic_of_def mote_info_default_def)
  qed
  then obtain m where "map_of (st_motes st) i = Some m" by blast
  then have "(i, moteinfo st i) \<in> set (st_motes st)"
    by (simp add: moteinfo_def map_of_SomeD)
  then have mem: "moteinfo st i \<in> set (map snd (st_motes st))"
    by (metis image_eqI list.set_map snd_conv)
  have "m = moteinfo st i" if m: "m \<in> set (map snd (st_motes st))" "critic_of producer m" for m
  proof -
    from m(1) obtain j where "(j, m) \<in> set (st_motes st)" by auto
    then have "moteinfo st j = m" by (rule info)
    then show ?thesis using only [of j] m(2) by simp
  qed
  then have "\<exists>m \<in> set (map snd (st_motes st)). critic_of producer m"
      "(\<forall>m \<in> set (map snd (st_motes st)). critic_of producer m \<longrightarrow> passed lookup m) \<longleftrightarrow> passed lookup (moteinfo st i)"
    using mem crit by blast+
  then show ?thesis
    by (simp add: promotion_state_with_eq passed)
qed

lemma put_unique:
  assumes "store_wf blake3 st" and "so_put (mem_store_ops blake3) bs st = (Inr r, st')"
    and "\<And>x. blake3 x = blake3 bs \<Longrightarrow> x = bs"
  shows "store_get st' r = Some bs"
proof -
  have r: "r = blake3 bs" and st': "st' = (case st r of None \<Rightarrow> st(r \<mapsto> bs) | Some _ \<Rightarrow> st)"
    using assms(2) by (auto simp: mem_store_ops_def store_put_def content_ref_of_def Let_def)
  show ?thesis
  proof (cases "st r")
    case (Some x)
    then have "x = bs"
      using assms(1) r by (intro assms(3)) (simp add: store_wf_def)
    then show ?thesis using Some st' by (simp add: store_get_def)
  qed (simp add: st' store_get_def)
qed

text \<open>
  C33: A check decides the gate. Let a native critic that has not committed be run to success against
  the committed output of its producer. Whatever projection is then in use, with the journal
  folded, registrations anywhere in between, the critic the only one declared for the producer and
  its commit not repudiated: the gate, reading the content store, promotes the producer exactly
  when the declared check accepts the producer's committed bytes, and withholds it otherwise.
  The verdict's bytes must collide with no others under the hash, and bincode must read back its
  own encoding.
\<close>

theorem check_decides_gate:
  assumes "executor_inv blake3 s" and "store_wf blake3 (sy_store s)"
    and "md_critic_check (m_def m) = Some spec" and "md_critic_for (m_def m) = Some producer"
    and "\<And>c. Committed c \<in> set (flog s) \<Longrightarrow> c_mote_id c \<noteq> m_id m"
    and "Committed p \<in> set (flog s)" and "c_mote_id p = producer"
    and "store_get (sy_store s) (c_result_ref p) = Some output"
    and "run_native_critic_mote cd json px enc (fjournal_ops blake3) (mem_store_ops blake3) m warrant s = (Inr lc, s')"
    and "dec (enc (evaluate json px spec output)) =
      Some (evaluate json px spec output, length (enc (evaluate json px spec output)))"
    and "\<And>bs. blake3 bs = blake3 (verdict_encode enc (evaluate json px spec output)) \<Longrightarrow>
      bs = verdict_encode enc (evaluate json px spec output)"
    and "run_ops mat ops pstate_default = Inr st" and "entries_of ops = flog s'"
    and "\<not> log_repudiated (m_id m) (flog s')"
    and "\<And>i. critic_of producer (moteinfo st i) \<longleftrightarrow> i = m_id m"
  shows "promotion_state_with st producer (content_store_verdicts dec (store_get (sy_store s'))) =
    (if evaluate json px spec output = VValid then Promoted else Unpromoted)"
proof -
  let ?v = "evaluate json px spec output" and ?jo = "fjournal_ops blake3"
  let ?bs = "verdict_encode enc ?v"
  have pure: "md_nd_class (m_def m) = Pure" "\<not> md_is_topology_shaper (m_def m)"
    using assms(9) by (auto simp: run_native_critic_mote_def assms(3) split: if_splits)
  have run: "then_st (lift_st (read_committed_ref ?jo (m_id m))) (\<lambda>found. case found of
      Some (seq, r) \<Rightarrow> (\<lambda>s. (Inr \<lparr>lc_committed_seq = seq, lc_result_ref = r, lc_mote_id = m_id m\<rparr>, s))
    | None \<Rightarrow> evaluate_and_commit cd json px enc ?jo (mem_store_ops blake3) m warrant spec producer) s = (Inr lc, s')"
    using assms(9) by (simp add: run_native_critic_mote_def assms(3,4) pure)
  have reads: "jo_read_committed ?jo (sy_journal s) i = Inr (find (is_committed_for i) (flog s))"
    if "\<not> fj_read_fails (sy_journal s)" for i
    using that by (simp add: fjournal_ops_def read_committed_def flog_def)
  have ok: "\<not> fj_read_fails (sy_journal s)"
    using run by (auto simp: then_st_def lift_st_def read_committed_ref_def fjournal_ops_def split: if_splits)
  have none: "jo_read_committed ?jo (sy_journal s) (m_id m) = Inr None"
    using reads [OF ok, of "m_id m"] assms(5) by (auto simp: find_None_iff elim: is_committed_for.elims)
  have "find (is_committed_for producer) (flog s) \<noteq> None"
    using assms(6,7) by (auto simp: find_None_iff)
  then obtain d where d: "jo_read_committed ?jo (sy_journal s) producer = Inr (Some d)"
    using reads [OF ok, of producer] by auto
  then obtain q where q: "d = Committed q" "Committed q \<in> set (flog s)" "c_mote_id q = producer"
    using fj.read_finds [of blake3 "sy_journal s" producer d] by (auto simp: flog_def)
  then have "q = p"
    using fj.one_committed [of blake3 "sy_journal s" q p] assms(1,6,7) by (simp add: executor_inv_def flog_def)
  then have cv: "commit_verdict cd enc ?jo (mem_store_ops blake3) m warrant ?v s = (Inr lc, s')"
    using run none d q assms(8)
    by (simp add: evaluate_and_commit_def then_st_def lift_st_def read_committed_ref_def mem_store_ops_def)
  have inv: "journal_inv blake3 (fj_journal (sy_journal s))" "\<forall>e \<in> set (j_entries (fj_journal (sy_journal s))). keyed e"
    using assms(1) by (simp_all add: executor_inv_def flog_def)
  obtain n where rec: "so_put (mem_store_ops blake3) ?bs (sy_store s) = (Inr (lc_result_ref lc), sy_store s')"
      "Committed ((native_committed cd m warrant (lc_result_ref lc))\<lparr>c_seq := n\<rparr>) \<in> set (flog s')"
      and g: "fj.grows blake3 {m_id m} {KIND_PROPOSED, KIND_COMMITTED} s s'"
    using fj.commit_verdict_recorded [OF cv none inv(2)] by (auto simp: flog_def)
  have inv': "executor_inv blake3 s'"
    using grows_executor_inv [OF g assms(1)] by simp
  let ?c = "(native_committed cd m warrant (lc_result_ref lc))\<lparr>c_seq := n\<rparr>"
  have "log_committed (m_id m) (flog s')"
    using rec(2) by (auto simp: log_committed_def list_ex_iff native_committed_def intro!: bexI)
  then obtain c where c: "log_commit (m_id m) (flog s') = Some c"
    using log_commit_None [of "m_id m" "flog s'"] by auto
  then have "c = ?c"
    using fj.one_committed [of blake3 "sy_journal s'" c ?c] log_commit_in [OF c] rec(2) inv'
    by (simp add: executor_inv_def flog_def native_committed_def)
  have "store_get (sy_store s') (lc_result_ref lc) = Some ?bs"
    by (rule put_unique [OF assms(2) rec(1)]) (rule assms(11))
  then have "content_store_verdicts dec (store_get (sy_store s')) (c_result_ref c) = Some ?v"
    using assms(10) by (simp add: content_store_verdicts_def verdict_encode_def verdict_decode_def \<open>c = ?c\<close> native_committed_def)
  then have "promotion_state_with st producer (content_store_verdicts dec (store_get (sy_store s'))) =
      (if verdict_is_valid ?v then Promoted else Unpromoted)"
    by (intro verdict_passes [OF assms(12)]) (simp_all add: assms(13,14,15) c)
  then show ?thesis
    by (cases ?v) simp_all
qed

section \<open>Witness\<close>

definition gate_hash :: hash_fn where
  "gate_hash bs = (if bs = [1, 0, 0] then 5 else 9)"

definition gate_codec :: codec where
  "gate_codec = \<lparr>cd_blake3 = gate_hash, cd_enc_def = (\<lambda>_. []), cd_enc_warrant = (\<lambda>_. [])\<rparr>"

definition lines_distinct :: check_spec where
  "lines_distinct = DedupCheck \<lparr>ds_framing = LinesLf, ds_key_range = None\<rparr>"

definition lines_critic :: mote where
  "lines_critic = sample_critic\<lparr>m_def := (m_def sample_critic)\<lparr>md_critic_check := Some lines_distinct\<rparr>\<rparr>"

definition no_pii :: pii_patterns where
  "no_pii = \<lparr>px_email = (\<lambda>_. None), px_ipv4 = (\<lambda>_. None), px_us_ssn = (\<lambda>_. None), px_cc_candidates = (\<lambda>_. [])\<rparr>"

definition verdict_body :: "bytes \<Rightarrow> (critic_verdict \<times> nat) option" where
  "verdict_body bs = (if bs = [0] then Some (VValid, 1) else None)"

text \<open>The producer has committed the lines A and B.\<close>

definition produced :: "(content_store, unit) fsys" where
  "produced = \<lparr>sy_journal = \<lparr>fj_journal = \<lparr>j_entries = [ent_committed 1 WorldMutating [] 1], j_next_seq = 1\<rparr>,
       fj_append_fails = [], fj_read_fails = False\<rparr>,
     sy_store = [9 \<mapsto> [65, 10, 66]], sy_world = (), sy_rm = dev_defaults\<rparr>"

definition judged :: "(lifecycle_error, lifecycle_commit) result \<times> (content_store, unit) fsys" where
  "judged = run_native_critic_mote gate_codec (\<lambda>_. None) no_pii (\<lambda>_. [0]) (fjournal_ops gate_hash)
     (mem_store_ops gate_hash) lines_critic warrant_default produced"

definition judged_projection :: pstate where
  "judged_projection =
     (case run_ops None (Register (register_of gate_codec lines_critic warrant_default) # map FoldE (flog (snd judged)))
        pstate_default of Inr st \<Rightarrow> st | Inl _ \<Rightarrow> pstate_default)"

lemma lines_critic_simps [simp]:
  "m_id lines_critic = 2" "md_nd_class (m_def lines_critic) = Pure" "md_critic_for (m_def lines_critic) = Some 1"
  "\<not> md_is_topology_shaper (m_def lines_critic)" "md_critic_check (m_def lines_critic) = Some lines_distinct"
  by (simp_all add: lines_critic_def sample_critic_def sample_def_def)

lemma lines_valid: "evaluate (\<lambda>_. None) no_pii lines_distinct [65, 10, 66] = VValid"
  by (simp add: evaluate_def lines_distinct_def dedup_eval_def frame_def key_of_def)

lemma valid_encoding: "verdict_encode (\<lambda>_. [0]) VValid = [1, 0, 0]"
  by (simp add: verdict_encode_def CRITIC_SCHEMA_VERSION_def numeral_2_eq_2)

definition judged_log :: "journal_entry list" where
  "judged_log = [ent_committed 1 WorldMutating [] 1, set_seq 2 (proposed_of 2 Pure (wref gate_codec warrant_default)),
     set_seq 3 (Committed (native_committed gate_codec lines_critic warrant_default 5))]"

lemma judged_eval:
  "judged = (Inr \<lparr>lc_committed_seq = 3, lc_result_ref = 5, lc_mote_id = 2\<rparr>,
     produced\<lparr>sy_journal := \<lparr>fj_journal = \<lparr>j_entries = judged_log, j_next_seq = 3\<rparr>, fj_append_fails = [], fj_read_fails = False\<rparr>,
       sy_store := [9 \<mapsto> [65, 10, 66], 5 \<mapsto> [1, 0, 0]]\<rparr>)"
proof -
  have "judged = commit_verdict gate_codec (\<lambda>_. [0]) (fjournal_ops gate_hash) (mem_store_ops gate_hash) lines_critic
      warrant_default VValid produced"
    by (simp add: judged_def run_native_critic_mote_def evaluate_and_commit_def then_st_def lift_st_def
        read_committed_ref_def fjournal_ops_def read_committed_def produced_def ent_committed_def mem_store_ops_def
        store_get_def lines_valid)
  also have "\<dots> = (Inr \<lparr>lc_committed_seq = 3, lc_result_ref = 5, lc_mote_id = 2\<rparr>,
     produced\<lparr>sy_journal := \<lparr>fj_journal = \<lparr>j_entries = judged_log, j_next_seq = 3\<rparr>, fj_append_fails = [], fj_read_fails = False\<rparr>,
       sy_store := [9 \<mapsto> [65, 10, 66], 5 \<mapsto> [1, 0, 0]]\<rparr>)"
    by (simp add: commit_verdict_def then_st_def err_st_def put_st_def append_lc_def append_st_def fjournal_ops_def
        valid_encoding produced_def ent_committed_def mem_store_ops_def store_put_def content_ref_of_def gate_hash_def
        append_entry_def existing_def dedupes_def same_fact_def Let_def proposed_of_def native_committed_def judged_log_def)
  finally show ?thesis .
qed

lemma judged_runs:
  "run_ops None (Register (register_of gate_codec lines_critic warrant_default) # map FoldE judged_log) pstate_default =
     Inr judged_projection"
  by (simp add: judged_projection_def judged_eval flog_def judged_log_def ent_committed_def proposed_of_def
      native_committed_def register_of_def run_eval)

lemma judged_critic: "critic_of 1 (moteinfo judged_projection i) \<longleftrightarrow> i = 2"
  by (auto simp: judged_projection_def judged_eval flog_def judged_log_def ent_committed_def proposed_of_def
      native_committed_def register_of_def run_eval critic_of_def)

theorem check_decides_gate_witness:
  "promotion_state_with judged_projection 1 (content_store_verdicts verdict_body (store_get (sy_store (snd judged)))) = Promoted"
proof -
  let ?out = "[65, 10, 66]"
  have inv: "executor_inv gate_hash produced"
    by (simp add: executor_inv_def flog_def produced_def ent_committed_def journal_inv_def seqs_dense_def facts_unique_def dedupes_def)
  have wf: "store_wf gate_hash (sy_store produced)"
    by (simp add: store_wf_def produced_def gate_hash_def)
  have run: "run_native_critic_mote gate_codec (\<lambda>_. None) no_pii (\<lambda>_. [0]) (fjournal_ops gate_hash)
      (mem_store_ops gate_hash) lines_critic warrant_default produced =
        (Inr \<lparr>lc_committed_seq = 3, lc_result_ref = 5, lc_mote_id = 2\<rparr>, snd judged)"
    using judged_eval by (simp add: judged_def)
  have log: "flog (snd judged) = judged_log"
    by (simp add: judged_eval flog_def)
  have rep: "\<not> log_repudiated 2 judged_log"
    by (simp add: log_repudiated_def occurs_Cons judged_log_def ent_committed_def proposed_of_def)
  let ?p = "\<lparr>c_mote_id = 1, c_idempotency_key = 1, c_seq = 1, c_nondeterminism = WorldMutating, c_result_ref = 9,
      c_parents = [], c_warrant_ref = 3, c_mote_def_hash = 4\<rparr> :: committed_entry"
  have "promotion_state_with judged_projection 1 (content_store_verdicts verdict_body (store_get (sy_store (snd judged)))) =
      (if evaluate (\<lambda>_. None) no_pii lines_distinct ?out = VValid then Promoted else Unpromoted)"
  proof (rule check_decides_gate [OF inv wf lines_critic_simps(5,3) _ _ _ _ run _ _ judged_runs])
    show "Committed ?p \<in> set (flog produced)" "c_mote_id ?p = 1" "store_get (sy_store produced) (c_result_ref ?p) = Some ?out"
      by (simp_all add: flog_def produced_def ent_committed_def store_get_def)
    show "c_mote_id c \<noteq> m_id lines_critic" if "Committed c \<in> set (flog produced)" for c
      using that by (simp add: flog_def produced_def ent_committed_def)
    show "bs = verdict_encode (\<lambda>_. [0]) (evaluate (\<lambda>_. None) no_pii lines_distinct ?out)"
      if "gate_hash bs = gate_hash (verdict_encode (\<lambda>_. [0]) (evaluate (\<lambda>_. None) no_pii lines_distinct ?out))" for bs
      using that by (simp add: lines_valid valid_encoding gate_hash_def split: if_splits)
  qed (simp_all add: lines_valid verdict_body_def log rep judged_critic)
  then show ?thesis
    by (simp add: lines_valid)
qed

end
