(* ===== verification/Kx_Coord_Registry.thy ===== *)
theory Kx_Coord_Registry
  imports Kx_Scheduler
begin

text \<open>
  The coordinator's view of its workers (\<open>crates/kx-coordinator/src/registry.rs\<close>) and the placement
  policy over it (\<open>placement.rs\<close>). The clock is outside the model: every operation that reads it
  takes the reading as an argument. The lock around the map is left out.
\<close>

section \<open>The registry\<close>

datatype worker_status = Live | Dead

text \<open>\<open>u64::saturating_sub\<close>\<close>

definition sat_sub :: "u64 \<Rightarrow> u64 \<Rightarrow> u64" where
  "sat_sub a b = (if b \<le> a then a - b else 0)"

definition is_live :: "u64 \<Rightarrow> u64 \<Rightarrow> u64 \<Rightarrow> bool" where
  "is_live last_seen_ms now_ms timeout_ms \<longleftrightarrow> sat_sub now_ms last_seen_ms \<le> timeout_ms"

record worker_record =
  wk_id :: worker_id
  wk_executor_class :: executor_class
  wk_endpoint :: rstring
  wk_last_seen_ms :: u64
  wk_last_heartbeat_ms :: u64
  wk_in_flight :: u32

datatype registry_error = UnknownWorker worker_id

text \<open>A \<open>Duration\<close> is a count of milliseconds that may exceed 64 bits.\<close>

record registry =
  reg_next_id :: u64
  reg_workers :: "(worker_id, worker_record) btree"
  reg_liveness_timeout :: nat

definition DEFAULT_LIVENESS_TIMEOUT :: nat where
  "DEFAULT_LIVENESS_TIMEOUT = 6000"

definition with_timeout :: "nat \<Rightarrow> registry" where
  "with_timeout liveness_timeout =
     \<lparr>reg_next_id = 0, reg_workers = [], reg_liveness_timeout = liveness_timeout\<rparr>"

definition registry_new :: registry where
  "registry_new = with_timeout DEFAULT_LIVENESS_TIMEOUT"

definition timeout_ms :: "registry \<Rightarrow> u64" where
  "timeout_ms reg =
     (if reg_liveness_timeout reg < 2 ^ 64 then of_nat (reg_liveness_timeout reg) else - 1)"

text \<open>\<open>fetch_add\<close> wraps.\<close>

definition register_worker :: "u64 \<Rightarrow> executor_class \<Rightarrow> rstring \<Rightarrow> registry \<Rightarrow> worker_id \<times> registry" where
  "register_worker now class endpoint reg =
     (let w = reg_next_id reg;
          r = \<lparr>wk_id = w, wk_executor_class = class, wk_endpoint = endpoint, wk_last_seen_ms = now,
               wk_last_heartbeat_ms = 0, wk_in_flight = 0\<rparr>
      in (w, reg\<lparr>reg_next_id := w + 1, reg_workers := bt_insert w r (reg_workers reg)\<rparr>))"

definition heartbeat ::
  "u64 \<Rightarrow> worker_id \<Rightarrow> u64 \<Rightarrow> u32 \<Rightarrow> registry \<Rightarrow> (registry_error, unit) result \<times> registry"
where
  "heartbeat seen worker now_ms in_flight reg =
     (case map_of (reg_workers reg) worker of
        None \<Rightarrow> (Inl (UnknownWorker worker), reg)
      | Some r \<Rightarrow> (Inr (), reg\<lparr>reg_workers := bt_insert worker
          (r\<lparr>wk_last_seen_ms := seen, wk_last_heartbeat_ms := now_ms, wk_in_flight := in_flight\<rparr>)
          (reg_workers reg)\<rparr>))"

definition get_worker :: "registry \<Rightarrow> worker_id \<Rightarrow> worker_record option" where
  "get_worker reg worker = map_of (reg_workers reg) worker"

definition registry_len :: "registry \<Rightarrow> nat" where
  "registry_len reg = length (reg_workers reg)"

definition snapshot :: "registry \<Rightarrow> worker_record list" where
  "snapshot reg = map snd (reg_workers reg)"

definition live_snapshot :: "u64 \<Rightarrow> registry \<Rightarrow> worker_record list" where
  "live_snapshot now reg =
     filter (\<lambda>w. is_live (wk_last_seen_ms w) now (timeout_ms reg)) (map snd (reg_workers reg))"

definition status :: "u64 \<Rightarrow> registry \<Rightarrow> worker_id \<Rightarrow> worker_status option" where
  "status now reg worker =
     map_option (\<lambda>w. if is_live (wk_last_seen_ms w) now (timeout_ms reg) then Live else Dead)
       (map_of (reg_workers reg) worker)"

section \<open>Load-aware placement\<close>

text \<open>The candidates: live workers of the class, with their load.\<close>

type_synonym load_aware = "(worker_id \<times> u32) list"

definition load_aware_new :: "u64 \<Rightarrow> registry \<Rightarrow> executor_class \<Rightarrow> load_aware" where
  "load_aware_new now reg class =
     sort_key fst (map (\<lambda>w. (wk_id w, wk_in_flight w))
       (filter (\<lambda>w. wk_executor_class w = class) (live_snapshot now reg)))"

definition shard_index :: "mote_id \<Rightarrow> nat \<Rightarrow> nat" where
  "shard_index i len =
     (let head = le_word (take 8 (bytes32 i)) :: u64 in unat (head mod of_nat len))"

definition load_aware_place :: "load_aware \<Rightarrow> mote_id \<Rightarrow> worker_id" where
  "load_aware_place candidates i =
     (if candidates = [] then 0
      else let min_load = min_list (map snd candidates);
               least_loaded = map fst (filter (\<lambda>(_, load). load = min_load) candidates)
           in least_loaded ! shard_index i (length least_loaded))"

section \<open>What the registry knows\<close>

text \<open>
  A history of the fleet, newest event first: a worker joined, or sent a heartbeat carrying its own
  clock and its load. The functions read off the history what a worker's record should say.
\<close>

datatype worker_event = Joined u64 executor_class rstring | Beat u64 worker_id u64 u32

fun registry_after :: "nat \<Rightarrow> worker_event list \<Rightarrow> registry" where
  "registry_after timeout [] = with_timeout timeout"
| "registry_after timeout (Joined now class endpoint # past) =
     snd (register_worker now class endpoint (registry_after timeout past))"
| "registry_after timeout (Beat now worker sent load # past) =
     snd (heartbeat now worker sent load (registry_after timeout past))"

fun joins :: "worker_event list \<Rightarrow> nat" where
  "joins [] = 0"
| "joins (Joined _ _ _ # past) = Suc (joins past)"
| "joins (Beat _ _ _ _ # past) = joins past"

fun class_of :: "worker_id \<Rightarrow> worker_event list \<Rightarrow> executor_class option" where
  "class_of w [] = None"
| "class_of w (Joined _ class _ # past) = (if unat w = joins past then Some class else class_of w past)"
| "class_of w (Beat _ _ _ _ # past) = class_of w past"

fun heard :: "worker_id \<Rightarrow> worker_event list \<Rightarrow> (u64 \<times> u32) option" where
  "heard w [] = None"
| "heard w (Joined now _ _ # past) = (if unat w = joins past then Some (now, 0) else heard w past)"
| "heard w (Beat now w' _ load # past) =
     (if w' = w \<and> unat w < joins past then Some (now, load) else heard w past)"

text \<open>The workers that may be given work of a class, and their load.\<close>

definition eligible :: "nat \<Rightarrow> worker_event list \<Rightarrow> executor_class \<Rightarrow> u64 \<Rightarrow> worker_id \<Rightarrow> u32 \<Rightarrow> bool" where
  "eligible timeout past class now w load \<longleftrightarrow> class_of w past = Some class \<and>
     (\<exists>t. heard w past = Some (t, load) \<and> unat now - unat t \<le> timeout)"

definition registry_ok :: "worker_event list \<Rightarrow> registry \<Rightarrow> bool" where
  "registry_ok past reg \<longleftrightarrow> bt_inv (reg_workers reg) \<and> reg_next_id reg = of_nat (joins past) \<and>
     (\<forall>w. case map_of (reg_workers reg) w of
        None \<Rightarrow> joins past \<le> unat w \<and> class_of w past = None \<and> heard w past = None
      | Some r \<Rightarrow> unat w < joins past \<and> wk_id r = w \<and> class_of w past = Some (wk_executor_class r) \<and>
          heard w past = Some (wk_last_seen_ms r, wk_in_flight r))"

lemma registry_okD:
  assumes "registry_ok past reg"
  shows "bt_inv (reg_workers reg)" "reg_next_id reg = of_nat (joins past)"
    and "map_of (reg_workers reg) w = None \<Longrightarrow> joins past \<le> unat w \<and> class_of w past = None \<and> heard w past = None"
    and "map_of (reg_workers reg) w = Some r \<Longrightarrow> unat w < joins past \<and> wk_id r = w \<and>
      class_of w past = Some (wk_executor_class r) \<and> heard w past = Some (wk_last_seen_ms r, wk_in_flight r)"
proof -
  have *: "case map_of (reg_workers reg) w of
        None \<Rightarrow> joins past \<le> unat w \<and> class_of w past = None \<and> heard w past = None
      | Some r \<Rightarrow> unat w < joins past \<and> wk_id r = w \<and> class_of w past = Some (wk_executor_class r) \<and>
          heard w past = Some (wk_last_seen_ms r, wk_in_flight r)" for w
    using assms by (simp only: registry_ok_def)
  show "bt_inv (reg_workers reg)" "reg_next_id reg = of_nat (joins past)"
    using assms by (simp_all only: registry_ok_def)
  show "map_of (reg_workers reg) w = None \<Longrightarrow> joins past \<le> unat w \<and> class_of w past = None \<and> heard w past = None"
    using * [of w] by simp
  show "map_of (reg_workers reg) w = Some r \<Longrightarrow> unat w < joins past \<and> wk_id r = w \<and>
      class_of w past = Some (wk_executor_class r) \<and> heard w past = Some (wk_last_seen_ms r, wk_in_flight r)"
    using * [of w] by simp
qed

lemma registry_ok_join:
  assumes "registry_ok past reg" and "joins past < 2 ^ 64"
  shows "registry_ok (Joined now class ep # past) (snd (register_worker now class ep reg))"
proof -
  note ok = registry_okD [OF assms(1)]
  let ?n = "of_nat (joins past) :: u64"
  have n: "unat ?n = joins past"
    using assms(2) by (intro unat_of_nat_small) simp
  have eq: "unat w = joins past \<longleftrightarrow> w = ?n" for w :: u64
    using n by (metis word_unat_eq_iff)
  show ?thesis
    unfolding registry_ok_def
  proof (intro conjI allI)
    fix w
    show "case map_of (reg_workers (snd (register_worker now class ep reg))) w of
        None \<Rightarrow> joins (Joined now class ep # past) \<le> unat w \<and> class_of w (Joined now class ep # past) = None \<and>
          heard w (Joined now class ep # past) = None
      | Some r \<Rightarrow> unat w < joins (Joined now class ep # past) \<and> wk_id r = w \<and>
          class_of w (Joined now class ep # past) = Some (wk_executor_class r) \<and>
          heard w (Joined now class ep # past) = Some (wk_last_seen_ms r, wk_in_flight r)"
    proof (cases "w = ?n")
      case True
      then show ?thesis by (simp add: register_worker_def ok(2) n Let_def)
    next
      case False
      then have "unat w \<noteq> joins past" using eq by simp
      then show ?thesis
        using False ok(3,4) [of w]
        by (cases "map_of (reg_workers reg) w") (simp_all add: register_worker_def ok(2) Let_def)
    qed
  qed (simp_all add: register_worker_def ok Let_def)
qed

lemma registry_ok_beat:
  assumes "registry_ok past reg"
  shows "registry_ok (Beat now w' sent load # past) (snd (heartbeat now w' sent load reg))"
proof -
  note ok = registry_okD [OF assms(1)]
  show ?thesis
  proof (cases "map_of (reg_workers reg) w'")
    case None
    then have "\<not> unat w' < joins past" using ok(3) [of w'] by simp
    then have same: "heard w (Beat now w' sent load # past) = heard w past" for w
      by auto
    have hb: "snd (heartbeat now w' sent load reg) = reg"
      by (simp add: heartbeat_def None)
    show ?thesis
      unfolding hb registry_ok_def same joins.simps class_of.simps by (rule assms [unfolded registry_ok_def])
  next
    case (Some r)
    note r = ok(4) [OF Some]
    show ?thesis
      unfolding registry_ok_def
    proof (intro conjI allI)
      fix w
      show "case map_of (reg_workers (snd (heartbeat now w' sent load reg))) w of
          None \<Rightarrow> joins (Beat now w' sent load # past) \<le> unat w \<and> class_of w (Beat now w' sent load # past) = None \<and>
            heard w (Beat now w' sent load # past) = None
        | Some r \<Rightarrow> unat w < joins (Beat now w' sent load # past) \<and> wk_id r = w \<and>
            class_of w (Beat now w' sent load # past) = Some (wk_executor_class r) \<and>
            heard w (Beat now w' sent load # past) = Some (wk_last_seen_ms r, wk_in_flight r)"
      proof (cases "w = w'")
        case True
        then show ?thesis using r by (simp add: heartbeat_def Some)
      next
        case False
        then show ?thesis
          using ok(3,4) [of w] by (cases "map_of (reg_workers reg) w") (simp_all add: heartbeat_def Some)
      qed
    qed (simp_all add: heartbeat_def Some ok)
  qed
qed

lemma timeout_after [simp]: "reg_liveness_timeout (registry_after timeout past) = timeout"
  by (induction timeout past rule: registry_after.induct)
    (simp_all add: with_timeout_def register_worker_def heartbeat_def Let_def split: option.splits)

lemma joins_Cons: "joins past \<le> joins (e # past)"
  by (cases e) simp_all

lemma registry_after_ok: "joins past < 2 ^ 64 \<Longrightarrow> registry_ok past (registry_after timeout past)"
proof (induction timeout past rule: registry_after.induct)
  case (1 timeout)
  then show ?case by (simp add: registry_ok_def with_timeout_def)
qed (simp_all add: registry_ok_join registry_ok_beat)

lemma is_live_iff:
  "is_live seen now (timeout_ms reg) \<longleftrightarrow> unat now - unat seen \<le> reg_liveness_timeout reg"
proof -
  have sub: "unat (sat_sub now seen) = unat now - unat seen"
    by (simp add: sat_sub_def unat_sub word_le_nat_alt)
  have "unat (timeout_ms reg) = min (reg_liveness_timeout reg) (2 ^ 64 - 1)"
    by (simp add: timeout_ms_def unat_of_nat_small unsigned_minus_1_eq_mask mask_eq_exp_minus_1)
  moreover have "unat now - unat seen \<le> 2 ^ 64 - 1"
    using unsigned_less [of now, where ?'a = nat] by simp
  ultimately show ?thesis
    by (simp add: is_live_def word_le_nat_alt sub)
qed

lemma candidates_iff:
  assumes "joins past < 2 ^ 64"
  shows "(w, load) \<in> set (load_aware_new now (registry_after timeout past) class) \<longleftrightarrow>
    eligible timeout past class now w load"
proof -
  let ?reg = "registry_after timeout past"
  note ok = registry_okD [OF registry_after_ok [OF assms]]
  have mem: "(w, r) \<in> set (reg_workers ?reg) \<longleftrightarrow> map_of (reg_workers ?reg) w = Some r" for w r
    using ok(1) [of timeout] by (simp add: bt_inv_distinct)
  have "(w, load) \<in> set (load_aware_new now ?reg class) \<longleftrightarrow>
      (\<exists>v r. map_of (reg_workers ?reg) v = Some r \<and> wk_id r = w \<and> wk_in_flight r = load \<and>
        wk_executor_class r = class \<and> is_live (wk_last_seen_ms r) now (timeout_ms ?reg))"
    by (auto simp: load_aware_new_def live_snapshot_def image_iff mem [symmetric]) force+
  also have "\<dots> \<longleftrightarrow> eligible timeout past class now w load"
  proof
    assume "eligible timeout past class now w load"
    then obtain t where t: "class_of w past = Some class" "heard w past = Some (t, load)" "unat now - unat t \<le> timeout"
      by (auto simp: eligible_def)
    then obtain r where r: "map_of (reg_workers ?reg) w = Some r"
      using ok(3) [of timeout w] by (cases "map_of (reg_workers ?reg) w") simp_all
    then show "\<exists>v r. map_of (reg_workers ?reg) v = Some r \<and> wk_id r = w \<and> wk_in_flight r = load \<and>
        wk_executor_class r = class \<and> is_live (wk_last_seen_ms r) now (timeout_ms ?reg)"
      using ok(4) [OF r] t by (intro exI [of _ w] exI [of _ r]) (simp add: is_live_iff)
  qed (use ok(4) in \<open>auto simp: eligible_def is_live_iff\<close>)
  finally show ?thesis .
qed

lemma shard_index_less: "0 < len \<Longrightarrow> len < 2 ^ 64 \<Longrightarrow> shard_index i len < len"
  by (simp add: shard_index_def Let_def unat_mod unat_of_nat_small)

lemma place_member:
  assumes "candidates \<noteq> []" and "length candidates < 2 ^ 64"
  shows "(load_aware_place candidates i, min_list (map snd candidates)) \<in> set candidates"
proof -
  let ?least = "filter (\<lambda>(_, load). load = min_list (map snd candidates)) candidates"
  have "min_list (map snd candidates) \<in> set (map snd candidates)"
    using assms(1) by (simp add: min_list_Min)
  then obtain w where "(w, min_list (map snd candidates)) \<in> set candidates" by force
  then have "?least \<noteq> []" by (auto simp: filter_empty_conv)
  moreover have "length ?least < 2 ^ 64"
    by (rule le_less_trans [OF length_filter_le assms(2)])
  ultimately have "?least ! shard_index i (length ?least) \<in> set ?least"
    by (intro nth_mem shard_index_less) simp_all
  moreover have "load_aware_place candidates i = fst (?least ! shard_index i (length ?least))"
    using assms(1) \<open>?least \<noteq> []\<close> \<open>length ?least < 2 ^ 64\<close>
    by (simp add: load_aware_place_def Let_def shard_index_less)
  ultimately show ?thesis
    by (auto split: prod.splits)
qed

lemma candidates_short:
  assumes "joins past < 2 ^ 64"
  shows "length (load_aware_new now (registry_after timeout past) class) < 2 ^ 64"
proof -
  let ?ws = "reg_workers (registry_after timeout past)"
  note ok = registry_okD [OF registry_after_ok [OF assms]]
  have "unat ` fst ` set ?ws \<subseteq> {..<joins past}"
    using ok(3) [of timeout] ok(4) [of timeout] by (force simp: image_iff dest: map_of_is_SomeI [OF bt_inv_distinct [OF ok(1)]])
  then have "card (unat ` fst ` set ?ws) \<le> joins past"
    using card_mono [of "{..<joins past}"] by simp
  moreover have "card (unat ` fst ` set ?ws) = length ?ws"
    using distinct_card [OF bt_inv_distinct [OF ok(1)], of timeout]
    by (simp add: card_image inj_on_def word_unat_eq_iff [symmetric])
  moreover have "length (load_aware_new now (registry_after timeout past) class) \<le> length ?ws"
    using length_filter_le [of _ "map snd ?ws"] order_trans [OF length_filter_le length_filter_le, of _ _ "map snd ?ws"]
    by (simp add: load_aware_new_def live_snapshot_def)
  ultimately show ?thesis using assms by linarith
qed

text \<open>
  C24: Placement after any history of registrations and heartbeats, up to \<open>2 ^ 64\<close> registrations.
  If some worker of the class was heard from within the liveness window, the chosen worker is one
  of them, and none of them reported a smaller load; the worker's own clock plays no part, and a
  receipt in the future of the current reading counts as recent. If there is no such worker the
  answer is worker 0.
\<close>

theorem placement_live_least_loaded:
  assumes "joins past < 2 ^ 64"
  shows "let chosen = load_aware_place (load_aware_new now (registry_after timeout past) class) i in
    if \<exists>w load. eligible timeout past class now w load
    then \<exists>load. eligible timeout past class now chosen load \<and>
      (\<forall>w' load'. eligible timeout past class now w' load' \<longrightarrow> load \<le> load')
    else chosen = 0"
proof (cases "\<exists>w load. eligible timeout past class now w load")
  let ?c = "load_aware_new now (registry_after timeout past) class"
  have mem: "(w, load) \<in> set ?c \<longleftrightarrow> eligible timeout past class now w load" for w load
    by (rule candidates_iff [OF assms])
  {
    case True
    then have ne: "?c \<noteq> []" using mem by (metis empty_iff list.set(1))
    have "eligible timeout past class now (load_aware_place ?c i) (min_list (map snd ?c))"
      using place_member [OF ne candidates_short [OF assms]] by (simp add: mem)
    moreover have "min_list (map snd ?c) \<le> load'" if "eligible timeout past class now w' load'" for w' load'
    proof -
      from that have "load' \<in> set (map snd ?c)" using mem by force
      then show ?thesis using ne by (simp add: min_list_Min)
    qed
    ultimately show ?thesis using True by (auto simp: Let_def)
  next
    case False
    then have "set ?c = {}" using mem by (metis equals0I surj_pair)
    then show ?thesis using False by (simp add: Let_def load_aware_place_def)
  }
qed

section \<open>Witness\<close>

text \<open>
  Three workers of one class: the first has gone silent, the second is loaded, the third reported
  a smaller load with a clock far ahead of the coordinator's.
\<close>

definition sample_fleet :: "worker_event list" where
  "sample_fleet =
     [Beat 9000 2 999999 1, Beat 8500 1 8500 4, Joined 1000 Bwrap [], Joined 1000 Bwrap [], Joined 1000 Bwrap []]"

lemma sample_fleet_heard:
  "joins sample_fleet = 3"
  "heard 0 sample_fleet = Some (1000, 0)" "heard 1 sample_fleet = Some (8500, 4)" "heard 2 sample_fleet = Some (9000, 1)"
  "class_of 1 sample_fleet = Some Bwrap" "class_of 2 sample_fleet = Some Bwrap"
  by (simp_all add: sample_fleet_def)

theorem placement_live_least_loaded_witness:
  "eligible 6000 sample_fleet Bwrap 10000 2 1 \<and>
   load_aware_place (load_aware_new 10000 (registry_after 6000 sample_fleet) Bwrap) 7 = 2"
proof -
  let ?chosen = "load_aware_place (load_aware_new 10000 (registry_after 6000 sample_fleet) Bwrap) 7"
  have two: "eligible 6000 sample_fleet Bwrap 10000 2 1"
    by (simp add: eligible_def sample_fleet_heard)
  then obtain load where load: "eligible 6000 sample_fleet Bwrap 10000 ?chosen load" "load \<le> 1"
    using placement_live_least_loaded [of sample_fleet 10000 6000 Bwrap 7]
    by (auto simp: sample_fleet_heard Let_def split: if_splits)
  have "eligible 6000 sample_fleet Bwrap 10000 w load \<Longrightarrow> load \<le> 1 \<Longrightarrow> w = 2" for w load
    by (auto simp: eligible_def sample_fleet_def word_unat_eq_iff word_le_nat_alt split: if_splits)
  then have "?chosen = 2" using load by blast
  with two show ?thesis by simp
qed

end
