(* ===== verification/Kx_Coord_Lease.thy ===== *)
theory Kx_Coord_Lease
  imports Kx_Coord_Registry
begin

text \<open>
  The lease tracker of the coordinator (\<open>crates/kx-coordinator/src/reschedule.rs\<close>): which worker holds
  a lease on which Mote, in two indices kept inverse to one another, the crash-failed Motes that
  may be leased again and the crash counters. The tracker refines a plain relation between workers
  and Motes.
\<close>

section \<open>The tracker\<close>

definition PURE_RETRY_BUDGET :: u32 where
  "PURE_RETRY_BUDGET = 100"

record lease_tracker =
  lt_leases :: "(worker_id, mote_id bset) btree"
  lt_holders :: "(mote_id, worker_id bset) btree"
  lt_crash_failed :: "mote_id bset"
  lt_attempt_failures :: "(mote_id, u32) btree"

definition lease_tracker_default :: lease_tracker where
  "lease_tracker_default = \<lparr>lt_leases = [], lt_holders = [], lt_crash_failed = [], lt_attempt_failures = []\<rparr>"

text \<open>The forward entry of the worker is created even when there is nothing to lease.\<close>

definition record_one :: "worker_id \<Rightarrow> mote_id \<Rightarrow> lease_tracker \<Rightarrow> lease_tracker" where
  "record_one worker i t =
     t\<lparr>lt_leases := bt_entry_upd worker [] (bs_insert i) (lt_leases t),
       lt_holders := bt_entry_upd i [] (bs_insert worker) (lt_holders t)\<rparr>"

definition record_lease :: "worker_id \<Rightarrow> mote_id list \<Rightarrow> lease_tracker \<Rightarrow> lease_tracker" where
  "record_lease worker motes t =
     fold (record_one worker) motes (t\<lparr>lt_leases := bt_entry_upd worker [] (\<lambda>s. s) (lt_leases t)\<rparr>)"

definition rescheduleable :: "lease_tracker \<Rightarrow> mote_id bset" where
  "rescheduleable t = lt_crash_failed t"

definition leasing_workers :: "lease_tracker \<Rightarrow> worker_id list" where
  "leasing_workers t = bt_keys (lt_leases t)"

definition is_held_by :: "lease_tracker \<Rightarrow> mote_id \<Rightarrow> worker_id \<Rightarrow> bool" where
  "is_held_by t i worker \<longleftrightarrow>
     (case map_of (lt_holders t) i of None \<Rightarrow> False | Some workers \<Rightarrow> worker \<in> set workers)"

definition is_leased :: "lease_tracker \<Rightarrow> mote_id \<Rightarrow> bool" where
  "is_leased t i \<longleftrightarrow> map_of (lt_holders t) i \<noteq> None"

definition is_leased_by_other :: "lease_tracker \<Rightarrow> mote_id \<Rightarrow> worker_id \<Rightarrow> bool" where
  "is_leased_by_other t i worker \<longleftrightarrow>
     (case map_of (lt_holders t) i of None \<Rightarrow> False | Some workers \<Rightarrow> list_ex (\<lambda>w. w \<noteq> worker) workers)"

text \<open>Removing a member of an index entry, and the entry with its last member.\<close>

definition drop_member :: "'v::linorder \<Rightarrow> 'k::linorder \<Rightarrow> ('k, 'v bset) btree \<Rightarrow> ('k, 'v bset) btree" where
  "drop_member x k idx =
     (case map_of idx k of
        None \<Rightarrow> idx
      | Some s \<Rightarrow>
          let s' = bs_remove x s in
          if s' = [] then bt_remove k idx else bt_insert k s' idx)"

definition take_leases :: "worker_id \<Rightarrow> lease_tracker \<Rightarrow> mote_id bset \<times> lease_tracker" where
  "take_leases worker t =
     (let leased = (case map_of (lt_leases t) worker of None \<Rightarrow> [] | Some s \<Rightarrow> s)
      in (leased, t\<lparr>lt_leases := bt_remove worker (lt_leases t),
                    lt_holders := fold (drop_member worker) leased (lt_holders t)\<rparr>))"

definition record_crash :: "mote_id \<Rightarrow> u32 \<Rightarrow> lease_tracker \<Rightarrow> bool \<times> lease_tracker" where
  "record_crash i budget t =
     (let failures = (case map_of (lt_attempt_failures t) i of None \<Rightarrow> 0 | Some n \<Rightarrow> n) + 1;
          t' = t\<lparr>lt_attempt_failures := bt_insert i failures (lt_attempt_failures t)\<rparr>
      in if failures < budget then (True, t'\<lparr>lt_crash_failed := bs_insert i (lt_crash_failed t)\<rparr>)
         else (False, t'\<lparr>lt_crash_failed := bs_remove i (lt_crash_failed t)\<rparr>))"

definition resolve_committed :: "mote_id \<Rightarrow> lease_tracker \<Rightarrow> lease_tracker" where
  "resolve_committed i t =
     (let t' = (case map_of (lt_holders t) i of
                  None \<Rightarrow> t
                | Some workers \<Rightarrow> t\<lparr>lt_holders := bt_remove i (lt_holders t),
                    lt_leases := fold (drop_member i) workers (lt_leases t)\<rparr>)
      in t'\<lparr>lt_crash_failed := bs_remove i (lt_crash_failed t'),
            lt_attempt_failures := bt_remove i (lt_attempt_failures t')\<rparr>)"

section \<open>The invariant\<close>

text \<open>Both indices hold the same pairs; the reverse index keeps no empty entry.\<close>

definition tracker_inv :: "lease_tracker \<Rightarrow> bool" where
  "tracker_inv t \<longleftrightarrow> bt_inv (lt_leases t) \<and> (\<forall>w. bs_inv (adj (lt_leases t) w)) \<and>
     index_inv (lt_holders t) \<and> (\<forall>i. bs_inv (adj (lt_holders t) i)) \<and>
     (\<forall>w i. w \<in> set (adj (lt_holders t) i) \<longleftrightarrow> i \<in> set (adj (lt_leases t) w)) \<and>
     bs_inv (lt_crash_failed t)"

lemma adj_drop_member: "adj (drop_member x k idx) p = (if p = k then bs_remove x (adj idx k) else adj idx p)"
  by (auto simp: adj_def drop_member_def Let_def bs_remove_def split: option.splits)

lemma adj_drop_all:
  "adj (fold (drop_member x) ks idx) p = (if p \<in> set ks then bs_remove x (adj idx p) else adj idx p)"
  by (induction ks arbitrary: idx) (auto simp: adj_drop_member bs_remove_def)

lemma bt_inv_drop_all [simp]: "bt_inv idx \<Longrightarrow> bt_inv (fold (drop_member x) ks idx)"
  by (induction ks arbitrary: idx) (auto simp: drop_member_def Let_def split: option.splits)

lemma index_inv_drop: "index_inv idx \<Longrightarrow> index_inv (drop_member x k idx)"
  by (auto simp: index_inv_def drop_member_def Let_def split: option.splits)

lemma index_inv_drop_all: "index_inv idx \<Longrightarrow> index_inv (fold (drop_member x) ks idx)"
  by (induction ks arbitrary: idx) (auto simp: index_inv_drop)

lemma adj_bt_remove: "adj (bt_remove k idx) p = (if p = k then [] else adj idx p)"
  by (simp add: adj_def)

lemma index_inv_bt_remove: "index_inv idx \<Longrightarrow> index_inv (bt_remove k idx)"
  by (auto simp: index_inv_def)

lemma bs_insert_not_Nil [simp]: "bs_insert x s \<noteq> []"
  by (metis insert_not_empty list.set(1) set_bs_insert)

lemma tracker_invD:
  assumes "tracker_inv t"
  shows "bt_inv (lt_leases t)" "bs_inv (adj (lt_leases t) w)" "index_inv (lt_holders t)" "bs_inv (adj (lt_holders t) i)"
    "w \<in> set (adj (lt_holders t) i) \<longleftrightarrow> i \<in> set (adj (lt_leases t) w)" "bs_inv (lt_crash_failed t)"
  using assms by (simp_all add: tracker_inv_def)

lemma tracker_inv_default [simp]: "tracker_inv lease_tracker_default"
  by (simp add: tracker_inv_def lease_tracker_default_def)

lemma record_one_adj [simp]:
  "adj (lt_leases (record_one worker i t)) w =
     (if w = worker then bs_insert i (adj (lt_leases t) w) else adj (lt_leases t) w)"
  "adj (lt_holders (record_one worker i t)) j =
     (if j = i then bs_insert worker (adj (lt_holders t) j) else adj (lt_holders t) j)"
  "lt_crash_failed (record_one worker i t) = lt_crash_failed t"
  "lt_attempt_failures (record_one worker i t) = lt_attempt_failures t"
  by (simp_all add: record_one_def adj_entry_upd)

lemma record_one_inv:
  assumes "tracker_inv t"
  shows "tracker_inv (record_one worker i t)"
proof -
  note inv = tracker_invD [OF assms]
  have "bt_inv (lt_leases (record_one worker i t))" "index_inv (lt_holders (record_one worker i t))"
    by (simp_all add: record_one_def index_inv_entry_upd inv)
  then show ?thesis
    unfolding tracker_inv_def by (auto simp: inv)
qed

lemma record_all:
  "adj (lt_leases (fold (record_one worker) motes t)) w =
     (if w = worker then fold bs_insert motes (adj (lt_leases t) w) else adj (lt_leases t) w)"
  "tracker_inv t \<Longrightarrow> tracker_inv (fold (record_one worker) motes t)"
  "lt_crash_failed (fold (record_one worker) motes t) = lt_crash_failed t"
  "lt_attempt_failures (fold (record_one worker) motes t) = lt_attempt_failures t"
  by (induction motes arbitrary: t) (simp_all add: record_one_inv)

lemma touch_inv: "tracker_inv t \<Longrightarrow> tracker_inv (t\<lparr>lt_leases := bt_entry_upd worker [] (\<lambda>s. s) (lt_leases t)\<rparr>)"
  by (simp add: tracker_inv_def adj_entry_upd)

lemma record_lease_inv: "tracker_inv t \<Longrightarrow> tracker_inv (record_lease worker motes t)"
  by (simp add: record_lease_def record_all touch_inv)

lemma take_leases_inv:
  assumes "tracker_inv t"
  shows "tracker_inv (snd (take_leases worker t))"
proof -
  note inv = tracker_invD [OF assms]
  have leased: "(case map_of (lt_leases t) worker of None \<Rightarrow> [] | Some s \<Rightarrow> s) = adj (lt_leases t) worker"
    by (simp add: adj_def)
  show ?thesis
    unfolding tracker_inv_def
    by (auto simp: take_leases_def Let_def leased adj_drop_all adj_bt_remove index_inv_drop_all inv)
qed

lemma record_crash_inv: "tracker_inv t \<Longrightarrow> tracker_inv (snd (record_crash i budget t))"
  by (simp add: tracker_inv_def record_crash_def Let_def)

lemma resolve_inv:
  assumes "tracker_inv t"
  shows "tracker_inv (resolve_committed i t)"
proof (cases "map_of (lt_holders t) i")
  case None
  then show ?thesis using assms by (simp add: resolve_committed_def tracker_inv_def)
next
  case (Some ws)
  then have ws: "ws = adj (lt_holders t) i" by (simp add: adj_def)
  note inv = tracker_invD [OF assms]
  show ?thesis
    unfolding tracker_inv_def
    by (auto simp: resolve_committed_def Some adj_drop_all adj_bt_remove index_inv_bt_remove ws Let_def inv)
qed

section \<open>Refinement\<close>

text \<open>
  The abstract tracker is a relation of workers and the Motes they hold, the set of Motes to offer
  again, and a count of crashes per Mote.
\<close>

record leases_spec =
  ls_held :: "(worker_id \<times> mote_id) set"
  ls_reoffer :: "mote_id set"
  ls_crashes :: "mote_id \<Rightarrow> u32"

definition lease_abs :: "lease_tracker \<Rightarrow> leases_spec" where
  "lease_abs t =
     \<lparr>ls_held = {(w, i). i \<in> set (adj (lt_leases t) w)}, ls_reoffer = set (lt_crash_failed t),
      ls_crashes = (\<lambda>i. case map_of (lt_attempt_failures t) i of None \<Rightarrow> 0 | Some n \<Rightarrow> n)\<rparr>"

datatype lease_op =
    LRecord worker_id "mote_id list"
  | LTake worker_id
  | LCrash mote_id u32
  | LResolve mote_id

fun lease_step :: "lease_op \<Rightarrow> lease_tracker \<Rightarrow> lease_tracker" where
  "lease_step (LRecord w is) t = record_lease w is t"
| "lease_step (LTake w) t = snd (take_leases w t)"
| "lease_step (LCrash i budget) t = snd (record_crash i budget t)"
| "lease_step (LResolve i) t = resolve_committed i t"

fun lease_spec_step :: "lease_op \<Rightarrow> leases_spec \<Rightarrow> leases_spec" where
  "lease_spec_step (LRecord w is) a = a\<lparr>ls_held := ls_held a \<union> {w} \<times> set is\<rparr>"
| "lease_spec_step (LTake w) a = a\<lparr>ls_held := {(v, i) \<in> ls_held a. v \<noteq> w}\<rparr>"
| "lease_spec_step (LCrash i budget) a =
     a\<lparr>ls_crashes := (ls_crashes a)(i := ls_crashes a i + 1),
       ls_reoffer := (if ls_crashes a i + 1 < budget then insert i (ls_reoffer a) else ls_reoffer a - {i})\<rparr>"
| "lease_spec_step (LResolve i) a =
     a\<lparr>ls_held := {(w, j) \<in> ls_held a. j \<noteq> i}, ls_reoffer := ls_reoffer a - {i},
       ls_crashes := (ls_crashes a)(i := 0)\<rparr>"

lemma set_fold_bs_insert: "set (fold bs_insert xs s) = set s \<union> set xs"
  by (induction xs arbitrary: s) auto

lemma lease_step_inv: "tracker_inv t \<Longrightarrow> tracker_inv (lease_step op t)"
  by (cases op) (simp_all add: record_lease_inv take_leases_inv record_crash_inv resolve_inv)

lemma abs_record: "lease_abs (record_lease w is t) = lease_spec_step (LRecord w is) (lease_abs t)"
  by (auto simp: lease_abs_def record_lease_def record_all adj_entry_upd set_fold_bs_insert split: if_splits)

lemma abs_take: "lease_abs (snd (take_leases w t)) = lease_spec_step (LTake w) (lease_abs t)"
  by (auto simp: lease_abs_def take_leases_def Let_def adj_bt_remove split: if_splits)

lemma abs_crash: "lease_abs (snd (record_crash i budget t)) = lease_spec_step (LCrash i budget) (lease_abs t)"
  by (auto simp: lease_abs_def record_crash_def Let_def fun_eq_iff)

lemma abs_resolve:
  assumes "tracker_inv t"
  shows "lease_abs (resolve_committed i t) = lease_spec_step (LResolve i) (lease_abs t)"
proof (cases "map_of (lt_holders t) i")
  case None
  then have "i \<notin> set (adj (lt_leases t) w)" for w
    using tracker_invD(5) [OF assms, of w i] by (simp add: adj_def)
  then have "{(w, j). j \<in> set (adj (lt_leases t) w)} = {(w, j). j \<in> set (adj (lt_leases t) w) \<and> j \<noteq> i}"
    by auto
  then show ?thesis
    by (simp add: lease_abs_def resolve_committed_def None fun_eq_iff)
next
  case (Some ws)
  then have ws: "w \<in> set ws \<longleftrightarrow> i \<in> set (adj (lt_leases t) w)" for w
    using tracker_invD(5) [OF assms, of w i] by (simp add: adj_def)
  have "{(w, j). j \<in> set (adj (fold (drop_member i) ws (lt_leases t)) w)} =
      {(w, j). j \<in> set (adj (lt_leases t) w) \<and> j \<noteq> i}"
    by (auto simp: adj_drop_all ws split: if_splits)
  then show ?thesis
    by (simp add: lease_abs_def resolve_committed_def Some Let_def fun_eq_iff)
qed

lemma lease_step_refines: "tracker_inv t \<Longrightarrow> lease_abs (lease_step op t) = lease_spec_step op (lease_abs t)"
  by (cases op) (simp_all only: lease_step.simps abs_record abs_take abs_crash abs_resolve)

lemma lease_run_inv: "tracker_inv t \<Longrightarrow> tracker_inv (fold lease_step ops t)"
  by (induction ops arbitrary: t) (simp_all add: lease_step_inv)

lemma lease_run_refines:
  "tracker_inv t \<Longrightarrow> lease_abs (fold lease_step ops t) = fold lease_spec_step ops (lease_abs t)"
  by (induction ops arbitrary: t) (simp_all add: lease_step_inv lease_step_refines)

lemma held_iff: "(w, i) \<in> ls_held (lease_abs t) \<longleftrightarrow> i \<in> set (adj (lt_leases t) w)"
  by (simp add: lease_abs_def)

lemma queries_from_abs:
  assumes "tracker_inv t"
  shows "is_held_by t i w \<longleftrightarrow> (w, i) \<in> ls_held (lease_abs t)"
    and "is_leased t i \<longleftrightarrow> (\<exists>v. (v, i) \<in> ls_held (lease_abs t))"
    and "is_leased_by_other t i w \<longleftrightarrow> (\<exists>v. v \<noteq> w \<and> (v, i) \<in> ls_held (lease_abs t))"
    and "fst (take_leases w t) = sorted_list_of_set {j. (w, j) \<in> ls_held (lease_abs t)}"
    and "{v. \<exists>j. (v, j) \<in> ls_held (lease_abs t)} \<subseteq> set (leasing_workers t)"
    and "rescheduleable t = sorted_list_of_set (ls_reoffer (lease_abs t))"
proof -
  note inv = tracker_invD [OF assms]
  have holders: "v \<in> set (adj (lt_holders t) i) \<longleftrightarrow> (v, i) \<in> ls_held (lease_abs t)" for v
    by (simp add: held_iff inv(5))
  show "is_held_by t i w \<longleftrightarrow> (w, i) \<in> ls_held (lease_abs t)"
    using holders [of w] by (auto simp: is_held_by_def adj_def split: option.splits)
  show "is_leased_by_other t i w \<longleftrightarrow> (\<exists>v. v \<noteq> w \<and> (v, i) \<in> ls_held (lease_abs t))"
    unfolding holders [symmetric]
    by (auto simp: is_leased_by_other_def adj_def list_ex_iff split: option.splits)
  have "map_of (lt_holders t) i \<noteq> Some []"
    using inv(3) by (simp add: index_inv_def)
  then have "is_leased t i \<longleftrightarrow> adj (lt_holders t) i \<noteq> []"
    by (auto simp: is_leased_def adj_def split: option.splits)
  also have "\<dots> \<longleftrightarrow> (\<exists>v. v \<in> set (adj (lt_holders t) i))"
    by (metis empty_iff list.set(1) list.set_sel(1))
  finally show "is_leased t i \<longleftrightarrow> (\<exists>v. (v, i) \<in> ls_held (lease_abs t))"
    by (simp add: holders)
  show "fst (take_leases w t) = sorted_list_of_set {j. (w, j) \<in> ls_held (lease_abs t)}"
    using inv(2) [of w]
    by (simp add: take_leases_def Let_def held_iff adj_def bs_inv_def strict_sorted_iff
        sorted_list_of_set.idem_if_sorted_distinct split: option.splits)
  show "{v. \<exists>j. (v, j) \<in> ls_held (lease_abs t)} \<subseteq> set (leasing_workers t)"
    by (auto simp: held_iff adj_def leasing_workers_def bt_keys_def split: option.splits)
      (metis domI dom_map_of_conv_image_fst)
  show "rescheduleable t = sorted_list_of_set (ls_reoffer (lease_abs t))"
    using inv(6) by (simp add: rescheduleable_def lease_abs_def bs_inv_def strict_sorted_iff
        sorted_list_of_set.idem_if_sorted_distinct)
qed

text \<open>
  C23: The lease tracker, with its forward and reverse indices, refines a relation between workers
  and Motes. After any sequence of operations its abstraction is what the same operations make of
  the empty relation: leasing adds pairs, reaping a worker removes its pairs, resolving a Mote
  removes every pair of it with its crash record, a crash counts and offers the Mote again while
  the count stays below the budget. The queries, the set taken from a reaped worker and the offers
  are those of the relation.
\<close>

theorem lease_tracker_refines:
  "let t = fold lease_step ops lease_tracker_default;
       a = fold lease_spec_step ops \<lparr>ls_held = {}, ls_reoffer = {}, ls_crashes = (\<lambda>_. 0)\<rparr>
   in lease_abs t = a \<and>
      (\<forall>i w. is_held_by t i w \<longleftrightarrow> (w, i) \<in> ls_held a) \<and>
      (\<forall>i. is_leased t i \<longleftrightarrow> (\<exists>w. (w, i) \<in> ls_held a)) \<and>
      (\<forall>i w. is_leased_by_other t i w \<longleftrightarrow> (\<exists>v. v \<noteq> w \<and> (v, i) \<in> ls_held a)) \<and>
      (\<forall>w. fst (take_leases w t) = sorted_list_of_set {i. (w, i) \<in> ls_held a}) \<and>
      rescheduleable t = sorted_list_of_set (ls_reoffer a)"
proof -
  let ?t = "fold lease_step ops lease_tracker_default"
  have "lease_abs lease_tracker_default = \<lparr>ls_held = {}, ls_reoffer = {}, ls_crashes = (\<lambda>_. 0)\<rparr>"
    by (simp add: lease_abs_def lease_tracker_default_def)
  then have abs: "lease_abs ?t = fold lease_spec_step ops \<lparr>ls_held = {}, ls_reoffer = {}, ls_crashes = (\<lambda>_. 0)\<rparr>"
    using lease_run_refines [of lease_tracker_default ops] by simp
  have inv: "tracker_inv ?t" by (simp add: lease_run_inv)
  show ?thesis
    unfolding Let_def abs [symmetric]
    by (intro conjI allI refl queries_from_abs [OF inv])
qed

text \<open>
  A worker that polled and was given nothing is listed among the leasing workers, though it holds
  no lease.
\<close>

lemma empty_poll_is_listed:
  "w \<in> set (leasing_workers (record_lease w [] t)) \<and>
   ls_held (lease_abs (record_lease w [] t)) = ls_held (lease_abs t)"
  by (simp add: abs_record) (simp add: record_lease_def leasing_workers_def bt_keys_def bt_entry_upd_def)

end
