(* ===== verification/Kx_Coord_Core.thy ===== *)
theory Kx_Coord_Core
  imports Kx_Coord_Lease
begin

text \<open>
  The owner thread's state (\<open>crates/kx-coordinator/src/state.rs\<close>): the journal it alone writes, the
  projection folded from it, the watermark, the dispatch books and the hosted scheduler. Everything
  the thread records goes through one pattern, an append followed by the fold of the entry when it
  is new; the lemmas say that the pattern keeps the projection the fold of the whole journal.
\<close>

section \<open>State\<close>

record coord =
  cr_journal :: fjournal
  cr_projection :: pstate
  cr_folded_through :: u64
  cr_submitted :: "mote_id bset"
  cr_defs :: "(mote_id, mote \<times> warrant_spec) btree"
  cr_tracker :: lease_tracker
  cr_parked_launches :: "(mote_id, array16) btree"
  cr_parked_waits :: "(mote_id, array16) btree"
  cr_armed_timers :: "(mote_id, u64 \<times> u8 \<times> u32) btree"
  cr_parked_policied :: "(mote_id, array16) btree"
  cr_parked_guards :: "(mote_id, array16) btree"
  cr_scheduler :: "unit scheduler"
  cr_store :: "content_store option"

datatype coordinator_error =
    BadHashLength rstring nat
  | IdentityMismatch mote_id
  | ConvertErr
  | CoordUnknownWorker worker_id
  | UnknownMote mote_id
  | NotLeased mote_id worker_id
  | RunAlreadyStarted
  | RunNotRegistered
  | SubmissionRefused submission_refusal
  | ReactSeedRefused
  | ResultRefAbsent mote_id
  | TooManyParents nat nat
  | DataEdgeNonCascade
  | SchedulerErr scheduler_error
  | JournalErr
  | ProjectionErr projection_error
  | CoreUnavailable
  | CommitFailed

section \<open>Append and fold\<close>

abbreviation clog :: "coord \<Rightarrow> journal_entry list" where
  "clog c \<equiv> j_entries (fj_journal (cr_journal c))"

definition append_c :: "hash_fn \<Rightarrow> journal_entry \<Rightarrow> (journal_fault, journal_entry, coord) step" where
  "append_c blake3 e c =
     (case jo_append (fjournal_ops blake3) e (cr_journal c) of (r, j) \<Rightarrow> (r, c\<lparr>cr_journal := j\<rparr>))"

text \<open>A batch append fails or succeeds as a whole.\<close>

definition append_batch_c :: "hash_fn \<Rightarrow> journal_entry list \<Rightarrow> (journal_fault, journal_entry list, coord) step" where
  "append_batch_c blake3 es c =
     (let f = cr_journal c in
      case fj_append_fails f of
        True # rest \<Rightarrow> (Inl JournalFault, c\<lparr>cr_journal := f\<lparr>fj_append_fails := rest\<rparr>\<rparr>)
      | _ \<Rightarrow> (case append_batch blake3 es (fj_journal f) of
          (xs, j) \<Rightarrow> (Inr xs, c\<lparr>cr_journal := f\<lparr>fj_journal := j, fj_append_fails := tl (fj_append_fails f)\<rparr>\<rparr>)))"

text \<open>Fold an entry that lies past the watermark.\<close>

definition fold_durable :: "journal_entry \<Rightarrow> (projection_error, unit, coord) step" where
  "fold_durable durable c =
     (if entry_seq durable > cr_folded_through c
      then case fold_entry None durable (cr_projection c) of
          (Inl e, st) \<Rightarrow> (Inl e, c\<lparr>cr_projection := st\<rparr>)
        | (Inr _, st) \<Rightarrow> (Inr (), c\<lparr>cr_projection := st, cr_folded_through := entry_seq durable\<rparr>)
      else (Inr (), c))"

text \<open>The two ways the thread uses the pattern: passing errors on, or continuing after a logged one.\<close>

definition append_fold :: "hash_fn \<Rightarrow> journal_entry \<Rightarrow> (coordinator_error, u64, coord) step" where
  "append_fold blake3 e =
     then_st (err_st (\<lambda>_. JournalErr) (append_c blake3 e)) (\<lambda>durable.
     then_st (err_st ProjectionErr (fold_durable durable)) (\<lambda>_ c.
       (Inr (entry_seq durable), c)))"

definition append_then :: "hash_fn \<Rightarrow> journal_entry \<Rightarrow> (coord \<Rightarrow> coord) \<Rightarrow> coord \<Rightarrow> coord" where
  "append_then blake3 e k c =
     (case append_c blake3 e c of
        (Inl _, c') \<Rightarrow> c'
      | (Inr durable, c') \<Rightarrow> k (snd (fold_durable durable c')))"

lemma snd_err_st [simp]: "snd (err_st g m s) = snd (m s)"
  by (simp add: err_st_def split: prod.split)

section \<open>The invariant\<close>

text \<open>
  The log is a journal whose commits are keyed by their Mote. The projection is the result of
  folding exactly the log, with registrations in between, and the watermark is the head.
\<close>

definition tracks :: "pstate \<Rightarrow> journal_entry list \<Rightarrow> bool" where
  "tracks st log \<longleftrightarrow> (\<exists>ops. run_ops None ops pstate_default = Inr st \<and> entries_of ops = log)"

definition core_inv :: "hash_fn \<Rightarrow> coord \<Rightarrow> bool" where
  "core_inv blake3 c \<longleftrightarrow> journal_inv blake3 (fj_journal (cr_journal c)) \<and> (\<forall>e \<in> set (clog c). well_keyed e) \<and>
     tracks (cr_projection c) (clog c) \<and> cr_folded_through c = current_seq (fj_journal (cr_journal c))"

text \<open>
  What every operation of the thread does: the log grows at its end, by entries of a given sort,
  and the invariant is kept while sequence numbers last.
\<close>

definition has_room :: "coord \<Rightarrow> bool" where
  "has_room c \<longleftrightarrow> length (clog c) + 1 < 2 ^ 64"

definition advances :: "hash_fn \<Rightarrow> (journal_entry \<Rightarrow> bool) \<Rightarrow> coord \<Rightarrow> coord \<Rightarrow> bool" where
  "advances blake3 P c c' \<longleftrightarrow> (\<exists>new. clog c' = clog c @ new \<and> (\<forall>e \<in> set new. P e)) \<and>
     (core_inv blake3 c \<longrightarrow> has_room c' \<longrightarrow> core_inv blake3 c')"

lemma advances_refl: "reflp (advances blake3 P)"
  by (simp add: reflp_def advances_def)

lemma advances_self [simp]: "advances blake3 P c c"
  by (simp add: advances_def)

lemma advances_prefix: "advances blake3 P c c' \<Longrightarrow> prefix (clog c) (clog c')"
  by (auto simp: advances_def)

lemma has_room_mono: "prefix (clog c) (clog c') \<Longrightarrow> has_room c' \<Longrightarrow> has_room c"
  by (auto simp: has_room_def prefix_def)

lemma advances_trans: "transp (advances blake3 P)"
proof (rule transpI)
  fix a b c
  assume ab: "advances blake3 P a b" and bc: "advances blake3 P b c"
  from ab obtain x where x: "clog b = clog a @ x" "\<forall>e \<in> set x. P e" by (auto simp: advances_def)
  from bc obtain y where y: "clog c = clog b @ y" "\<forall>e \<in> set y. P e" by (auto simp: advances_def)
  have "\<exists>new. clog c = clog a @ new \<and> (\<forall>e \<in> set new. P e)"
    using x y by (intro exI [of _ "x @ y"]) auto
  moreover have "core_inv blake3 a \<longrightarrow> has_room c \<longrightarrow> core_inv blake3 c"
    using ab bc has_room_mono [OF advances_prefix [OF bc]] by (auto simp: advances_def)
  ultimately show "advances blake3 P a c" by (simp add: advances_def)
qed

lemma advances_transD: "advances blake3 P a b \<Longrightarrow> advances blake3 P b c \<Longrightarrow> advances blake3 P a c"
  using advances_trans [of blake3 P] by (rule transpD)

lemma advances_mono: "advances blake3 P c c' \<Longrightarrow> (\<And>e. P e \<Longrightarrow> Q e) \<Longrightarrow> advances blake3 Q c c'"
  by (auto simp: advances_def)

lemma advances_inv: "advances blake3 P c c' \<Longrightarrow> core_inv blake3 c \<Longrightarrow> has_room c' \<Longrightarrow> core_inv blake3 c'"
  by (simp add: advances_def)

lemma advances_fold:
  assumes "\<And>x c. advances blake3 P c (f x c)"
  shows "advances blake3 P c (fold f xs c)"
proof (induction xs arbitrary: c)
  case (Cons x xs)
  then show ?case using advances_transD [OF assms Cons.IH] by simp
qed simp

text \<open>Changes to the books and to the projection's declarations leave the journal alone.\<close>

definition books_only :: "coord \<Rightarrow> coord \<Rightarrow> bool" where
  "books_only c c' \<longleftrightarrow> cr_journal c' = cr_journal c \<and> cr_projection c' = cr_projection c \<and>
     cr_folded_through c' = cr_folded_through c"

lemma books_only_advances: "books_only c c' \<Longrightarrow> advances blake3 P c c'"
  by (simp add: books_only_def advances_def core_inv_def has_room_def)

lemma tracks_register: "tracks st log \<Longrightarrow> tracks (register_mote reg st) log"
proof -
  assume "tracks st log"
  then obtain ops where "run_ops None ops pstate_default = Inr st" "entries_of ops = log" by (auto simp: tracks_def)
  then show ?thesis
    unfolding tracks_def by (intro exI [of _ "ops @ [Register reg]"]) (simp add: run_ops_append)
qed

lemma register_advances:
  assumes "cr_journal c' = cr_journal c" "cr_folded_through c' = cr_folded_through c"
    and "cr_projection c' = register_mote reg (cr_projection c)"
  shows "advances blake3 P c c'"
  using assms by (simp add: advances_def core_inv_def tracks_register)

text \<open>A core over an empty journal, with the given backend faults, admitted Motes and store.\<close>

definition fresh_core :: "bool list \<Rightarrow> mote_id bset \<Rightarrow> content_store option \<Rightarrow> coord" where
  "fresh_core fails submitted store =
     \<lparr>cr_journal = \<lparr>fj_journal = journal_new, fj_append_fails = fails, fj_read_fails = False\<rparr>,
      cr_projection = pstate_default, cr_folded_through = 0, cr_submitted = submitted, cr_defs = [],
      cr_tracker = lease_tracker_default, cr_parked_launches = [], cr_parked_waits = [], cr_armed_timers = [],
      cr_parked_policied = [], cr_parked_guards = [], cr_scheduler = scheduler_new (), cr_store = store\<rparr>"

lemma tracks_nothing: "tracks pstate_default []"
  unfolding tracks_def by (intro exI [of _ "[]"]) simp

lemma fresh_core_inv: "core_inv blake3 (fresh_core fails submitted store)"
  using tracks_nothing
  by (simp add: core_inv_def fresh_core_def journal_inv_new) (simp add: journal_new_def current_seq_def)

section \<open>The pattern keeps the invariant\<close>

lemma well_keyed_stored: "well_keyed (set_seq n (derive_key blake3 e)) = well_keyed e"
  by (cases e) simp_all

lemma core_invD:
  assumes "core_inv blake3 c"
  shows "journal_inv blake3 (fj_journal (cr_journal c))" "\<forall>e \<in> set (clog c). well_keyed e"
    "tracks (cr_projection c) (clog c)" "cr_folded_through c = of_nat (length (clog c))" "one_commit i (clog c)"
  using assms unique_keys_one_commit [of "clog c" i] by (simp_all add: core_inv_def journal_inv_def current_seq_def)

lemma recorded_seq_le:
  assumes "core_inv blake3 c" "has_room c" "e \<in> set (clog c)"
  shows "entry_seq e \<le> cr_folded_through c"
proof -
  obtain k where k: "k < length (clog c)" "e = clog c ! k"
    using assms(3) by (auto simp: in_set_conv_nth)
  have "entry_seq e = of_nat (Suc k)"
    using core_invD(1) [OF assms(1)] k by (simp add: journal_inv_def seqs_dense_def)
  then show ?thesis
    using k assms(2) by (simp add: core_invD(4) [OF assms(1)] word_le_nat_alt unat_of_nat_small has_room_def del: of_nat_Suc)
qed

lemma tracks_fold:
  assumes "tracks st log" and "\<And>i. one_commit i (log @ [e])"
  obtains st' where "fold_entry None e st = (Inr (st_last_seq st), st')" "tracks st' (log @ [e])"
proof -
  obtain ops where ops: "run_ops None ops pstate_default = Inr st" "entries_of ops = log"
    using assms(1) by (auto simp: tracks_def)
  obtain st' where st': "run_ops None (ops @ [FoldE e]) pstate_default = Inr st'"
    using run_ops_no_error [of "ops @ [FoldE e]"] assms(2) ops by auto
  then have "run_ops None [FoldE e] st = Inr st'"
    using ops by (simp add: run_ops_append)
  then have "fold_step None e st = (Inr (), st')"
    by (simp add: run_ops_FoldE del: run_ops.simps)
  then have "fold_entry None e st = (Inr (st_last_seq st), st')"
    by (simp add: fold_entry_def)
  moreover have "tracks st' (log @ [e])"
    using st' ops unfolding tracks_def by (intro exI [of _ "ops @ [FoldE e]"]) simp
  ultimately show thesis by (rule that)
qed

text \<open>
  One append and fold without a fault: the fact is recorded already and nothing changes, or it is
  recorded at the next number and folded.
\<close>

abbreviation cjournal :: "coord \<Rightarrow> journal" where
  "cjournal c \<equiv> fj_journal (cr_journal c)"

definition with_journal :: "journal \<Rightarrow> coord \<Rightarrow> coord" where
  "with_journal j c = c\<lparr>cr_journal := (cr_journal c)\<lparr>fj_journal := j\<rparr>\<rparr>"

lemma core_inv_cong:
  assumes "cjournal c' = cjournal c" "cr_projection c' = cr_projection c" "cr_folded_through c' = cr_folded_through c"
  shows "core_inv blake3 c' = core_inv blake3 c"
  using assms by (simp add: core_inv_def)

lemma commit_one_cases:
  assumes "core_inv blake3 c" "has_room c" "well_keyed e"
  obtains (hit) x where "append_entry blake3 e (cjournal c) = (x, cjournal c)" "x \<in> set (clog c)"
      "same_fact (derive_key blake3 e) x" "dedupes e" "\<not> cr_folded_through c < entry_seq x"
  | (new) x j st where "append_entry blake3 e (cjournal c) = (x, j)" "j_entries j = clog c @ [x]"
      "x = set_seq (of_nat (Suc (length (clog c)))) (derive_key blake3 e)" "cr_folded_through c < entry_seq x"
      "fold_entry None x (cr_projection c) = (Inr (st_last_seq (cr_projection c)), st)"
      "core_inv blake3 ((with_journal j c)\<lparr>cr_projection := st, cr_folded_through := entry_seq x\<rparr>)"
      "existing (clog c) (derive_key blake3 e) = None"
proof -
  note inv = core_invD [OF assms(1)]
  show thesis
  proof (cases rule: append_entry_cases [of blake3 e "cjournal c"])
    case (hit x)
    then show thesis
      using recorded_seq_le [OF assms(1,2) hit(2)] by (intro that(1) [of x]) simp_all
  next
    case new
    let ?x = "set_seq (j_next_seq (cjournal c) + 1) (derive_key blake3 e)"
    let ?j' = "(cjournal c)\<lparr>j_entries := clog c @ [?x], j_next_seq := j_next_seq (cjournal c) + 1\<rparr>"
    have next_seq: "j_next_seq (cjournal c) + 1 = of_nat (Suc (length (clog c)))"
      using inv(1) by (simp add: journal_inv_def)
    have j': "journal_inv blake3 ?j'"
      using append_entry_inv [OF inv(1), of e] new(2) by simp
    have wk: "\<forall>y \<in> set (clog c @ [?x]). well_keyed y"
      using inv(2) assms(3) by (auto simp: well_keyed_stored)
    have "facts_unique (j_entries ?j')"
      using j' unfolding journal_inv_def by blast
    then have "facts_unique (clog c @ [?x])" by simp
    from unique_keys_one_commit [OF this wk] have "one_commit i (clog c @ [?x])" for i .
    from tracks_fold [OF inv(3) this] obtain st' where
      st': "fold_entry None ?x (cr_projection c) = (Inr (st_last_seq (cr_projection c)), st')" "tracks st' (clog c @ [?x])" .
    have gt: "cr_folded_through c < entry_seq ?x"
      using assms(2) by (simp add: inv(4) next_seq word_less_nat_alt unat_of_nat_small has_room_def del: of_nat_Suc)
    have "core_inv blake3 ((with_journal ?j' c)\<lparr>cr_projection := st', cr_folded_through := entry_seq ?x\<rparr>)"
      using j' wk st'(2) by (simp add: core_inv_def current_seq_def with_journal_def)
    moreover have "?x = set_seq (of_nat (Suc (length (clog c)))) (derive_key blake3 e)"
      by (simp add: next_seq)
    ultimately show thesis
      using that(2) [OF new(2) _ _ gt st'(1) _ new(1)] by simp
  qed
qed

text \<open>The same through the backend that may refuse the append.\<close>

lemma append_c_cases:
  obtains (fault) f where "append_c blake3 e c = (Inl JournalFault, c\<lparr>cr_journal := f\<rparr>)" "fj_journal f = cjournal c"
  | (ok) x j f where "append_c blake3 e c = (Inr x, c\<lparr>cr_journal := f\<rparr>)" "fj_journal f = j"
      "append_entry blake3 e (cjournal c) = (x, j)"
proof (cases "\<exists>rest. fj_append_fails (cr_journal c) = True # rest")
  case True
  then obtain rest where "fj_append_fails (cr_journal c) = True # rest" by blast
  then show thesis
    by (intro fault [of "(cr_journal c)\<lparr>fj_append_fails := rest\<rparr>"]) (simp_all add: append_c_def fjournal_ops_def)
next
  case False
  obtain x j where a: "append_entry blake3 e (cjournal c) = (x, j)" by fastforce
  let ?f = "(cr_journal c)\<lparr>fj_journal := j, fj_append_fails := tl (fj_append_fails (cr_journal c))\<rparr>"
  have "append_c blake3 e c = (Inr x, c\<lparr>cr_journal := ?f\<rparr>)"
    using False a by (auto simp: append_c_def fjournal_ops_def split: list.splits bool.splits)
  then show thesis using a by (intro ok [of x ?f j]) simp_all
qed

text \<open>Outside the invariant the log still only grows.\<close>

definition stored_as :: "hash_fn \<Rightarrow> journal_entry \<Rightarrow> journal_entry \<Rightarrow> bool" where
  "stored_as blake3 e x \<longleftrightarrow> (\<exists>n. x = set_seq n (derive_key blake3 e))"

lemma fold_durable_journal [simp]: "cr_journal (snd (fold_durable x c)) = cr_journal c"
  by (auto simp: fold_durable_def split: prod.splits sum.splits)

lemma append_c_log:
  assumes "append_c blake3 e c = (r, c')"
  shows "\<exists>new. clog c' = clog c @ new \<and> (\<forall>x \<in> set new. stored_as blake3 e x)"
proof (cases rule: append_c_cases [of blake3 e c])
  case (ok x j f)
  have "\<exists>new. j_entries j = clog c @ new \<and> (\<forall>x \<in> set new. stored_as blake3 e x)"
    using ok(3) by (cases rule: append_entry_cases [of blake3 e "cjournal c"]) (auto simp: stored_as_def)
  then show ?thesis using ok assms by simp
qed (use assms in simp)

lemma append_fold_advances:
  assumes "well_keyed e" and "\<And>x. stored_as blake3 e x \<Longrightarrow> P x"
    and "append_c blake3 e c = (r, c1)"
    and "c' = (case r of Inl _ \<Rightarrow> c1 | Inr durable \<Rightarrow> snd (fold_durable durable c1))"
  shows "advances blake3 P c c'"
proof -
  have "clog c' = clog c1" by (simp add: assms(4) split: sum.splits)
  then have log: "\<exists>new. clog c' = clog c @ new \<and> (\<forall>x \<in> set new. P x)"
    using append_c_log [OF assms(3)] assms(2) by auto
  moreover have "core_inv blake3 c'" if inv: "core_inv blake3 c" and room: "has_room c'"
  proof (cases rule: append_c_cases [of blake3 e c])
    case (fault f)
    then have "cjournal c' = cjournal c" "cr_projection c' = cr_projection c" "cr_folded_through c' = cr_folded_through c"
      using assms(3,4) by auto
    then show ?thesis using inv by (simp add: core_inv_def)
  next
    case (ok x j f)
    have "has_room c" using log room by (auto simp: has_room_def)
    from inv this assms(1) show ?thesis
    proof (cases rule: commit_one_cases)
      case (hit y)
      then have "cjournal c' = cjournal c" "cr_projection c' = cr_projection c" "cr_folded_through c' = cr_folded_through c"
        using ok assms(3,4) by (auto simp: fold_durable_def)
      then show ?thesis using inv by (simp add: core_inv_def)
    next
      case (new y j' st)
      then show ?thesis
        using ok assms(3,4) core_inv_cong [of c' "(with_journal j' c)\<lparr>cr_projection := st, cr_folded_through := entry_seq y\<rparr>"]
        by (simp add: fold_durable_def with_journal_def)
    qed
  qed
  ultimately show ?thesis by (simp add: advances_def)
qed

lemma append_fold_runs:
  assumes "well_keyed e" and "\<And>x. stored_as blake3 e x \<Longrightarrow> P x"
  shows "runs (advances blake3 P) (append_fold blake3 e)"
  unfolding runs_snd
proof
  fix c
  obtain r c1 where a: "append_c blake3 e c = (r, c1)" by fastforce
  have "snd (append_fold blake3 e c) = (case r of Inl _ \<Rightarrow> c1 | Inr durable \<Rightarrow> snd (fold_durable durable c1))"
    using a by (auto simp: append_fold_def then_st_def err_st_def map_err_def split: sum.splits prod.splits)
  from append_fold_advances [OF assms a this] show "advances blake3 P c (snd (append_fold blake3 e c))" .
qed

lemma append_then_advances:
  assumes "well_keyed e" and "\<And>x. stored_as blake3 e x \<Longrightarrow> P x" and "\<And>c. advances blake3 P c (k c)"
  shows "advances blake3 P c (append_then blake3 e k c)"
proof -
  obtain r c1 where a: "append_c blake3 e c = (r, c1)" by fastforce
  let ?c2 = "case r of Inl _ \<Rightarrow> c1 | Inr durable \<Rightarrow> snd (fold_durable durable c1)"
  have "advances blake3 P c ?c2"
    by (rule append_fold_advances [OF assms(1,2) a refl])
  moreover have "advances blake3 P ?c2 (append_then blake3 e k c)"
    using a assms(3) by (auto simp: append_then_def split: sum.splits)
  ultimately show ?thesis by (rule advances_transD)
qed

section \<open>Batches\<close>

text \<open>Folding the entries a batch append returned, and the same batch one entry at a time.\<close>

fun fold_new :: "journal_entry list \<Rightarrow> (projection_error, unit, coord) step" where
  "fold_new [] c = (Inr (), c)"
| "fold_new (x # xs) c = then_st (fold_durable x) (\<lambda>_. fold_new xs) c"

definition commit_one :: "hash_fn \<Rightarrow> journal_entry \<Rightarrow> coord \<Rightarrow> journal_entry \<times> coord" where
  "commit_one blake3 e c =
     (let (x, j) = append_entry blake3 e (cjournal c) in (x, snd (fold_durable x (with_journal j c))))"

fun commit_each :: "hash_fn \<Rightarrow> journal_entry list \<Rightarrow> coord \<Rightarrow> journal_entry list \<times> coord" where
  "commit_each blake3 [] c = ([], c)"
| "commit_each blake3 (e # es) c =
     (let (x, c1) = commit_one blake3 e c; (xs, c2) = commit_each blake3 es c1 in (x # xs, c2))"

lemma with_journal_simps [simp]:
  "cjournal (with_journal j c) = j" "with_journal j (with_journal j' c) = with_journal j c"
  "with_journal (cjournal c) c = c"
  "cr_projection (with_journal j c) = cr_projection c" "cr_folded_through (with_journal j c) = cr_folded_through c"
  "cr_tracker (with_journal j c) = cr_tracker c" "cr_defs (with_journal j c) = cr_defs c"
  "cr_submitted (with_journal j c) = cr_submitted c" "cr_store (with_journal j c) = cr_store c"
  by (simp_all add: with_journal_def)

lemma fold_durable_with_journal:
  "fold_durable x (with_journal j c) = (fst (fold_durable x c), with_journal j (snd (fold_durable x c)))"
  by (auto simp: fold_durable_def with_journal_def split: prod.splits sum.splits)

text \<open>One step, with what it recorded.\<close>

lemma commit_one_step:
  assumes "core_inv blake3 c" "has_room c" "well_keyed e" "commit_one blake3 e c = (x, c1)"
  obtains (hit) "append_entry blake3 e (cjournal c) = (x, cjournal c)" "x \<in> set (clog c)" "same_fact (derive_key blake3 e) x"
      "dedupes e" "\<not> cr_folded_through c < entry_seq x" "c1 = c" "fold_durable x c = (Inr (), c)"
  | (new) j st where "append_entry blake3 e (cjournal c) = (x, j)" "j_entries j = clog c @ [x]"
      "x = set_seq (of_nat (Suc (length (clog c)))) (derive_key blake3 e)" "cr_folded_through c < entry_seq x"
      "fold_entry None x (cr_projection c) = (Inr (st_last_seq (cr_projection c)), st)"
      "c1 = (with_journal j c)\<lparr>cr_projection := st, cr_folded_through := entry_seq x\<rparr>"
      "fold_durable x (with_journal j c) = (Inr (), c1)" "core_inv blake3 c1"
      "existing (clog c) (derive_key blake3 e) = None"
  using assms(1-3)
proof (cases rule: commit_one_cases)
  case (hit y)
  then have "fold_durable y c = (Inr (), c)" by (simp add: fold_durable_def)
  moreover from this have "x = y" "c1 = c" using hit(1) assms(4) by (simp_all add: commit_one_def)
  ultimately show ?thesis using hit by (intro that(1)) simp_all
next
  case (new y j st)
  let ?c1 = "(with_journal j c)\<lparr>cr_projection := st, cr_folded_through := entry_seq y\<rparr>"
  have fd: "fold_durable y (with_journal j c) = (Inr (), ?c1)"
    using new by (simp add: fold_durable_def)
  then have "commit_one blake3 e c = (y, ?c1)" using new(1) by (simp add: commit_one_def)
  then have xc: "x = y" "c1 = ?c1" using assms(4) by simp_all
  show ?thesis unfolding xc by (rule that(2) [unfolded xc, OF new(1-5) refl fd new(6,7)])
qed

lemma commit_one_facts:
  assumes "core_inv blake3 c" "has_room c" "well_keyed e" "commit_one blake3 e c = (x, c1)"
    and "append_entry blake3 e (cjournal c) = (y, j)"
  shows "y = x" "core_inv blake3 c1" "cjournal c1 = j" "length (clog c1) \<le> Suc (length (clog c))"
    "fold_durable x (with_journal j c) = (Inr (), c1)"
  using assms(1-4) by (cases rule: commit_one_step; use assms(1,5) in simp)+

lemma append_all_log:
  "append_all blake3 es j = (xs, j') \<Longrightarrow>
     \<exists>new. j_entries j' = j_entries j @ new \<and> (\<forall>x \<in> set new. \<exists>e \<in> set es. stored_as blake3 e x)"
proof (induction es arbitrary: j xs)
  case (Cons e es)
  obtain x j1 xs' where a: "append_entry blake3 e j = (x, j1)" "append_all blake3 es j1 = (xs', j')"
    using Cons.prems by (auto split: prod.splits)
  have "\<exists>new. j_entries j1 = j_entries j @ new \<and> (\<forall>x \<in> set new. stored_as blake3 e x)"
    using a(1) by (cases rule: append_entry_cases [of blake3 e j]) (auto simp: stored_as_def)
  then obtain n1 where n1: "j_entries j1 = j_entries j @ n1" "\<forall>x \<in> set n1. stored_as blake3 e x" by blast
  obtain n2 where n2: "j_entries j' = j_entries j1 @ n2" "\<forall>x \<in> set n2. \<exists>e \<in> set es. stored_as blake3 e x"
    using Cons.IH [OF a(2)] by blast
  show ?case
    using n1 n2 by (intro exI [of _ "n1 @ n2"]) auto
qed simp

lemma commit_each_journal: "commit_each blake3 es c = (xs, c') \<Longrightarrow> cjournal c' = snd (append_all blake3 es (cjournal c))"
proof (induction es arbitrary: c xs)
  case (Cons e es)
  obtain x j where a: "append_entry blake3 e (cjournal c) = (x, j)" by fastforce
  let ?c1 = "snd (fold_durable x (with_journal j c))"
  have "commit_one blake3 e c = (x, ?c1)" "cjournal ?c1 = j" using a by (simp_all add: commit_one_def)
  then show ?case
    using Cons a by (auto split: prod.splits)
qed simp

lemma commit_each_log:
  assumes "commit_each blake3 es c = (xs, c')"
  shows "\<exists>new. clog c' = clog c @ new \<and> (\<forall>x \<in> set new. \<exists>e \<in> set es. stored_as blake3 e x)"
  using append_all_log [of blake3 es "cjournal c"] commit_each_journal [OF assms] by (metis prod.collapse)

lemma batch_is_each:
  assumes "core_inv blake3 c" "length (j_entries j) + 1 < 2 ^ 64" "\<forall>e \<in> set es. well_keyed e"
    and "append_all blake3 es (cjournal c) = (xs, j)" and "commit_each blake3 es c = (ys, c')"
  shows "ys = xs \<and> fold_new xs (with_journal j c) = (Inr (), c') \<and> core_inv blake3 c'"
  using assms
proof (induction es arbitrary: c xs ys)
  case (Cons e es)
  obtain x j1 where a: "append_entry blake3 e (cjournal c) = (x, j1)" by fastforce
  obtain x' c1 where o: "commit_one blake3 e c = (x', c1)" by fastforce
  have room: "has_room c" and wk: "well_keyed e" "\<forall>e \<in> set es. well_keyed e"
    using Cons.prems append_all_log [OF Cons.prems(4)] by (auto simp: has_room_def)
  note f = commit_one_facts [OF Cons.prems(1) room wk(1) o a]
  obtain xs' ys' where tl: "append_all blake3 es (cjournal c1) = (xs', j)" "xs = x # xs'"
      "commit_each blake3 es c1 = (ys', c')" "ys = x # ys'"
    using Cons.prems(4,5) a o f(1,3) by (auto split: prod.splits)
  have "ys' = xs' \<and> fold_new xs' (with_journal j c1) = (Inr (), c') \<and> core_inv blake3 c'"
    by (rule Cons.IH [OF f(2) Cons.prems(2) wk(2) tl(1,3)])
  moreover have "fold_durable x (with_journal j c) = (Inr (), with_journal j c1)"
    using f(1,5) fold_durable_with_journal [of x j "with_journal j1 c"] by simp
  ultimately show ?case
    using tl by (simp add: then_st_def)
qed (auto simp: with_journal_def)

text \<open>The batch append behind the backend.\<close>

lemma append_batch_c_cases:
  obtains (fault) f where "append_batch_c blake3 es c = (Inl JournalFault, c\<lparr>cr_journal := f\<rparr>)" "fj_journal f = cjournal c"
  | (ok) xs j f where "append_batch_c blake3 es c = (Inr xs, c\<lparr>cr_journal := f\<rparr>)" "fj_journal f = j"
      "append_all blake3 es (cjournal c) = (xs, j)" "c\<lparr>cr_journal := f\<rparr> = with_journal j (c\<lparr>cr_journal := f\<rparr>)"
proof (cases "\<exists>rest. fj_append_fails (cr_journal c) = True # rest")
  case True
  then obtain rest where "fj_append_fails (cr_journal c) = True # rest" by blast
  then show thesis
    by (intro fault [of "(cr_journal c)\<lparr>fj_append_fails := rest\<rparr>"]) (simp_all add: append_batch_c_def)
next
  case False
  obtain xs j where a: "append_all blake3 es (cjournal c) = (xs, j)" by fastforce
  let ?f = "(cr_journal c)\<lparr>fj_journal := j, fj_append_fails := tl (fj_append_fails (cr_journal c))\<rparr>"
  have "append_batch_c blake3 es c = (Inr xs, c\<lparr>cr_journal := ?f\<rparr>)"
    using False a by (auto simp: append_batch_c_def append_batch_eq_append_all Let_def split: list.splits bool.splits)
  then show thesis using a by (intro ok [of xs ?f j]) (simp_all add: with_journal_def)
qed

text \<open>A batch append followed by the fold of what it returned: nothing happens, or all of it does.\<close>

lemma fold_new_journal [simp]: "cr_journal (snd (fold_new xs c)) = cr_journal c"
proof (induction xs arbitrary: c)
  case (Cons x xs)
  then show ?case
    using fold_durable_journal [of x c] by (auto simp: then_st_def simp del: fold_durable_journal split: prod.splits sum.splits)
qed simp

lemma batch_fold_cases:
  assumes "core_inv blake3 c" "\<forall>e \<in> set es. well_keyed e"
  obtains (fault) c1 where "append_batch_c blake3 es c = (Inl JournalFault, c1)" "core_inv blake3 c1" "clog c1 = clog c"
      "cr_projection c1 = cr_projection c"
  | (ok) xs c1 c' where "append_batch_c blake3 es c = (Inr xs, c1)" "append_all blake3 es (cjournal c) = (xs, cjournal c1)"
      "cr_journal c' = cr_journal c1" "c' = snd (fold_new xs c1)"
      "has_room c' \<Longrightarrow> fold_new xs c1 = (Inr (), c') \<and> core_inv blake3 c'"
proof (cases rule: append_batch_c_cases [of blake3 es c])
  case (fault f)
  then show thesis
    using assms(1) by (intro that(1) [OF fault(1)]) (simp_all add: core_inv_def)
next
  case (ok xs j f)
  let ?c1 = "c\<lparr>cr_journal := f\<rparr>" and ?c0 = "with_journal (cjournal c) (c\<lparr>cr_journal := f\<rparr>)"
  obtain ys c' where each: "commit_each blake3 es ?c0 = (ys, c')" by fastforce
  have inv: "core_inv blake3 ?c0" using assms(1) by (simp add: core_inv_def with_journal_def)
  have "fold_new xs ?c1 = (Inr (), c') \<and> core_inv blake3 c'" if "has_room (snd (fold_new xs ?c1))"
  proof -
    have len: "length (j_entries j) + 1 < 2 ^ 64" using that ok(2) by (simp add: has_room_def)
    have "append_all blake3 es (cjournal ?c0) = (xs, j)" using ok(3) by simp
    from batch_is_each [OF inv len assms(2) this each] show ?thesis
      using ok(4) by simp
  qed
  then show thesis
    using ok by (intro that(2) [of xs ?c1 "snd (fold_new xs ?c1)"]) auto
qed

end
