(* ===== verification/Kx_Coord_Commit.thy ===== *)
theory Kx_Coord_Commit
  imports Kx_Coord_Core
begin

text \<open>
  The commit path of the coordinator (\<open>crates/kx-coordinator/src/state.rs\<close>, \<open>flush_commits\<close> and
  \<open>apply_batch\<close>): queued proposals are admitted one by one, appended in one journal transaction and
  folded; a committed topology shaper then admits the children its decision names. Deriving those
  children is a parameter.
\<close>

section \<open>Admitting Motes\<close>

text \<open>Persisting a definition is best effort and infallible on the in-memory store.\<close>

definition persist_def :: "codec \<Rightarrow> mote_def \<Rightarrow> coord \<Rightarrow> coord" where
  "persist_def cd d c =
     c\<lparr>cr_store := map_option (\<lambda>st. snd (store_put (cd_blake3 cd) (cd_enc_def cd d) st)) (cr_store c)\<rparr>"

definition admit :: "codec \<Rightarrow> mote \<Rightarrow> warrant_spec \<Rightarrow> register_mote_req \<Rightarrow> coord \<Rightarrow> coord" where
  "admit cd m warrant reg c =
     (let c1 = persist_def cd (m_def m) c in
      c1\<lparr>cr_projection := register_mote reg (cr_projection c1),
         cr_submitted := bs_insert (m_id m) (cr_submitted c1),
         cr_defs := bt_insert (m_id m) (m, warrant) (cr_defs c1)\<rparr>)"

type_synonym derive_children =
  "mote_id \<Rightarrow> mote_def \<Rightarrow> content_ref \<Rightarrow> warrant_spec \<Rightarrow> (mote \<times> warrant_spec \<times> register_mote_req) list option"

definition materialize_committed_shaper ::
  "codec \<Rightarrow> derive_children \<Rightarrow> mote_id \<Rightarrow> mote_def \<Rightarrow> warrant_spec \<Rightarrow> coord \<Rightarrow> coord"
where
  "materialize_committed_shaper cd derive shaper_mote_id shaper_def shaper_warrant c =
     (case result_ref_of (cr_projection c) shaper_mote_id of
        None \<Rightarrow> c
      | Some result_ref \<Rightarrow>
          (case derive shaper_mote_id shaper_def result_ref shaper_warrant of
             None \<Rightarrow> c
           | Some children \<Rightarrow> fold (\<lambda>(m, w, reg). admit cd m w reg) children c))"

section \<open>Group commit\<close>

record commit_proposal =
  cp_mote_id :: mote_id
  cp_idempotency_key :: array32
  cp_result_ref :: content_ref
  cp_warrant_ref :: content_ref
  cp_mote_def_hash :: mote_def_hash
  cp_nd_class :: nd_class
  cp_parents :: "parent_entry list"

record commit_applied =
  ca_committed_seq :: u64
  ca_already_committed :: bool

definition committed_entry_of :: "commit_proposal \<Rightarrow> journal_entry" where
  "committed_entry_of p =
     Committed \<lparr>c_mote_id = cp_mote_id p, c_idempotency_key = cp_idempotency_key p, c_seq = 0,
       c_nondeterminism = cp_nd_class p, c_result_ref = cp_result_ref p, c_parents = cp_parents p,
       c_warrant_ref = cp_warrant_ref p, c_mote_def_hash = cp_mote_def_hash p\<rparr>"

fun apply_loop ::
  "u64 \<Rightarrow> journal_entry list \<Rightarrow> u64 bset \<Rightarrow> commit_applied list \<Rightarrow> (projection_error, commit_applied list, coord) step"
where
  "apply_loop seq_before [] new_seqs applied c = (Inr applied, c)"
| "apply_loop seq_before (x # xs) new_seqs applied c =
     (let seq = entry_seq x; is_new = (seq > seq_before \<and> seq \<notin> set new_seqs);
          new_seqs' = (if seq > seq_before then bs_insert seq new_seqs else new_seqs);
          applied' = applied @ [\<lparr>ca_committed_seq = seq, ca_already_committed = \<not> is_new\<rparr>]
      in if is_new
         then case fold_entry None x (cr_projection c) of
             (Inl e, st) \<Rightarrow> (Inl e, c\<lparr>cr_projection := st\<rparr>)
           | (Inr _, st) \<Rightarrow> apply_loop seq_before xs new_seqs' applied'
               (c\<lparr>cr_projection := st, cr_folded_through := seq\<rparr>)
         else apply_loop seq_before xs new_seqs' applied' c)"

text \<open>Both faults become a message.\<close>

definition apply_batch :: "hash_fn \<Rightarrow> journal_entry list \<Rightarrow> (unit, commit_applied list, coord) step" where
  "apply_batch blake3 entries c =
     (let seq_before = cr_folded_through c in
      then_st (err_st (\<lambda>_. ()) (append_batch_c blake3 entries)) (\<lambda>durable.
        err_st (\<lambda>_. ()) (apply_loop seq_before durable [] [])) c)"

definition commit_admission :: "coord \<Rightarrow> commit_proposal \<Rightarrow> coordinator_error option" where
  "commit_admission c p =
     (if cp_mote_id p \<notin> set (cr_submitted c) then Some (UnknownMote (cp_mote_id p))
      else if (case cr_store c of None \<Rightarrow> False | Some st \<Rightarrow> \<not> store_contains st (cp_result_ref p))
           then Some (ResultRefAbsent (cp_mote_id p))
      else None)"

definition settle_commit :: "codec \<Rightarrow> derive_children option \<Rightarrow> mote_id \<Rightarrow> coord \<Rightarrow> coord" where
  "settle_commit cd roles i c =
     (let c1 = (case (cr_store c, roles, map_of (cr_defs c) i) of
                  (Some _, Some derive, Some (m, w)) \<Rightarrow>
                    if md_is_topology_shaper (m_def m) then materialize_committed_shaper cd derive i (m_def m) w c else c
                | _ \<Rightarrow> c)
      in c1\<lparr>cr_defs := bt_remove i (cr_defs c1), cr_tracker := resolve_committed i (cr_tracker c1)\<rparr>)"

text \<open>The replies, in the order of the proposals: a refusal, or the next answer of the batch.\<close>

fun fill_replies :: "'e option list \<Rightarrow> ('e, 'a) result list \<Rightarrow> ('e, 'a) result list" where
  "fill_replies [] rs = []"
| "fill_replies (Some e # vs) rs = Inl e # fill_replies vs rs"
| "fill_replies (None # vs) rs = (case rs of [] \<Rightarrow> fill_replies vs [] | r # rs' \<Rightarrow> r # fill_replies vs rs')"

definition flush_commits ::
  "codec \<Rightarrow> derive_children option \<Rightarrow> commit_proposal list \<Rightarrow> coord \<Rightarrow>
     (coordinator_error, commit_applied) result list \<times> coord"
where
  "flush_commits cd roles pending c =
     (let verdicts = map (commit_admission c) pending;
          admitted = filter (\<lambda>p. commit_admission c p = None) pending
      in if admitted = [] then (fill_replies verdicts [], c)
         else case apply_batch (cd_blake3 cd) (map committed_entry_of admitted) c of
             (Inr applied, c') \<Rightarrow>
               (fill_replies verdicts (map Inr applied), fold (settle_commit cd roles) (map cp_mote_id admitted) c')
           | (Inl _, c') \<Rightarrow> (fill_replies verdicts (map (\<lambda>_. Inl CommitFailed) admitted), c'))"

section \<open>The batch is its entries, one at a time\<close>

fun applied_each :: "hash_fn \<Rightarrow> journal_entry list \<Rightarrow> coord \<Rightarrow> commit_applied list" where
  "applied_each blake3 [] c = []"
| "applied_each blake3 (e # es) c =
     (let (x, c1) = commit_one blake3 e c
      in \<lparr>ca_committed_seq = entry_seq x, ca_already_committed = \<not> cr_folded_through c < entry_seq x\<rparr>
         # applied_each blake3 es c1)"

lemma next_seq_set:
  assumes "n + 1 < 2 ^ 64" and "b \<le> of_nat n"
  shows "insert (of_nat (Suc n)) {s. b < s \<and> s \<le> of_nat n} = {s. b < s \<and> s \<le> (of_nat (Suc n) :: u64)}"
proof -
  have "unat (of_nat n :: u64) = n" "unat (of_nat (Suc n) :: u64) = Suc n"
    using assms by (simp_all add: unat_of_nat_small del: of_nat_Suc)
  then have "s \<le> of_nat (Suc n) \<longleftrightarrow> s \<le> of_nat n \<or> s = (of_nat (Suc n) :: u64)" for s
    by (auto simp: word_le_nat_alt word_unat_eq_iff le_Suc_eq simp del: of_nat_Suc)
  moreover have "b < (of_nat (Suc n) :: u64)"
    using assms(2) \<open>unat (of_nat n :: u64) = n\<close> \<open>unat (of_nat (Suc n) :: u64) = Suc n\<close>
    by (simp add: word_less_nat_alt word_le_nat_alt del: of_nat_Suc)
  ultimately show ?thesis by auto
qed

lemma apply_loop_each:
  assumes "core_inv blake3 c" "length (j_entries j) + 1 < 2 ^ 64" "\<forall>e \<in> set es. well_keyed e"
    and "append_all blake3 es (cjournal c) = (xs, j)" and "commit_each blake3 es c = (xs, c')"
    and "b \<le> cr_folded_through c" and "set seen = {s. b < s \<and> s \<le> cr_folded_through c}"
  shows "apply_loop b xs seen out (with_journal j c) = (Inr (out @ applied_each blake3 es c), c')"
  using assms
proof (induction es arbitrary: c xs seen out)
  case Nil
  then show ?case by (auto simp: with_journal_def)
next
  case (Cons e es)
  obtain x j1 where a: "append_entry blake3 e (cjournal c) = (x, j1)" by fastforce
  obtain x' c1 where o: "commit_one blake3 e c = (x', c1)" by fastforce
  have room: "has_room c" and wk: "well_keyed e" "\<forall>e \<in> set es. well_keyed e"
    using Cons.prems append_all_log [OF Cons.prems(4)] by (auto simp: has_room_def)
  note f = commit_one_facts [OF Cons.prems(1) room wk(1) o a]
  obtain xs' where tl: "append_all blake3 es (cjournal c1) = (xs', j)" "xs = x # xs'" "commit_each blake3 es c1 = (xs', c')"
    using Cons.prems(4,5) a o f(1,3) by (auto split: prod.splits)
  note len = Cons.prems(2)
  from Cons.prems(1) room wk(1) o show ?case
  proof (cases rule: commit_one_step)
    case hit
    let ?seen = "if entry_seq x' > b then bs_insert (entry_seq x') seen else seen"
    have old: "\<not> (b < entry_seq x' \<and> entry_seq x' \<notin> set seen)"
      using hit(5) unfolding Cons.prems(7) by (simp add: not_less)
    then have "set ?seen = {s. b < s \<and> s \<le> cr_folded_through c1}"
      unfolding hit(6) Cons.prems(7) [symmetric] by auto
    moreover have "b \<le> cr_folded_through c1" unfolding hit(6) by (rule Cons.prems(6))
    ultimately have "apply_loop b xs' ?seen (out @ [\<lparr>ca_committed_seq = entry_seq x', ca_already_committed = True\<rparr>])
        (with_journal j c1) =
        (Inr ((out @ [\<lparr>ca_committed_seq = entry_seq x', ca_already_committed = True\<rparr>]) @ applied_each blake3 es c1), c')"
      using Cons.IH [OF f(2) len wk(2) tl(1,3)] by blast
    moreover have "apply_loop b xs seen out (with_journal j c) =
        apply_loop b xs' ?seen (out @ [\<lparr>ca_committed_seq = entry_seq x', ca_already_committed = True\<rparr>]) (with_journal j c)"
      unfolding tl(2) f(1) apply_loop.simps Let_def using old by simp
    moreover have "applied_each blake3 (e # es) c =
        \<lparr>ca_committed_seq = entry_seq x', ca_already_committed = True\<rparr> # applied_each blake3 es c1"
      using o hit(5) by simp
    ultimately show ?thesis
      unfolding hit(6) by simp
  next
    case (new j2 st)
    note inv = core_invD [OF Cons.prems(1)]
    have x: "entry_seq x' = of_nat (Suc (length (clog c)))" using new(3) by simp
    have fresh: "b < entry_seq x'" "entry_seq x' \<notin> set seen"
      using Cons.prems(6) new(4) unfolding Cons.prems(7) by (rule le_less_trans) (simp add: new(4) not_le)
    have "set (bs_insert (entry_seq x') seen) = {s. b < s \<and> s \<le> cr_folded_through c1}"
      using next_seq_set [of "length (clog c)" b] room Cons.prems(6,7) new(6) x by (simp add: inv(4) has_room_def)
    moreover have "b \<le> cr_folded_through c1" using fresh new(6) by simp
    ultimately have "apply_loop b xs' (bs_insert (entry_seq x') seen)
        (out @ [\<lparr>ca_committed_seq = entry_seq x', ca_already_committed = False\<rparr>]) (with_journal j c1) =
        (Inr ((out @ [\<lparr>ca_committed_seq = entry_seq x', ca_already_committed = False\<rparr>]) @ applied_each blake3 es c1), c')"
      using Cons.IH [OF f(2) len wk(2) tl(1,3)] by blast
    moreover have "with_journal j c1 = (with_journal j c)\<lparr>cr_projection := st, cr_folded_through := entry_seq x'\<rparr>"
      using new(6) by (simp add: with_journal_def)
    ultimately show ?thesis
      using fresh new(4,5) tl(2) o f(1) by (simp add: Let_def)
  qed
qed

lemma apply_loop_journal [simp]: "cr_journal (snd (apply_loop b xs seen out c)) = cr_journal c"
  by (induction xs arbitrary: seen out c) (auto simp: Let_def split: prod.splits sum.splits)

lemma apply_batch_cases:
  assumes "core_inv blake3 c" "has_room (snd (apply_batch blake3 es c))" "\<forall>e \<in> set es. well_keyed e"
  obtains (fault) f where "apply_batch blake3 es c = (Inl (), c\<lparr>cr_journal := f\<rparr>)" "fj_journal f = cjournal c"
  | (ok) xs c0 c' where "apply_batch blake3 es c = (Inr (applied_each blake3 es c0), c')"
      "commit_each blake3 es c0 = (xs, c')" "core_inv blake3 c0" "core_inv blake3 c'"
      "\<exists>f. c0 = c\<lparr>cr_journal := f\<rparr> \<and> fj_journal f = cjournal c"
proof (cases rule: append_batch_c_cases [of blake3 es c])
  case (fault f)
  then show ?thesis by (intro that(1) [of f]) (simp_all add: apply_batch_def then_st_def err_st_def)
next
  case (ok xs j f)
  let ?f0 = "f\<lparr>fj_journal := cjournal c\<rparr>"
  let ?c0 = "c\<lparr>cr_journal := ?f0\<rparr>"
  have c0: "core_inv blake3 ?c0" "cjournal ?c0 = cjournal c"
    using assms(1) by (simp_all add: core_inv_def)
  obtain ys c' where each: "commit_each blake3 es ?c0 = (ys, c')" by fastforce
  have len: "length (j_entries j) + 1 < 2 ^ 64"
  proof -
    have "cr_journal (snd (apply_batch blake3 es c)) = f"
      using ok(1) by (simp add: apply_batch_def then_st_def err_st_def [of _ "append_batch_c blake3 es"])
    then show ?thesis using assms(2) ok(2) by (simp add: has_room_def)
  qed
  have app: "append_all blake3 es (cjournal ?c0) = (xs, j)" using ok(3) by simp
  from batch_is_each [OF c0(1) len assms(3) app each] have be: "ys = xs" "core_inv blake3 c'" by simp_all
  have wj: "with_journal j ?c0 = c\<lparr>cr_journal := f\<rparr>"
    using ok(2) by (simp add: with_journal_def)
  have "apply_loop (cr_folded_through ?c0) xs [] [] (with_journal j ?c0) = (Inr ([] @ applied_each blake3 es ?c0), c')"
    using each be(1) by (intro apply_loop_each [OF c0(1) len assms(3) app]) auto
  then have "apply_batch blake3 es c = (Inr (applied_each blake3 es ?c0), c')"
    using ok(1) wj by (simp add: apply_batch_def then_st_def err_st_def)
  then show ?thesis
    using each be c0(1) by (intro that(2) [of ?c0 c' xs]) (auto intro: exI [of _ ?f0])
qed

section \<open>What a batch answers\<close>

text \<open>
  The first proposal of a Mote that is not committed yet is recorded as it stands; every other
  proposal of that Mote is answered with the commit that stands.
\<close>

definition answers :: "journal_entry list \<Rightarrow> journal_entry list \<Rightarrow> commit_proposal list \<Rightarrow> commit_applied list \<Rightarrow> bool" where
  "answers log log' ps applied \<longleftrightarrow> length applied = length ps \<and>
     (\<forall>k < length ps. \<exists>d. Committed d \<in> set log' \<and> c_mote_id d = cp_mote_id (ps ! k) \<and>
        c_seq d = ca_committed_seq (applied ! k) \<and>
        (\<not> ca_already_committed (applied ! k) \<longleftrightarrow>
           \<not> log_committed (cp_mote_id (ps ! k)) log \<and> (\<forall>k' < k. cp_mote_id (ps ! k') \<noteq> cp_mote_id (ps ! k))) \<and>
        (\<not> ca_already_committed (applied ! k) \<longrightarrow>
           committed_entry_of (ps ! k) = Committed (d\<lparr>c_seq := 0\<rparr>)))"

lemma answersD:
  assumes "answers log log' ps applied" "k < length ps"
  shows "\<exists>d. Committed d \<in> set log' \<and> c_mote_id d = cp_mote_id (ps ! k) \<and>
        c_seq d = ca_committed_seq (applied ! k) \<and>
        (\<not> ca_already_committed (applied ! k) \<longleftrightarrow>
           \<not> log_committed (cp_mote_id (ps ! k)) log \<and> (\<forall>k' < k. cp_mote_id (ps ! k') \<noteq> cp_mote_id (ps ! k))) \<and>
        (\<not> ca_already_committed (applied ! k) \<longrightarrow>
           committed_entry_of (ps ! k) = Committed (d\<lparr>c_seq := 0\<rparr>))"
  using assms unfolding answers_def by blast

lemma log_committed_iff: "log_committed i es \<longleftrightarrow> (\<exists>d. Committed d \<in> set es \<and> c_mote_id d = i)"
proof
  show "\<exists>d. Committed d \<in> set es \<and> c_mote_id d = i" if "log_committed i es"
    using that by (auto simp: log_committed_def list_ex_iff elim!: is_committed.elims)
  show "log_committed i es" if "\<exists>d. Committed d \<in> set es \<and> c_mote_id d = i"
    using that unfolding log_committed_def list_ex_iff by (metis is_committed.simps(1))
qed

lemma log_committed_append [simp]: "log_committed i (xs @ ys) \<longleftrightarrow> log_committed i xs \<or> log_committed i ys"
  by (simp add: log_committed_def)

lemma commit_proposal_step:
  assumes "core_inv blake3 c" "has_room c" "cp_idempotency_key p = cp_mote_id p"
    and "commit_one blake3 (committed_entry_of p) c = (x, c1)"
  shows "\<exists>d. x = Committed d \<and> x \<in> set (clog c1) \<and> c_mote_id d = cp_mote_id p \<and>
    (cr_folded_through c < entry_seq x \<longleftrightarrow> \<not> log_committed (cp_mote_id p) (clog c)) \<and>
    (\<not> log_committed (cp_mote_id p) (clog c) \<longrightarrow> committed_entry_of p = Committed (d\<lparr>c_seq := 0\<rparr>)) \<and>
    log_committed (cp_mote_id p) (clog c1) \<and>
    (\<forall>i. i \<noteq> cp_mote_id p \<longrightarrow> log_committed i (clog c1) = log_committed i (clog c)) \<and> prefix (clog c) (clog c1)"
proof -
  have wk: "well_keyed (committed_entry_of p)"
    using assms(3) by (simp add: committed_entry_of_def)
  from assms(1,2) wk assms(4) show ?thesis
  proof (cases rule: commit_one_step)
    case hit
    then obtain d where d: "x = Committed d" "c_idempotency_key d = cp_idempotency_key p"
      by (cases x) (auto simp: same_fact_def committed_entry_of_def)
    moreover have id: "c_mote_id d = cp_mote_id p"
      using bspec [OF core_invD(2) [OF assms(1)] hit(2)] d assms(3) by simp
    moreover have "log_committed (cp_mote_id p) (clog c)"
      unfolding log_committed_iff using hit(2) d(1) id by blast
    ultimately show ?thesis
      using hit(2,5,6) by simp
  next
    case (new j st)
    have "\<not> log_committed (cp_mote_id p) (clog c)"
    proof
      assume "log_committed (cp_mote_id p) (clog c)"
      then obtain d where d: "Committed d \<in> set (clog c)" "c_mote_id d = cp_mote_id p" by (auto simp: log_committed_iff)
      then have "c_idempotency_key d = cp_mote_id p"
        using core_invD(2) [OF assms(1)] by fastforce
      then have "same_fact (derive_key blake3 (committed_entry_of p)) (Committed d)"
        using assms(3) by (simp add: same_fact_def committed_entry_of_def)
      then show False using new(9) d(1) by (auto simp: existing_None committed_entry_of_def dedupes_def)
    qed
    moreover have log: "clog c1 = clog c @ [x]"
      using new(2,6) by simp
    moreover obtain d where d: "x = Committed d" "c_mote_id d = cp_mote_id p" "committed_entry_of p = Committed (d\<lparr>c_seq := 0\<rparr>)"
      using new(3) by (simp add: committed_entry_of_def)
    moreover from d have "log_committed (cp_mote_id p) [x]" "i \<noteq> cp_mote_id p \<Longrightarrow> \<not> log_committed i [x]" for i
      by (simp_all add: log_committed_def)
    ultimately show ?thesis
      using new(4) by simp
  qed
qed

lemma commit_each_answers:
  assumes "core_inv blake3 c" "has_room c'"
    and "\<forall>p \<in> set ps. cp_idempotency_key p = cp_mote_id p"
    and "commit_each blake3 (map committed_entry_of ps) c = (xs, c')"
  shows "answers (clog c) (clog c') ps (applied_each blake3 (map committed_entry_of ps) c) \<and> prefix (clog c) (clog c')"
  using assms
proof (induction ps arbitrary: c xs)
  case Nil
  then show ?case by (simp add: answers_def)
next
  case (Cons p ps)
  obtain x c1 where o: "commit_one blake3 (committed_entry_of p) c = (x, c1)" by fastforce
  obtain y j where a: "append_entry blake3 (committed_entry_of p) (cjournal c) = (y, j)" by fastforce
  have room: "has_room c" and key: "cp_idempotency_key p = cp_mote_id p" "\<forall>p \<in> set ps. cp_idempotency_key p = cp_mote_id p"
    and wk: "well_keyed (committed_entry_of p)"
    using Cons.prems commit_each_log [OF Cons.prems(4)] by (auto simp: has_room_def committed_entry_of_def)
  note f = commit_one_facts [OF Cons.prems(1) room wk o a]
  obtain xs' where tl: "commit_each blake3 (map committed_entry_of ps) c1 = (xs', c')"
    using Cons.prems(4) o by (auto split: prod.splits)
  let ?rest = "applied_each blake3 (map committed_entry_of ps) c1"
  have ih: "answers (clog c1) (clog c') ps ?rest" "prefix (clog c1) (clog c')"
    using Cons.IH [OF f(2) Cons.prems(2) key(2) tl] by simp_all
  obtain d where d: "x = Committed d" "x \<in> set (clog c1)" "c_mote_id d = cp_mote_id p"
      "cr_folded_through c < entry_seq x \<longleftrightarrow> \<not> log_committed (cp_mote_id p) (clog c)"
      "\<not> log_committed (cp_mote_id p) (clog c) \<longrightarrow> committed_entry_of p = Committed (d\<lparr>c_seq := 0\<rparr>)"
      "log_committed (cp_mote_id p) (clog c1)"
      "\<And>i. i \<noteq> cp_mote_id p \<Longrightarrow> log_committed i (clog c1) = log_committed i (clog c)" "prefix (clog c) (clog c1)"
    using commit_proposal_step [OF Cons.prems(1) room key(1) o] by blast
  have mem: "x \<in> set (clog c')" using d(2) ih(2) by (auto simp: prefix_def)
  have applied: "applied_each blake3 (map committed_entry_of (p # ps)) c =
      \<lparr>ca_committed_seq = c_seq d, ca_already_committed = log_committed (cp_mote_id p) (clog c)\<rparr> # ?rest"
    using o d(1,4) by simp
  have "answers (clog c) (clog c') (p # ps) (applied_each blake3 (map committed_entry_of (p # ps)) c)"
    unfolding answers_def applied
  proof (intro conjI allI impI)
    show "length (\<lparr>ca_committed_seq = c_seq d, ca_already_committed = log_committed (cp_mote_id p) (clog c)\<rparr> # ?rest) = length (p # ps)"
      using ih(1) by (simp add: answers_def)
    fix k assume k: "k < length (p # ps)"
    let ?a = "(\<lparr>ca_committed_seq = c_seq d, ca_already_committed = log_committed (cp_mote_id p) (clog c)\<rparr> # ?rest) ! k"
    show "\<exists>d. Committed d \<in> set (clog c') \<and> c_mote_id d = cp_mote_id ((p # ps) ! k) \<and> c_seq d = ca_committed_seq ?a \<and>
        (\<not> ca_already_committed ?a \<longleftrightarrow> \<not> log_committed (cp_mote_id ((p # ps) ! k)) (clog c) \<and>
           (\<forall>k' < k. cp_mote_id ((p # ps) ! k') \<noteq> cp_mote_id ((p # ps) ! k))) \<and>
        (\<not> ca_already_committed ?a \<longrightarrow> committed_entry_of ((p # ps) ! k) = Committed (d\<lparr>c_seq := 0\<rparr>))"
    proof (cases k)
      case 0
      then show ?thesis using d mem by (intro exI [of _ d]) simp
    next
      case (Suc m)
      then have m: "m < length ps" using k by simp
      obtain d' where d': "Committed d' \<in> set (clog c')" "c_mote_id d' = cp_mote_id (ps ! m)" "c_seq d' = ca_committed_seq (?rest ! m)"
          "\<not> ca_already_committed (?rest ! m) \<longleftrightarrow>
             \<not> log_committed (cp_mote_id (ps ! m)) (clog c1) \<and> (\<forall>k' < m. cp_mote_id (ps ! k') \<noteq> cp_mote_id (ps ! m))"
          "\<not> ca_already_committed (?rest ! m) \<longrightarrow> committed_entry_of (ps ! m) = Committed (d'\<lparr>c_seq := 0\<rparr>)"
        using answersD [OF ih(1) m] by blast
      have "\<not> log_committed (cp_mote_id (ps ! m)) (clog c1) \<longleftrightarrow>
          \<not> log_committed (cp_mote_id (ps ! m)) (clog c) \<and> cp_mote_id p \<noteq> cp_mote_id (ps ! m)"
        using d(6) d(7) [of "cp_mote_id (ps ! m)"] d(8) by (cases "cp_mote_id (ps ! m) = cp_mote_id p") auto
      then show ?thesis
        using d' Suc by (intro exI [of _ d']) (auto simp: less_Suc_eq_0_disj)
    qed
  qed
  then show ?case using ih(2) d(8) prefix_order.trans by blast
qed

lemma ball_take: "n \<le> length xs \<Longrightarrow> (\<forall>x \<in> set (take n xs). P x) \<longleftrightarrow> (\<forall>i < n. P (xs ! i))"
  by (simp add: all_set_conv_all_nth)

lemma filter_nth_take:
  assumes "k < length xs" "P (xs ! k)"
  shows "filter P xs ! length (filter P (take k xs)) = xs ! k"
    and "length (filter P (take k xs)) < length (filter P xs)"
    and "take (length (filter P (take k xs))) (filter P xs) = filter P (take k xs)"
proof -
  have split: "filter P xs = filter P (take k xs) @ xs ! k # filter P (drop (Suc k) xs)"
    using assms by (metis append_take_drop_id Cons_nth_drop_Suc filter.simps(2) filter_append)
  show "filter P xs ! length (filter P (take k xs)) = xs ! k"
    by (subst split) (simp add: nth_append)
  show "length (filter P (take k xs)) < length (filter P xs)"
    using arg_cong [OF split, of length] by simp
  show "take (length (filter P (take k xs))) (filter P xs) = filter P (take k xs)"
    using split by (metis append_eq_conv_conj)
qed

lemma fill_replies_nth:
  assumes "length rs = length (filter (\<lambda>x. g x = None) xs)"
  shows "length (fill_replies (map g xs) rs) = length xs"
    and "k < length xs \<Longrightarrow> fill_replies (map g xs) rs ! k =
      (case g (xs ! k) of Some e \<Rightarrow> Inl e | None \<Rightarrow> rs ! length (filter (\<lambda>x. g x = None) (take k xs)))"
proof -
  show "length (fill_replies (map g xs) rs) = length xs"
    using assms
  proof (induction xs arbitrary: rs)
    case (Cons x xs)
    then show ?case by (cases "g x"; cases rs) simp_all
  qed simp
  show "k < length xs \<Longrightarrow> fill_replies (map g xs) rs ! k =
      (case g (xs ! k) of Some e \<Rightarrow> Inl e | None \<Rightarrow> rs ! length (filter (\<lambda>x. g x = None) (take k xs)))"
    using assms
  proof (induction xs arbitrary: rs k)
    case (Cons x xs)
    show ?case
    proof (cases "g x")
      case None
      then obtain r rs' where rs: "rs = r # rs'" using Cons.prems(2) by (cases rs) simp_all
      then show ?thesis
        using Cons None by (cases k) (simp_all split: option.splits)
    next
      case (Some e)
      then show ?thesis
        using Cons by (cases k) (simp_all split: option.splits)
    qed
  qed simp
qed

lemma batch_reply:
  assumes ans: "answers log log' (filter (\<lambda>p. g p = None) pending) applied"
    and replies: "replies = fill_replies (map g pending) (map Inr applied)"
    and k: "k < length pending" "g (pending ! k) = None"
  shows "\<exists>d already. replies ! k = Inr \<lparr>ca_committed_seq = c_seq d, ca_already_committed = already\<rparr> \<and>
    Committed d \<in> set log' \<and> c_mote_id d = cp_mote_id (pending ! k) \<and>
    (\<not> already \<longleftrightarrow> \<not> log_committed (cp_mote_id (pending ! k)) log \<and>
       (\<forall>k' < k. g (pending ! k') = None \<longrightarrow> cp_mote_id (pending ! k') \<noteq> cp_mote_id (pending ! k))) \<and>
    (\<not> already \<longrightarrow> committed_entry_of (pending ! k) = Committed (d\<lparr>c_seq := 0\<rparr>))"
proof -
  let ?ok = "\<lambda>p. g p = None" let ?adm = "filter ?ok pending"
  let ?m = "length (filter ?ok (take k pending))"
  note m = filter_nth_take [of k pending ?ok, OF k]
  obtain d where d: "Committed d \<in> set log'" "c_mote_id d = cp_mote_id (pending ! k)"
      "c_seq d = ca_committed_seq (applied ! ?m)"
      "\<not> ca_already_committed (applied ! ?m) \<longleftrightarrow> \<not> log_committed (cp_mote_id (pending ! k)) log \<and>
         (\<forall>k' < ?m. cp_mote_id (?adm ! k') \<noteq> cp_mote_id (pending ! k))"
      "\<not> ca_already_committed (applied ! ?m) \<longrightarrow> committed_entry_of (pending ! k) = Committed (d\<lparr>c_seq := 0\<rparr>)"
    using answersD [OF ans m(2)] unfolding m(1) by blast
  have "(\<forall>k' < ?m. cp_mote_id (?adm ! k') \<noteq> cp_mote_id (pending ! k)) \<longleftrightarrow>
      (\<forall>p \<in> set (take ?m ?adm). cp_mote_id p \<noteq> cp_mote_id (pending ! k))"
    using ball_take [OF less_imp_le [OF m(2)]] by simp
  also have "\<dots> \<longleftrightarrow> (\<forall>k' < k. ?ok (pending ! k') \<longrightarrow> cp_mote_id (pending ! k') \<noteq> cp_mote_id (pending ! k))"
    unfolding m(3) using ball_take [OF less_imp_le [OF k(1)], of "\<lambda>p. ?ok p \<longrightarrow> cp_mote_id p \<noteq> cp_mote_id (pending ! k)"]
    by auto
  finally have first: "(\<forall>k' < ?m. cp_mote_id (?adm ! k') \<noteq> cp_mote_id (pending ! k)) \<longleftrightarrow>
      (\<forall>k' < k. ?ok (pending ! k') \<longrightarrow> cp_mote_id (pending ! k') \<noteq> cp_mote_id (pending ! k))" .
  have len: "length applied = length ?adm" using ans by (simp add: answers_def)
  have "replies ! k = Inr (applied ! ?m)"
    using fill_replies_nth(2) [of "map Inr applied" g pending k] k m(2) len by (simp add: replies)
  then show ?thesis
    using d unfolding first by (intro exI [of _ d] exI [of _ "ca_already_committed (applied ! ?m)"]) simp
qed

section \<open>Everything advances\<close>

lemma persist_def_books: "books_only c (persist_def cd d c)"
  by (simp add: books_only_def persist_def_def)

lemma admit_advances: "advances blake3 P c (admit cd m w reg c)"
  by (rule register_advances) (simp_all add: admit_def persist_def_def Let_def)

lemma materialize_advances: "advances blake3 P c (materialize_committed_shaper cd derive i d w c)"
  by (auto simp: materialize_committed_shaper_def admit_advances intro!: advances_fold split: option.splits)

lemma settle_commit_advances: "advances blake3 P c (settle_commit cd roles i c)"
proof -
  let ?c1 = "(case (cr_store c, roles, map_of (cr_defs c) i) of
                  (Some _, Some derive, Some (m, w)) \<Rightarrow>
                    if md_is_topology_shaper (m_def m) then materialize_committed_shaper cd derive i (m_def m) w c else c
                | _ \<Rightarrow> c)"
  have "advances blake3 P c ?c1"
    by (auto simp: materialize_advances split: option.splits)
  moreover have "advances blake3 P ?c1 (settle_commit cd roles i c)"
    by (rule books_only_advances) (simp add: settle_commit_def books_only_def Let_def)
  ultimately show ?thesis by (rule advances_transD)
qed

lemma settle_all_advances: "advances blake3 P c (fold (settle_commit cd roles) is c)"
  by (rule advances_fold) (rule settle_commit_advances)

lemma apply_batch_advances:
  assumes "\<forall>e \<in> set es. well_keyed e" and "\<And>e x. e \<in> set es \<Longrightarrow> stored_as blake3 e x \<Longrightarrow> P x"
  shows "advances blake3 P c (snd (apply_batch blake3 es c))"
proof -
  let ?c' = "snd (apply_batch blake3 es c)"
  have "\<exists>new. clog ?c' = clog c @ new \<and> (\<forall>x \<in> set new. P x)"
  proof (cases rule: append_batch_c_cases [of blake3 es c])
    case (fault f)
    then show ?thesis by (simp add: apply_batch_def then_st_def err_st_def [of _ "append_batch_c blake3 es"])
  next
    case (ok xs j f)
    then have "cr_journal ?c' = f"
      by (simp add: apply_batch_def then_st_def err_st_def [of _ "append_batch_c blake3 es"])
    moreover obtain new where "j_entries j = clog c @ new" "\<forall>x \<in> set new. \<exists>e \<in> set es. stored_as blake3 e x"
      using append_all_log [OF ok(3)] by blast
    ultimately show ?thesis
      using ok(2) assms(2) by (intro exI [of _ new]) blast
  qed
  moreover have "core_inv blake3 ?c'" if "core_inv blake3 c" "has_room ?c'"
    using that assms(1)
  proof (cases rule: apply_batch_cases)
    case (fault f)
    then show ?thesis using that(1) by (simp add: core_inv_def)
  qed simp
  ultimately show ?thesis by (simp add: advances_def)
qed

definition commit_of :: "mote_id list \<Rightarrow> journal_entry \<Rightarrow> bool" where
  "commit_of is e \<longleftrightarrow> (\<exists>d. e = Committed d \<and> c_mote_id d \<in> set is)"

lemma committed_entry_keyed: "cp_idempotency_key p = cp_mote_id p \<Longrightarrow> well_keyed (committed_entry_of p)"
  by (simp add: committed_entry_of_def)

lemma stored_commit: "stored_as blake3 (committed_entry_of p) x \<Longrightarrow> \<exists>d. x = Committed d \<and> c_mote_id d = cp_mote_id p"
  by (auto simp: stored_as_def committed_entry_of_def)

lemma flush_commits_advances:
  assumes "\<forall>p \<in> set pending. cp_idempotency_key p = cp_mote_id p"
  shows "advances (cd_blake3 cd) (commit_of (map cp_mote_id pending)) c (snd (flush_commits cd roles pending c))"
proof -
  let ?P = "commit_of (map cp_mote_id pending)"
  let ?adm = "filter (\<lambda>p. commit_admission c p = None) pending"
  obtain r c1 where b: "apply_batch (cd_blake3 cd) (map committed_entry_of ?adm) c = (r, c1)" by fastforce
  have "advances (cd_blake3 cd) ?P c (snd (apply_batch (cd_blake3 cd) (map committed_entry_of ?adm) c))"
  proof (rule apply_batch_advances)
    show "\<forall>e \<in> set (map committed_entry_of ?adm). well_keyed e"
      using assms by (auto intro: committed_entry_keyed)
    fix e x assume "e \<in> set (map committed_entry_of ?adm)" "stored_as (cd_blake3 cd) e x"
    then obtain p where "p \<in> set pending" "stored_as (cd_blake3 cd) (committed_entry_of p) x" by auto
    from stored_commit [OF this(2)] this(1) show "?P x" by (auto simp: commit_of_def)
  qed
  then have one: "advances (cd_blake3 cd) ?P c c1" using b by simp
  show ?thesis
  proof (cases "?adm = []")
    case False
    then have "snd (flush_commits cd roles pending c) =
        (case r of Inl _ \<Rightarrow> c1 | Inr _ \<Rightarrow> fold (settle_commit cd roles) (map cp_mote_id ?adm) c1)"
      using b by (simp add: flush_commits_def Let_def split: sum.splits)
    then show ?thesis
      using one advances_transD [OF one settle_all_advances] by (simp split: sum.splits)
  qed (simp add: flush_commits_def)
qed

text \<open>
  C11: A group commit answers every proposal as if the proposals had come one at a time. A proposal
  of a Mote that was never submitted, or whose result is not in the content store, is refused and
  writes nothing, without affecting the others. Unless the journal refuses the whole batch, in which
  case nothing is recorded and every admitted proposal is told so, each admitted proposal is
  answered with the one commit of its Mote: it counts as new exactly when the Mote was not committed
  and no admitted proposal before it in the batch names the Mote, and then the commit recorded is the
  proposal itself. The projection afterwards is again the fold of the whole journal.
\<close>

theorem group_commit_first_wins:
  assumes "core_inv (cd_blake3 cd) c" and "\<forall>p \<in> set pending. cp_idempotency_key p = cp_mote_id p"
    and "flush_commits cd roles pending c = (replies, c')" and "has_room c'"
  shows "core_inv (cd_blake3 cd) c' \<and> length replies = length pending \<and>
    (\<forall>k < length pending. case commit_admission c (pending ! k) of
        Some e \<Rightarrow> replies ! k = Inl e
      | None \<Rightarrow> replies ! k = Inl CommitFailed \<and> clog c' = clog c \<or>
          (\<exists>d already. replies ! k = Inr \<lparr>ca_committed_seq = c_seq d, ca_already_committed = already\<rparr> \<and>
             Committed d \<in> set (clog c') \<and> c_mote_id d = cp_mote_id (pending ! k) \<and>
             (\<not> already \<longleftrightarrow> \<not> log_committed (cp_mote_id (pending ! k)) (clog c) \<and>
                (\<forall>k' < k. commit_admission c (pending ! k') = None \<longrightarrow> cp_mote_id (pending ! k') \<noteq> cp_mote_id (pending ! k))) \<and>
             (\<not> already \<longrightarrow> committed_entry_of (pending ! k) = Committed (d\<lparr>c_seq := 0\<rparr>))))"
proof -
  let ?b = "cd_blake3 cd" and ?ok = "\<lambda>p. commit_admission c p = None"
  let ?adm = "filter ?ok pending"
  have adv: "advances ?b (commit_of (map cp_mote_id pending)) c c'"
    using flush_commits_advances [OF assms(2), of cd c roles] assms(3) by simp
  have inv': "core_inv ?b c'" by (rule advances_inv [OF adv assms(1,4)])
  show ?thesis
  proof (cases "?adm = []")
    case True
    then have "replies = fill_replies (map (commit_admission c) pending) []"
      using assms(3) by (auto simp: flush_commits_def)
    moreover have "\<exists>e. commit_admission c (pending ! k) = Some e" if "k < length pending" for k
      using True that by (auto simp: filter_empty_conv)
    ultimately show ?thesis
      using inv' True fill_replies_nth [of "[]" "commit_admission c" pending] by fastforce
  next
    case False
    obtain r c1 where b: "apply_batch ?b (map committed_entry_of ?adm) c = (r, c1)" by fastforce
    have fl: "flush_commits cd roles pending c = (case r of
          Inr applied \<Rightarrow> (fill_replies (map (commit_admission c) pending) (map Inr applied),
            fold (settle_commit cd roles) (map cp_mote_id ?adm) c1)
        | Inl _ \<Rightarrow> (fill_replies (map (commit_admission c) pending) (map (\<lambda>_. Inl CommitFailed) ?adm), c1))"
      using False b by (simp add: flush_commits_def Let_def split: sum.splits)
    have books: "advances ?b (\<lambda>_. False) c1 c'"
      using assms(3) fl settle_all_advances [of ?b "\<lambda>_. False" c1 cd roles] by (auto split: sum.splits)
    then have log: "clog c' = clog c1" by (auto simp: advances_def)
    then have room1: "has_room (snd (apply_batch ?b (map committed_entry_of ?adm) c))"
      using assms(4) b by (simp add: has_room_def)
    have wk: "\<forall>e \<in> set (map committed_entry_of ?adm). well_keyed e"
      using assms(2) by (auto intro: committed_entry_keyed)
    from assms(1) room1 wk show ?thesis
    proof (cases rule: apply_batch_cases)
      case (fault f)
      then have r: "replies = fill_replies (map (commit_admission c) pending) (map (\<lambda>_. Inl CommitFailed) ?adm)" "clog c' = clog c"
        using assms(3) fl b log by auto
      note nth = fill_replies_nth [of "map (\<lambda>_. Inl CommitFailed :: (coordinator_error, commit_applied) result) ?adm"
          "commit_admission c" pending, folded r(1)]
      have "replies ! k = (case commit_admission c (pending ! k) of Some e \<Rightarrow> Inl e | None \<Rightarrow> Inl CommitFailed)"
        if "k < length pending" for k
        using nth(2) [OF _ that] filter_nth_take(2) [OF that, of ?ok] by (simp split: option.splits)
      then show ?thesis
        using inv' nth(1) r(2) by (simp split: option.splits)
    next
      case (ok xs c0 c2)
      let ?applied = "applied_each ?b (map committed_entry_of ?adm) c0"
      have r: "r = Inr ?applied" "c2 = c1" using ok(1) b by simp_all
      have log0: "clog c0 = clog c" using ok(5) by auto
      have ans: "answers (clog c) (clog c') ?adm ?applied"
        using commit_each_answers [OF ok(3), of c2 ?adm xs] ok(2) assms(2) room1 b r log log0 by (simp add: has_room_def)
      have replies: "replies = fill_replies (map (commit_admission c) pending) (map Inr ?applied)"
        using assms(3) fl r by simp
      have len: "length (map Inr ?applied :: (coordinator_error, commit_applied) result list) = length ?adm"
        using ans by (simp add: answers_def)
      from fill_replies_nth [OF len] batch_reply [OF ans replies] show ?thesis
        using inv' unfolding replies [symmetric] by (simp split: option.splits)
    qed
  qed
qed

text \<open>Two proposals for one Mote in a batch, with one for a Mote that was never submitted between them.\<close>

definition sample_proposal :: "mote_id \<Rightarrow> content_ref \<Rightarrow> commit_proposal" where
  "sample_proposal i r = \<lparr>cp_mote_id = i, cp_idempotency_key = i, cp_result_ref = r, cp_warrant_ref = 0,
     cp_mote_def_hash = 0, cp_nd_class = Pure, cp_parents = []\<rparr>"

abbreviation sample_flush where
  "sample_flush \<equiv> flush_commits \<lparr>cd_blake3 = (\<lambda>_. 5), cd_enc_def = (\<lambda>_. []), cd_enc_warrant = (\<lambda>_. [])\<rparr> None
     [sample_proposal 1 10, sample_proposal 2 20, sample_proposal 1 30] (fresh_core [] [1] None)"

lemmas sample_flush_defs = sample_proposal_def flush_commits_def commit_admission_def fresh_core_def apply_batch_def
  append_batch_c_def append_batch_eq_append_all append_entry_def existing_def dedupes_def same_fact_def journal_new_def
  committed_entry_of_def settle_commit_def then_st_def err_st_def map_err_def Let_def fold_entry_def
  fold_committed_entry_def moteinfo_def moteinfo_upd_def bt_entry_upd_def advance_seq_def mote_info_default_def
  pstate_default_def resolve_committed_def lease_tracker_default_def

lemma sample_flush_eval:
  "fst sample_flush =
     [Inr \<lparr>ca_committed_seq = 1, ca_already_committed = False\<rparr>, Inl (UnknownMote 2),
      Inr \<lparr>ca_committed_seq = 1, ca_already_committed = True\<rparr>]"
  "length (clog (snd sample_flush)) = 1"
  by (simp_all add: sample_flush_defs)

theorem group_commit_first_wins_witness:
  "core_inv (\<lambda>_. 5) (snd sample_flush) \<and> length (fst sample_flush) = 3 \<and>
   (\<exists>d. Committed d \<in> set (clog (snd sample_flush)) \<and> c_mote_id d = 1 \<and> c_seq d = 1)"
proof -
  let ?cd = "\<lparr>cd_blake3 = (\<lambda>_. 5), cd_enc_def = (\<lambda>_. []), cd_enc_warrant = (\<lambda>_. [])\<rparr> :: codec"
  let ?c = "fresh_core [] [1] None" and ?ps = "[sample_proposal 1 10, sample_proposal 2 20, sample_proposal 1 30]"
  have keys: "\<forall>p \<in> set ?ps. cp_idempotency_key p = cp_mote_id p" by (simp add: sample_proposal_def)
  have inv: "core_inv (cd_blake3 ?cd) ?c" by (rule fresh_core_inv)
  have room: "has_room (snd sample_flush)" by (simp add: has_room_def sample_flush_eval)
  note R = group_commit_first_wins [OF inv keys prod.collapse [symmetric] room]
  have adm: "commit_admission ?c (?ps ! 2) = None"
    by (simp add: commit_admission_def sample_proposal_def fresh_core_def)
  have "(2 :: nat) < length ?ps" by simp
  from R [THEN conjunct2, THEN conjunct2, rule_format, OF this, unfolded adm option.case sample_flush_eval(1)]
  have "\<exists>d. Committed d \<in> set (clog (snd sample_flush)) \<and> c_mote_id d = 1 \<and> c_seq d = 1"
    by (simp add: sample_proposal_def) metis
  moreover have "core_inv (\<lambda>_. 5) (snd sample_flush)" using R [THEN conjunct1] by simp
  ultimately show ?thesis
    using R [THEN conjunct2, THEN conjunct1] by simp
qed

end
