(* ===== verification/Kx_Coord_Repudiate.thy ===== *)
theory Kx_Coord_Repudiate
  imports Kx_Coord_Commit Kx_Projection_Ready
begin

text \<open>
  Repudiation with its cascade (\<open>crates/kx-coordinator/src/repudiation.rs\<close> and
  \<open>repudiate_cascade\<close> of \<open>state.rs\<close>): the target and every committed Mote that consumed it,
  directly or not, are marked in one journal transaction.
\<close>

section \<open>Building the batch\<close>

definition DEFAULT_CASCADE_CEILING :: nat where
  "DEFAULT_CASCADE_CEILING = 10000"

definition COORDINATOR_REPUDIATOR_ID :: u128 where
  "COORDINATOR_REPUDIATOR_ID = 0"

record repudiation_outcome =
  ro_target :: mote_id
  ro_cascade_size :: nat

datatype repudiation_error =
    TargetNotCommitted mote_id
  | CascadeTooLarge nat nat
  | RepudiationAppend
  | RepudiationCoreUnavailable

definition repudiated_entry_of :: "hash_fn \<Rightarrow> mote_id \<Rightarrow> u64 \<Rightarrow> repudiation_reason \<Rightarrow> u128 \<Rightarrow> journal_entry" where
  "repudiated_entry_of blake3 target_mote_id target_committed_seq reason_class repudiator_id =
     Repudiated \<lparr>r_target_mote_id = target_mote_id,
       r_idempotency_key = repudiation_idempotency_key blake3 target_mote_id target_committed_seq, r_seq = 0,
       r_target_committed_seq = target_committed_seq, r_reason_class = reason_class, r_repudiator_id = repudiator_id\<rparr>"

definition cascade_repudiation_entries ::
  "hash_fn \<Rightarrow> pstate \<Rightarrow> mote_id \<Rightarrow> repudiation_reason \<Rightarrow> u128 \<Rightarrow> nat \<Rightarrow> (repudiation_error, journal_entry list) result"
where
  "cascade_repudiation_entries blake3 st target reason repudiator_id ceiling =
     (case committed_seq_of st target of
        None \<Rightarrow> Inl (TargetNotCommitted target)
      | Some target_seq \<Rightarrow>
          let downstream = List.map_filter (\<lambda>c. map_option (Pair c) (committed_seq_of st c)) (transitive_consumers st target);
              size = 1 + length downstream
          in if size > ceiling then Inl (CascadeTooLarge size ceiling)
             else Inr (repudiated_entry_of blake3 target target_seq reason repudiator_id
                # map (\<lambda>(consumer, seq). repudiated_entry_of blake3 consumer seq UpstreamCascade COORDINATOR_REPUDIATOR_ID)
                    downstream))"

definition repudiate_cascade ::
  "hash_fn \<Rightarrow> mote_id \<Rightarrow> repudiation_reason \<Rightarrow> u128 \<Rightarrow> (repudiation_error, repudiation_outcome, coord) step"
where
  "repudiate_cascade blake3 target reason repudiator_id c =
     (case cascade_repudiation_entries blake3 (cr_projection c) target reason repudiator_id DEFAULT_CASCADE_CEILING of
        Inl e \<Rightarrow> (Inl e, c)
      | Inr entries \<Rightarrow>
          (let cascade_size = length entries - 1 in
           then_st (err_st (\<lambda>_. RepudiationAppend) (append_batch_c blake3 entries)) (\<lambda>durable.
           then_st (err_st (\<lambda>_. RepudiationAppend) (fold_new durable)) (\<lambda>_ c'.
             (Inr \<lparr>ro_target = target, ro_cascade_size = cascade_size\<rparr>, c'))) c))"

section \<open>Repudiations in a log\<close>

text \<open>A repudiation names a commit that was already recorded.\<close>

definition grounded :: "journal_entry list \<Rightarrow> bool" where
  "grounded log \<longleftrightarrow> (\<forall>r. Repudiated r \<in> set log \<longrightarrow> r_target_committed_seq r < r_seq r)"

definition names_commit :: "journal_entry list \<Rightarrow> journal_entry \<Rightarrow> bool" where
  "names_commit log e \<longleftrightarrow> (\<exists>r d. e = Repudiated r \<and> Committed d \<in> set log \<and> c_mote_id d = r_target_mote_id r \<and>
     c_seq d = r_target_committed_seq r)"

lemma grounded_append: "grounded (xs @ ys) \<longleftrightarrow> grounded xs \<and> grounded ys"
  by (auto simp: grounded_def)

lemma seq_position:
  assumes "seqs_dense log" "length log + 1 < 2 ^ 64" "k < length log"
  shows "unat (entry_seq (log ! k)) = Suc k"
  using assms by (simp add: seqs_dense_def unat_of_nat_small del: of_nat_Suc)

text \<open>A grounded repudiation in a densely numbered log stands after the commit it names, and so takes effect.\<close>

lemma grounded_repudiated:
  assumes "seqs_dense log" "length log + 1 < 2 ^ 64" "grounded log"
    and "Repudiated r \<in> set log" "Committed d \<in> set log" "c_mote_id d = r_target_mote_id r" "c_seq d = r_target_committed_seq r"
  shows "log_repudiated (r_target_mote_id r) log"
proof -
  obtain k where k: "k < length log" "log ! k = Repudiated r" using assms(4) by (auto simp: in_set_conv_nth)
  obtain m where m: "m < length log" "log ! m = Committed d" using assms(5) by (auto simp: in_set_conv_nth)
  have "r_target_committed_seq r < r_seq r" using assms(3,4) by (simp add: grounded_def)
  then have "m < k"
    using seq_position [OF assms(1,2) k(1)] seq_position [OF assms(1,2) m(1)] k(2) m(2) assms(7)
    by (simp add: word_less_nat_alt)
  then have "Committed d \<in> set (take k log)"
    using m k(1) by (auto simp: in_set_conv_nth intro!: exI [of _ m])
  then have "list_ex (\<lambda>x. is_committed (r_target_mote_id r) x \<and> repudiates (Repudiated r) x) (take k log)"
    using assms(6,7) by (auto simp: list_ex_iff intro!: bexI [of _ "Committed d"])
  then show ?thesis
    unfolding log_repudiated_def occurs_def using id_take_nth_drop [OF k(1)] k(2) by metis
qed

lemma log_repudiated_append: "log_repudiated i log \<Longrightarrow> log_repudiated i (log @ new)"
  by (induction new rule: rev_induct) (simp_all add: log_occurs_snoc flip: append_assoc)

text \<open>What repudiations of recorded commits do to the state of a Mote.\<close>

lemma repudiation_step:
  assumes "names_commit log e" "set log \<subseteq> set es"
  shows "log_inconsistent i (es @ [e]) = log_inconsistent i es" "log_committed i (es @ [e]) = log_committed i es"
    "log_repudiated i (es @ [e]) \<longleftrightarrow> log_repudiated i es \<or> is_repudiation i e"
    "\<not> log_committed i es \<Longrightarrow> log_state i (es @ [e]) = log_state i es"
proof -
  obtain r d where r: "e = Repudiated r" "Committed d \<in> set es" "c_mote_id d = r_target_mote_id r"
      "c_seq d = r_target_committed_seq r"
    using assms by (auto simp: names_commit_def)
  have com: "log_committed (r_target_mote_id r) es"
    using r(2,3) by (auto simp: log_committed_iff)
  show inc: "log_inconsistent i (es @ [e]) = log_inconsistent i es"
    using com r(1) by (auto simp: log_occurs_snoc)
  show same: "log_committed i (es @ [e]) = log_committed i es"
    using r(1) by (simp add: log_committed_def)
  have "list_ex (\<lambda>x. is_committed i x \<and> repudiates e x) es \<longleftrightarrow> r_target_mote_id r = i"
  proof
    assume "r_target_mote_id r = i"
    then show "list_ex (\<lambda>x. is_committed i x \<and> repudiates e x) es"
      using r by (auto simp: list_ex_iff intro!: bexI [of _ "Committed d"])
  qed (use r(1) in \<open>auto simp: list_ex_iff elim!: is_committed.elims\<close>)
  then show "log_repudiated i (es @ [e]) \<longleftrightarrow> log_repudiated i es \<or> is_repudiation i e"
    using r(1) by (simp add: log_occurs_snoc)
  show "log_state i (es @ [e]) = log_state i es" if "\<not> log_committed i es"
    using that inc same r(1) by (simp add: log_state_def log_occurs_snoc log_reattempt_snoc log_staged_def log_proposed_def)
qed

lemma repudiations_log:
  assumes "\<forall>e \<in> set new. names_commit log e"
  shows "log_inconsistent i (log @ new) = log_inconsistent i log \<and> log_committed i (log @ new) = log_committed i log \<and>
    (log_repudiated i (log @ new) \<longleftrightarrow> log_repudiated i log \<or> (\<exists>e \<in> set new. is_repudiation i e)) \<and>
    (\<not> log_committed i log \<longrightarrow> log_state i (log @ new) = log_state i log)"
  using assms
proof (induction new rule: rev_induct)
  case (snoc e new)
  then have "names_commit log e" by simp
  note step = repudiation_step [OF this, of "log @ new" i]
  show ?case
    using snoc step by (simp flip: append_assoc) blast
qed simp

lemma repudiations_log_state:
  assumes "\<forall>e \<in> set new. names_commit log e"
  shows "log_state i (log @ new) =
    (if log_committed i log \<and> \<not> log_inconsistent i log \<and> (\<exists>e \<in> set new. is_repudiation i e) then MsRepudiated
     else log_state i log)"
proof (cases "log_committed i log")
  case True
  then show ?thesis using repudiations_log [OF assms, of i] by (simp add: log_state_def)
next
  case False
  then show ?thesis using repudiations_log [OF assms, of i] by simp
qed

section \<open>The batch\<close>

text \<open>After a batch append every deduplicated fact of the batch is recorded.\<close>

lemma append_all_recorded:
  assumes "append_all blake3 es j = (xs, j')" "e \<in> set es" "dedupes e"
  shows "\<exists>x \<in> set (j_entries j'). same_fact (derive_key blake3 e) x"
  using assms(1,2)
proof (induction es arbitrary: j xs)
  case (Cons a es)
  obtain x j1 xs' where a: "append_entry blake3 a j = (x, j1)" "append_all blake3 es j1 = (xs', j')"
    using Cons.prems(1) by (auto split: prod.splits)
  show ?case
  proof (cases "e \<in> set es")
    case True
    then show ?thesis by (rule Cons.IH [OF a(2)])
  next
    case False
    then have "e = a" using Cons.prems(2) by simp
    then have "x \<in> set (j_entries j1)" "same_fact (derive_key blake3 e) x"
      using a(1) by (cases rule: append_entry_cases [of blake3 a j]; auto simp: same_fact_def)+
    then show ?thesis using append_all_log [OF a(2)] by auto
  qed
qed simp

text \<open>The committed Motes that consumed the target, and the Motes a repudiation reaches.\<close>

definition consumed :: "pstate \<Rightarrow> mote_id \<Rightarrow> mote_id set" where
  "consumed st target = {i. committed_of st i \<noteq> None \<and> (target, i) \<in> (cascading_parent st)\<^sup>+}"

definition poisoned :: "pstate \<Rightarrow> mote_id \<Rightarrow> mote_id set" where
  "poisoned st target = consumed st target \<union> (if committed_of st target = None then {} else {target})"

lemma mem_map_filter: "y \<in> set (List.map_filter f xs) \<longleftrightarrow> (\<exists>x \<in> set xs. f x = Some y)"
  by (induction xs) (auto split: option.splits)

lemma downstream_consumed:
  assumes "children_ok st"
  shows "length (List.map_filter (\<lambda>c. map_option (Pair c) (committed_seq_of st c)) (transitive_consumers st target)) =
      card (consumed st target)"
    "set (List.map_filter (\<lambda>c. map_option (Pair c) (committed_seq_of st c)) (transitive_consumers st target)) =
      {(i, s). i \<in> consumed st target \<and> committed_seq_of st i = Some s}"
proof -
  let ?t = "transitive_consumers st target" and ?com = "\<lambda>c. committed_of st c \<noteq> None"
  have "cascade (st_children st) = cascading_parent st"
    using children_parents [OF assms] by (auto simp: cascade_def walkable_def cascading_parent_def)
  then have t: "distinct ?t" "set ?t = {c. (target, c) \<in> (cascading_parent st)\<^sup>+}"
    using transitive_consumers_closure [of st target] by auto
  have "length (List.map_filter (\<lambda>c. map_option (Pair c) (committed_seq_of st c)) ?t) = length (filter ?com ?t)"
    by (simp add: List.map_filter_def committed_seq_of_def comp_def)
  also have "\<dots> = card (set (filter ?com ?t))"
    by (rule distinct_card [symmetric]) (use t(1) in simp)
  also have "set (filter ?com ?t) = consumed st target"
    using t(2) by (auto simp: consumed_def)
  finally show "length (List.map_filter (\<lambda>c. map_option (Pair c) (committed_seq_of st c)) ?t) = card (consumed st target)" .
  show "set (List.map_filter (\<lambda>c. map_option (Pair c) (committed_seq_of st c)) ?t) =
      {(i, s). i \<in> consumed st target \<and> committed_seq_of st i = Some s}"
  proof (rule set_eqI, clarify)
    fix i s
    have "(i, s) \<in> set (List.map_filter (\<lambda>c. map_option (Pair c) (committed_seq_of st c)) ?t) \<longleftrightarrow>
        i \<in> set ?t \<and> committed_seq_of st i = Some s"
      by (auto simp: mem_map_filter)
    also have "\<dots> \<longleftrightarrow> i \<in> consumed st target \<and> committed_seq_of st i = Some s"
      unfolding t(2) by (auto simp: consumed_def committed_seq_of_def)
    finally show "(i, s) \<in> set (List.map_filter (\<lambda>c. map_option (Pair c) (committed_seq_of st c)) ?t) \<longleftrightarrow>
        (i, s) \<in> {(i, s). i \<in> consumed st target \<and> committed_seq_of st i = Some s}" by simp
  qed
qed

lemma cascade_entries:
  assumes "children_ok st"
  obtains (missing) "committed_of st target = None"
      "cascade_repudiation_entries blake3 st target reason rid n = Inl (TargetNotCommitted target)"
  | (large) "committed_of st target \<noteq> None" "1 + card (consumed st target) > n"
      "cascade_repudiation_entries blake3 st target reason rid n = Inl (CascadeTooLarge (1 + card (consumed st target)) n)"
  | (ok) es where "committed_of st target \<noteq> None" "1 + card (consumed st target) \<le> n"
      "cascade_repudiation_entries blake3 st target reason rid n = Inr es" "length es = 1 + card (consumed st target)"
      "\<forall>e \<in> set es. \<exists>i s r k. i \<in> poisoned st target \<and> committed_seq_of st i = Some s \<and> e = repudiated_entry_of blake3 i s r k"
      "\<forall>i \<in> poisoned st target. \<exists>s r k. committed_seq_of st i = Some s \<and> repudiated_entry_of blake3 i s r k \<in> set es"
proof -
  note d = downstream_consumed [OF assms, of target]
  let ?ds = "List.map_filter (\<lambda>c. map_option (Pair c) (committed_seq_of st c)) (transitive_consumers st target)"
  consider "committed_of st target = None" | ts where "committed_seq_of st target = Some ts" "committed_of st target \<noteq> None"
    by (auto simp: committed_seq_of_def)
  then show thesis
  proof cases
    case 1
    then show thesis by (intro missing) (simp_all add: cascade_repudiation_entries_def committed_seq_of_def)
  next
    case 2
    show thesis
    proof (cases "1 + card (consumed st target) > n")
      case True
      then show thesis using 2 d(1) by (intro large) (simp_all add: cascade_repudiation_entries_def Let_def)
    next
      case False
      let ?es = "repudiated_entry_of blake3 target ts reason rid
        # map (\<lambda>(i, s). repudiated_entry_of blake3 i s UpstreamCascade COORDINATOR_REPUDIATOR_ID) ?ds"
      have mem: "e \<in> set ?es \<longleftrightarrow> e = repudiated_entry_of blake3 target ts reason rid \<or>
          (\<exists>i s. i \<in> consumed st target \<and> committed_seq_of st i = Some s \<and>
             e = repudiated_entry_of blake3 i s UpstreamCascade COORDINATOR_REPUDIATOR_ID)" for e
        using d(2) by auto
      have com: "i \<in> consumed st target \<Longrightarrow> \<exists>s. committed_seq_of st i = Some s" for i
        by (auto simp: consumed_def committed_seq_of_def)
      show thesis
      proof (rule ok [OF 2(2) _ _ _ ballI ballI])
        show "cascade_repudiation_entries blake3 st target reason rid n = Inr ?es"
          using 2 d(1) False by (simp add: cascade_repudiation_entries_def Let_def)
        show "\<exists>i s r k. i \<in> poisoned st target \<and> committed_seq_of st i = Some s \<and> e = repudiated_entry_of blake3 i s r k"
          if "e \<in> set ?es" for e
          using that 2 unfolding mem poisoned_def by auto
        show "\<exists>s r k. committed_seq_of st i = Some s \<and> repudiated_entry_of blake3 i s r k \<in> set ?es"
          if "i \<in> poisoned st target" for i
          using that 2 com unfolding mem poisoned_def by fastforce
      qed (use False d(1) in simp_all)
    qed
  qed
qed

section \<open>What a repudiation does\<close>

lemma tracks_facts:
  assumes "tracks st log"
  shows "state_of_id st i = log_state i log" "children_ok st"
    "committed_seq_of st i = map_option c_seq (log_commit i log)"
proof -
  obtain ops where ops: "run_ops None ops pstate_default = Inr st" "entries_of ops = log"
    using assms by (auto simp: tracks_def)
  show "state_of_id st i = log_state i log"
    using run_ops_state [OF ops(1)] ops(2) by simp
  show "children_ok st"
    by (rule proj_reach_children_ok [OF run_ops_reach [OF proj_reach.new ops(1)]])
  have "mi_committed (facts (moteinfo st i)) =
      map_option (\<lambda>c. (committed_info_of c)\<lparr>ci_repudiated := log_repudiated i log\<rparr>) (log_commit i log)"
    using run_ops_log_info [OF ops(1), of i] ops(2) by (simp add: log_info_ok_def)
  then show "committed_seq_of st i = map_option c_seq (log_commit i log)"
    by (simp add: committed_seq_of_def committed_of_info facts_committed option.map_comp comp_def committed_info_of_def)
qed

lemma log_commit_mem: "log_commit i log = Some d \<Longrightarrow> Committed d \<in> set log \<and> c_mote_id d = i"
  by (induction i log rule: log_commit.induct) (auto split: if_splits)

text \<open>The keys of the repudiations in play: those recorded, and those of the commits that stand.\<close>

definition repudiation_keys :: "coord \<Rightarrow> (mote_id \<times> u64) set" where
  "repudiation_keys c = {(r_target_mote_id r, r_target_committed_seq r) | r. Repudiated r \<in> set (clog c)} \<union>
     {(i, s). committed_seq_of (cr_projection c) i = Some s}"

text \<open>The batch names standing commits only, so that what it adds keeps the log grounded.\<close>

lemma repudiation_entry_names:
  assumes "core_inv blake3 c" "committed_seq_of (cr_projection c) i = Some s" "stored_as blake3 (repudiated_entry_of blake3 i s q k) x"
  shows "names_commit (clog c) x \<and> is_repudiation i x"
proof -
  obtain d where "log_commit i (clog c) = Some d" "c_seq d = s"
    using assms(2) tracks_facts(3) [OF core_invD(3) [OF assms(1)], of i] by auto
  then have "Committed d \<in> set (clog c)" "c_mote_id d = i" "c_seq d = s"
    using log_commit_mem by auto
  then show ?thesis
    using assms(3) by (auto simp: stored_as_def repudiated_entry_of_def names_commit_def)
qed

lemma named_commits_grounded:
  assumes "seqs_dense (log @ new)" "length (log @ new) + 1 < 2 ^ 64" "\<forall>e \<in> set new. names_commit log e"
  shows "grounded new"
  unfolding grounded_def
proof (intro allI impI)
  fix r assume r: "Repudiated r \<in> set new"
  then obtain d where d: "Committed d \<in> set log" "c_seq d = r_target_committed_seq r"
    using assms(3) by (auto simp: names_commit_def)
  obtain m where m: "m < length log" "log ! m = Committed d" using d(1) by (auto simp: in_set_conv_nth)
  obtain k where k: "k < length new" "new ! k = Repudiated r" using r by (auto simp: in_set_conv_nth)
  have "unat (c_seq d) = Suc m" using seq_position [OF assms(1,2), of m] m by (simp add: nth_append)
  moreover have "unat (r_seq r) = Suc (length log + k)"
    using seq_position [OF assms(1,2), of "length log + k"] k by (simp add: nth_append)
  ultimately show "r_target_committed_seq r < r_seq r"
    using m(1) d(2) by (simp add: word_less_nat_alt)
qed

text \<open>Every Mote of the batch ends repudiated in the log: by this batch, or by an entry recorded before.\<close>

lemma recorded_repudiation:
  assumes inv: "core_inv blake3 c" and dense: "seqs_dense (clog c @ new)" "length (clog c @ new) + 1 < 2 ^ 64"
    and old: "grounded (clog c)" and keys: "\<forall>x \<in> set (clog c @ new). derive_key blake3 x = x"
    and new: "\<forall>x \<in> set new. \<exists>i s r k. committed_seq_of (cr_projection c) i = Some s \<and>
        stored_as blake3 (repudiated_entry_of blake3 i s r k) x"
    and inj: "inj_on (\<lambda>(i, s). repudiation_idempotency_key blake3 i s) (repudiation_keys c)"
    and i: "committed_seq_of (cr_projection c) i = Some s"
    and x: "x \<in> set (clog c @ new)" "same_fact (derive_key blake3 (repudiated_entry_of blake3 i s r k)) x"
  shows "log_repudiated i (clog c @ new)"
proof -
  obtain q where q: "x = Repudiated q"
    using x(2) by (cases x) (auto simp: same_fact_def repudiated_entry_of_def)
  have "idempotency_key (derive_key blake3 x) = idempotency_key x" using bspec [OF keys x(1)] by simp
  then have "repudiation_idempotency_key blake3 (r_target_mote_id q) (r_target_committed_seq q) = repudiation_idempotency_key blake3 i s"
    using x(2) by (simp add: q same_fact_def repudiated_entry_of_def)
  moreover have "(r_target_mote_id q, r_target_committed_seq q) \<in> repudiation_keys c"
    using x(1) new unfolding repudiation_keys_def q
    by (fastforce simp: stored_as_def repudiated_entry_of_def)
  moreover have "(i, s) \<in> repudiation_keys c" using i by (simp add: repudiation_keys_def)
  ultimately have same: "r_target_mote_id q = i" "r_target_committed_seq q = s"
    using inj_onD [OF inj, of "(r_target_mote_id q, r_target_committed_seq q)" "(i, s)"] by simp_all
  obtain d where d: "Committed d \<in> set (clog c)" "c_mote_id d = i" "c_seq d = s"
    using i tracks_facts(3) [OF core_invD(3) [OF inv], of i] log_commit_mem by fastforce
  have "\<forall>e \<in> set new. names_commit (clog c) e"
    using new repudiation_entry_names [OF inv] by blast
  then have "grounded (clog c @ new)"
    using old named_commits_grounded [OF dense] by (simp add: grounded_append)
  from grounded_repudiated [OF dense this] show ?thesis
    using x(1) d same q by force
qed

text \<open>The effect of a batch that names the poisoned Motes on the state of each Mote.\<close>

lemma repudiation_batch_state:
  assumes inv: "core_inv blake3 c" and old: "grounded (clog c)"
    and inj: "inj_on (\<lambda>(i, s). repudiation_idempotency_key blake3 i s) (repudiation_keys c)"
    and es: "\<forall>e \<in> set es. \<exists>i s r k. i \<in> A \<and> committed_seq_of (cr_projection c) i = Some s \<and> e = repudiated_entry_of blake3 i s r k"
      "\<forall>i \<in> A. \<exists>s r k. committed_seq_of (cr_projection c) i = Some s \<and> repudiated_entry_of blake3 i s r k \<in> set es"
    and run: "append_all blake3 es (cjournal c) = (xs, cjournal c')" "core_inv blake3 c'" "has_room c'"
  shows "grounded (clog c')"
    "state_of_id (cr_projection c') i =
       (if i \<in> A \<and> state_of_id (cr_projection c) i \<noteq> MsInconsistent then MsRepudiated else state_of_id (cr_projection c) i)"
proof -
  obtain new where new: "clog c' = clog c @ new" "\<forall>x \<in> set new. \<exists>e \<in> set es. stored_as blake3 e x"
    using append_all_log [OF run(1)] by blast
  note trk = tracks_facts [OF core_invD(3) [OF inv]] and trk' = tracks_facts [OF core_invD(3) [OF run(2)]]
  have dense: "seqs_dense (clog c @ new)" "length (clog c @ new) + 1 < 2 ^ 64" "\<forall>x \<in> set (clog c @ new). derive_key blake3 x = x"
    using core_invD(1) [OF run(2)] run(3) unfolding new(1) [symmetric] by (simp_all add: journal_inv_def has_room_def)
  have src: "\<exists>i s r k. i \<in> A \<and> committed_seq_of (cr_projection c) i = Some s \<and> stored_as blake3 (repudiated_entry_of blake3 i s r k) x"
    if x: "x \<in> set new" for x
  proof -
    obtain e where "e \<in> set es" "stored_as blake3 e x" using new(2) x by blast
    then show ?thesis using es(1) by metis
  qed
  have names: "\<forall>x \<in> set new. names_commit (clog c) x"
    using src repudiation_entry_names [OF inv] by blast
  show "grounded (clog c')"
    using old named_commits_grounded [OF dense(1,2) names] by (simp add: new(1) grounded_append)
  have "log_state i (clog c @ new) = (if i \<in> A \<and> \<not> log_inconsistent i (clog c) then MsRepudiated else log_state i (clog c))"
  proof (cases "i \<in> A")
    case True
    then obtain s r k where s: "committed_seq_of (cr_projection c) i = Some s" "repudiated_entry_of blake3 i s r k \<in> set es"
      using es(2) by blast
    have com: "log_committed i (clog c)"
      using s(1) trk(3) [of i] log_commit_None [of i "clog c"] by auto
    have "dedupes (repudiated_entry_of blake3 i s r k)" by (simp add: repudiated_entry_of_def dedupes_def)
    then obtain x where x: "x \<in> set (clog c @ new)" "same_fact (derive_key blake3 (repudiated_entry_of blake3 i s r k)) x"
      using append_all_recorded [OF run(1) s(2)] new(1) by auto
    have "\<forall>x \<in> set new. \<exists>i s r k. committed_seq_of (cr_projection c) i = Some s \<and>
        stored_as blake3 (repudiated_entry_of blake3 i s r k) x"
      using src by blast
    from recorded_repudiation [OF inv dense(1,2) old dense(3) this inj s(1) x]
    have "log_repudiated i (clog c @ new)" .
    then show ?thesis
      using True com repudiations_log [OF names, of i] by (simp add: log_state_def)
  next
    case False
    have "\<not> is_repudiation i x" if x: "x \<in> set new" for x
    proof -
      obtain i' s r k where "i' \<in> A" "stored_as blake3 (repudiated_entry_of blake3 i' s r k) x" using src [OF x] by blast
      then show ?thesis using False by (auto simp: stored_as_def repudiated_entry_of_def)
    qed
    then show ?thesis using False repudiations_log_state [OF names, of i] by simp
  qed
  moreover have "log_inconsistent i (clog c) \<longleftrightarrow> log_state i (clog c) = MsInconsistent"
    by (simp add: log_state_def)
  ultimately show "state_of_id (cr_projection c') i =
      (if i \<in> A \<and> state_of_id (cr_projection c) i \<noteq> MsInconsistent then MsRepudiated else state_of_id (cr_projection c) i)"
    using trk(1) [of i] trk'(1) [of i] new(1) by simp
qed

text \<open>
  C12: a repudiation marks the target and exactly the committed Motes that consumed it through
  cascading edges, leaves the state of every other Mote as it was, and keeps the core's invariant;
  a refused or failed one changes no state and records nothing. It is refused exactly when the
  target is not committed or the set exceeds the ceiling. The reported size counts the consumers
  whether or not they were repudiated before. Keys of the repudiations in play do not collide.
\<close>

theorem repudiation_contains_poison:
  assumes "core_inv blake3 c" and "grounded (clog c)"
    and "inj_on (\<lambda>(i, s). repudiation_idempotency_key blake3 i s) (repudiation_keys c)"
    and "repudiate_cascade blake3 target reason rid c = (r, c')" and "has_room c'"
  shows "core_inv blake3 c' \<and> grounded (clog c') \<and>
    (r = Inl (TargetNotCommitted target) \<longleftrightarrow> committed_of (cr_projection c) target = None) \<and>
    ((\<exists>n m. r = Inl (CascadeTooLarge n m)) \<longleftrightarrow>
       committed_of (cr_projection c) target \<noteq> None \<and> card (consumed (cr_projection c) target) \<ge> 10000) \<and>
    (case r of
       Inl _ \<Rightarrow> clog c' = clog c \<and> (\<forall>i. state_of_id (cr_projection c') i = state_of_id (cr_projection c) i)
     | Inr out \<Rightarrow> ro_target out = target \<and> ro_cascade_size out = card (consumed (cr_projection c) target) \<and>
         (\<forall>i. state_of_id (cr_projection c') i =
            (if i \<in> poisoned (cr_projection c) target \<and> state_of_id (cr_projection c) i \<noteq> MsInconsistent then MsRepudiated
             else state_of_id (cr_projection c) i)))"
proof -
  note trk = tracks_facts [OF core_invD(3) [OF assms(1)]]
  from trk(2) show ?thesis
  proof (cases rule: cascade_entries [of "cr_projection c" target blake3 reason rid DEFAULT_CASCADE_CEILING])
    case (ok es)
    note es = ok
    note run = assms(4) [unfolded repudiate_cascade_def es(3) sum.case Let_def]
    have wk: "\<forall>e \<in> set es. well_keyed e" using es(5) by (auto simp: repudiated_entry_of_def)
    from assms(1) wk show ?thesis
    proof (cases rule: batch_fold_cases)
      case (fault c1)
      then have "r = Inl RepudiationAppend" "c' = c1" using run by (simp_all add: then_st_def err_st_def map_err_def)
      then show ?thesis
        using fault es(1,2) assms(2) by (simp add: DEFAULT_CASCADE_CEILING_def)
    next
      case (ok xs c1 c2)
      have "snd (repudiate_cascade blake3 target reason rid c) = c2"
        using es(3) ok(1,4) by (auto simp: repudiate_cascade_def Let_def then_st_def err_st_def map_err_def split: prod.splits sum.splits)
      then have c2: "c2 = c'" using assms(4) by simp
      then have fin: "fold_new xs c1 = (Inr (), c')" "core_inv blake3 c'" using ok(5) assms(5) by simp_all
      then have r: "r = Inr \<lparr>ro_target = target, ro_cascade_size = card (consumed (cr_projection c) target)\<rparr>"
        using run ok(1) es(4) by (simp add: then_st_def err_st_def map_err_def)
      have "append_all blake3 es (cjournal c) = (xs, cjournal c')" using ok(2,3) c2 by simp
      note st = repudiation_batch_state [OF assms(1-3) es(5,6) this fin(2) assms(5)]
      show ?thesis using st fin(2) es(1,2) by (simp add: r DEFAULT_CASCADE_CEILING_def)
    qed
  next
    case missing
    then have "r = Inl (TargetNotCommitted target)" "c' = c" using assms(4) by (simp_all add: repudiate_cascade_def)
    then show ?thesis using assms(1,2) missing(1) by simp
  next
    case large
    have "(r, c') = (Inl (CascadeTooLarge (1 + card (consumed (cr_projection c) target)) DEFAULT_CASCADE_CEILING), c)"
      unfolding assms(4) [symmetric] by (simp only: repudiate_cascade_def large(3) sum.case)
    then have "r = Inl (CascadeTooLarge (1 + card (consumed (cr_projection c) target)) DEFAULT_CASCADE_CEILING)" "c' = c"
      by blast+
    then show ?thesis using assms(1,2) large(1,2) by (simp add: DEFAULT_CASCADE_CEILING_def)
  qed
qed

text \<open>Mote 2 consumed Mote 1 and both are committed; 3 is unrelated.\<close>

definition key_hash :: hash_fn where
  "key_hash bs = be_word (take 32 (drop 11 bs))"

lemma key_hash_key [simp]: "repudiation_idempotency_key key_hash i s = i"
  by (simp add: repudiation_idempotency_key_def key_hash_def ascii_def)

definition sample_chain :: coord where
  "sample_chain =
     snd (commit_one key_hash (ent_committed 3 Pure [] 0)
       (snd (commit_one key_hash (ent_committed 2 Pure [\<lparr>pe_parent_id = 1, pe_edge_kind = 0, pe_non_cascade = 0\<rparr>] 0)
         (snd (commit_one key_hash (ent_committed 1 Pure [] 0) (fresh_core [] [] None))))))"

lemma commit_one_keeps:
  "core_inv blake3 c \<Longrightarrow> has_room c \<Longrightarrow> well_keyed e \<Longrightarrow> core_inv blake3 (snd (commit_one blake3 e c))"
  using commit_one_facts(2) [of blake3 c e "fst (commit_one blake3 e c)" "snd (commit_one blake3 e c)"
    "fst (append_entry blake3 e (cjournal c))" "snd (append_entry blake3 e (cjournal c))"] by simp

lemmas sample_chain_defs = sample_chain_def commit_one_def fresh_core_def append_entry_def existing_def dedupes_def same_fact_def
  journal_new_def ent_committed_def fold_durable_def run_eval with_journal_def

lemma sample_chain_journal:
  "cr_journal sample_chain = \<lparr>fj_journal = \<lparr>j_entries = [ent_committed 1 Pure [] 1,
     ent_committed 2 Pure [\<lparr>pe_parent_id = 1, pe_edge_kind = 0, pe_non_cascade = 0\<rparr>] 2, ent_committed 3 Pure [] 3],
     j_next_seq = 3\<rparr>, fj_append_fails = [], fj_read_fails = False\<rparr>"
  by (simp add: sample_chain_defs)

lemma sample_chain_inv: "core_inv key_hash sample_chain"
  unfolding sample_chain_def
  by (intro commit_one_keeps fresh_core_inv) (simp_all add: has_room_def sample_chain_defs)

lemma sample_chain_committed: "committed_seq_of (cr_projection sample_chain) i = (if i = 1 then Some 1 else if i = 2 then Some 2 else if i = 3 then Some 3 else None)"
  using tracks_facts(3) [OF core_invD(3) [OF sample_chain_inv], of i] by (simp add: sample_chain_journal ent_committed_def)

lemma sample_chain_children: "st_children (cr_projection sample_chain) = [(1, [(2, data_edge)])]"
  by (simp add: sample_chain_defs data_edge_def to_parent_ref_def)

lemma sample_consumers: "transitive_consumers (cr_projection sample_chain) 1 = [2]"
  by (simp add: transitive_consumers_def sample_chain_children should_walk_def adj_def data_edge_def)

lemma sample_cascade_log: "length (clog (snd (repudiate_cascade key_hash 1 OperatorAction 7 sample_chain))) = 5"
proof -
  have es: "cascade_repudiation_entries key_hash (cr_projection sample_chain) 1 OperatorAction 7 DEFAULT_CASCADE_CEILING =
      Inr [repudiated_entry_of key_hash 1 1 OperatorAction 7, repudiated_entry_of key_hash 2 2 UpstreamCascade COORDINATOR_REPUDIATOR_ID]"
    by (simp add: cascade_repudiation_entries_def sample_consumers sample_chain_committed DEFAULT_CASCADE_CEILING_def)
  have "cr_journal (snd (repudiate_cascade key_hash 1 OperatorAction 7 sample_chain)) = cr_journal (snd (append_batch_c key_hash [repudiated_entry_of key_hash 1 1 OperatorAction 7,
      repudiated_entry_of key_hash 2 2 UpstreamCascade COORDINATOR_REPUDIATOR_ID] sample_chain))"
    using fold_new_journal [of _ "snd (append_batch_c key_hash [repudiated_entry_of key_hash 1 1 OperatorAction 7,
      repudiated_entry_of key_hash 2 2 UpstreamCascade COORDINATOR_REPUDIATOR_ID] sample_chain)"]
    by (auto simp: repudiate_cascade_def es then_st_def err_st_def map_err_def Let_def simp del: fold_new_journal
       split: prod.splits sum.splits) (metis snd_conv)+
  also have "length (j_entries (fj_journal \<dots>)) = 5"
    by (simp add: append_batch_c_def sample_chain_journal append_batch_eq_append_all append_entry_def existing_def dedupes_def
        same_fact_def repudiated_entry_of_def ent_committed_def Let_def)
  finally show ?thesis .
qed

theorem repudiation_contains_poison_witness:
  "\<exists>c'. repudiate_cascade key_hash 1 OperatorAction 7 sample_chain = (Inr \<lparr>ro_target = 1, ro_cascade_size = 1\<rparr>, c') \<and>
     state_of_id (cr_projection c') 1 = MsRepudiated \<and> state_of_id (cr_projection c') 2 = MsRepudiated \<and>
     state_of_id (cr_projection c') 3 = MsCommitted"
proof -
  let ?st = "cr_projection sample_chain"
  obtain r c' where run: "repudiate_cascade key_hash 1 OperatorAction 7 sample_chain = (r, c')" by fastforce
  have len: "length (clog c') = 5" using sample_cascade_log by (simp add: run)
  then have room: "has_room c'" by (simp add: has_room_def)
  have grd: "grounded (clog sample_chain)" by (auto simp: grounded_def sample_chain_journal ent_committed_def)
  have inj: "inj_on (\<lambda>(i, s). repudiation_idempotency_key key_hash i s) (repudiation_keys sample_chain)"
    by (auto simp: inj_on_def repudiation_keys_def sample_chain_journal ent_committed_def sample_chain_committed split: if_splits)
  note R = repudiation_contains_poison [OF sample_chain_inv grd inj run room]
  note trk = tracks_facts [OF core_invD(3) [OF sample_chain_inv]]
  have "{(2, 2)} = {(i, s). i \<in> consumed ?st 1 \<and> committed_seq_of ?st i = Some s}"
    using downstream_consumed(2) [OF trk(2), of 1] by (simp add: sample_consumers sample_chain_committed)
  moreover have "i \<in> consumed ?st 1 \<Longrightarrow> \<exists>s. committed_seq_of ?st i = Some s" for i
    by (auto simp: consumed_def committed_seq_of_def)
  ultimately have con: "consumed ?st 1 = {2}" by (simp add: set_eq_iff) metis
  have com: "committed_of ?st 1 \<noteq> None" using sample_chain_committed [of 1] by (auto simp: committed_seq_of_def)
  have old: "state_of_id ?st 1 = MsCommitted" "state_of_id ?st 2 = MsCommitted" "state_of_id ?st 3 = MsCommitted"
    using trk(1) by (simp_all add: sample_chain_journal ent_committed_def log_state_def log_inconsistent_def log_repudiated_def
        log_committed_def occurs_Cons)
  obtain out where out: "r = Inr out"
    using R len by (cases r) (simp_all add: sample_chain_journal)
  have poi: "poisoned ?st 1 = {1, 2}" using com con by (auto simp: poisoned_def)
  have fin: "ro_target out = 1 \<and> ro_cascade_size out = 1 \<and> (\<forall>i. state_of_id (cr_projection c') i =
      (if i \<in> {1, 2} \<and> state_of_id ?st i \<noteq> MsInconsistent then MsRepudiated else state_of_id ?st i))"
    using R unfolding out poi con by simp
  then have "out = \<lparr>ro_target = 1, ro_cascade_size = 1\<rparr>" by (cases out) simp
  then show ?thesis using fin old run out by auto
qed

end
