(* ===== verification/Kx_Coord_Ops.thy ===== *)
theory Kx_Coord_Ops
  imports Kx_Coord_Repudiate
begin

text \<open>
  The single-fact operations of the owner thread (\<open>crates/kx-coordinator/src/state.rs\<close>): registering
  the run, staging an effect, dead-lettering, reaping dead workers, the approval handshake, and the
  two read-only reports. Clock readings, the fresh run id and the registry's verdict on a worker are
  arguments.
\<close>

unbundle bit_operations_syntax

section \<open>Registration and staging\<close>

definition stage_effect :: "hash_fn \<Rightarrow> mote_id \<Rightarrow> array32 \<Rightarrow> (coordinator_error, u64, coord) step" where
  "stage_effect blake3 i key = append_fold blake3 (EffectStaged \<lparr>es_mote_id = i, es_idempotency_key = key, es_seq = 0\<rparr>)"

definition register_run ::
  "hash_fn \<Rightarrow> u64 \<Rightarrow> array16 \<Rightarrow> array32 \<Rightarrow> (coordinator_error, array16, coord) step"
where
  "register_run blake3 now fresh recipe_fingerprint c =
     (case st_run_registration (cr_projection c) of
        Some (instance_id, _) \<Rightarrow> (Inr instance_id, c)
      | None \<Rightarrow>
          if cr_folded_through c \<noteq> 0 then (Inl RunAlreadyStarted, c)
          else then_st (append_fold blake3 (RunRegistered \<lparr>rr_instance_id = fresh,
                 rr_recipe_fingerprint = recipe_fingerprint, rr_ts = now, rr_seq = 0\<rparr>)) (\<lambda>_ c'. (Inr fresh, c')) c)"

section \<open>Failures\<close>

definition COORDINATOR_REPORTER_ID :: u128 where
  "COORDINATOR_REPORTER_ID = 0"

definition failed_worker_crashed_entry :: "mote_id \<Rightarrow> journal_entry" where
  "failed_worker_crashed_entry i =
     Failed \<lparr>f_mote_id = i, f_idempotency_key = i, f_seq = 0, f_reason_class = WorkerCrashed,
       f_reporter_id = COORDINATOR_REPORTER_ID, f_detail = []\<rparr>"

definition worker_reporter_id :: "worker_id \<Rightarrow> u128" where
  "worker_reporter_id worker = push_bit 64 1 OR ucast worker"

definition dead_letter_failure ::
  "hash_fn \<Rightarrow> mote_id \<Rightarrow> array32 \<Rightarrow> failure_reason \<Rightarrow> worker_id \<Rightarrow> rstring \<Rightarrow>
     (coordinator_error, u64 \<times> bool, coord) step"
where
  "dead_letter_failure blake3 i key reason_class worker detail c =
     (if state_of_id (cr_projection c) i \<notin> {MsPending, MsScheduled}
      then (Inr (0, False), c\<lparr>cr_tracker := resolve_committed i (cr_tracker c)\<rparr>)
      else if \<not> is_held_by (cr_tracker c) i worker then (Inl (NotLeased i worker), c)
      else then_st (append_fold blake3 (Failed \<lparr>f_mote_id = i, f_idempotency_key = key, f_seq = 0,
             f_reason_class = reason_class, f_reporter_id = worker_reporter_id worker, f_detail = detail\<rparr>))
           (\<lambda>seq c'. (Inr (seq, True),
              c'\<lparr>cr_submitted := bs_remove i (cr_submitted c'), cr_defs := bt_remove i (cr_defs c'),
                 cr_tracker := resolve_committed i (cr_tracker c')\<rparr>)) c)"

definition reap_mote :: "hash_fn \<Rightarrow> mote_id \<Rightarrow> coord \<Rightarrow> coord" where
  "reap_mote blake3 i c =
     (if state_of_id (cr_projection c) i = MsCommitted
      then c\<lparr>cr_tracker := resolve_committed i (cr_tracker c)\<rparr>
      else append_then blake3 (failed_worker_crashed_entry i)
        (\<lambda>c'. c'\<lparr>cr_tracker := snd (record_crash i PURE_RETRY_BUDGET (cr_tracker c'))\<rparr>) c)"

definition reap_worker :: "hash_fn \<Rightarrow> (worker_id \<Rightarrow> worker_status option) \<Rightarrow> worker_id \<Rightarrow> coord \<Rightarrow> coord" where
  "reap_worker blake3 status_of worker c =
     (if status_of worker \<noteq> Some Dead then c
      else case take_leases worker (cr_tracker c) of
          (motes, t) \<Rightarrow> fold (reap_mote blake3) motes (c\<lparr>cr_tracker := t\<rparr>))"

definition reap_dead_workers :: "hash_fn \<Rightarrow> (worker_id \<Rightarrow> worker_status option) \<Rightarrow> coord \<Rightarrow> coord" where
  "reap_dead_workers blake3 status_of c =
     fold (reap_worker blake3 status_of) (leasing_workers (cr_tracker c)) c"

section \<open>The approval handshake\<close>

definition MAX_APPROVAL_TEXT_LEN :: nat where
  "MAX_APPROVAL_TEXT_LEN = 512"

definition truncate_for_approval :: "rstring \<Rightarrow> rstring" where
  "truncate_for_approval s =
     (case utf8_chars s of
        None \<Rightarrow> s
      | Some cs \<Rightarrow> if length cs \<le> MAX_APPROVAL_TEXT_LEN then s else concat (take MAX_APPROVAL_TEXT_LEN cs))"

datatype approval_gate = GateProceed | GateWait | GateDeadLetter

definition tool_needs_approval :: "idempotency_class option \<Rightarrow> bool" where
  "tool_needs_approval cls \<longleftrightarrow> cls = Some IcStaged \<or> cls = Some IcAtLeastOnce"

definition append_approval :: "hash_fn \<Rightarrow> array16 \<Rightarrow> array16 \<Rightarrow> mote_id \<Rightarrow> approval_state \<Rightarrow> coord \<Rightarrow> coord" where
  "append_approval blake3 instance_id request_id awaiting_mote_id state =
     append_then blake3 (Approval \<lparr>ap_instance_id = instance_id, ap_request_id = request_id,
       ap_awaiting_mote_id = awaiting_mote_id, ap_state = state, ap_seq = 0\<rparr>) id"

definition approval_gate_decision ::
  "hash_fn \<Rightarrow> u64 \<Rightarrow> array16 \<Rightarrow> mote_id \<Rightarrow> rstring \<Rightarrow> rstring \<Rightarrow> coord \<Rightarrow> approval_gate \<times> coord"
where
  "approval_gate_decision blake3 now instance_id obs_id tool_id tool_version c =
     (let request_id = approval_request_id blake3 instance_id obs_id in
      case map_option ap_state (approval_latest_for (cr_projection c) request_id) of
        Some (Granted _ _ _) \<Rightarrow> (GateProceed, c)
      | Some (Denied _ _ _) \<Rightarrow> (GateDeadLetter, c)
      | Some (Expired _) \<Rightarrow> (GateDeadLetter, c)
      | Some (Requested _ _ _ _ _) \<Rightarrow> (GateWait, c)
      | None \<Rightarrow>
          let intent = ascii ''world-mutating tool call: '' @ tool_id @ ascii ''@'' @ tool_version in
          (GateWait, append_approval blake3 instance_id request_id obs_id
             (Requested tool_id tool_version (truncate_for_approval intent) 0 now) c))"

definition decide_approval :: "hash_fn \<Rightarrow> u64 \<Rightarrow> array16 \<Rightarrow> bool \<Rightarrow> u64 \<Rightarrow> rstring \<Rightarrow> coord \<Rightarrow> bool \<times> coord" where
  "decide_approval blake3 now request_id grant operator_id reason c =
     (case approval_latest_for (cr_projection c) request_id of
        Some r \<Rightarrow>
          if is_requested (ap_state r)
          then let reason' = truncate_for_approval reason;
                   state = (if grant then Granted operator_id reason' now else Denied operator_id reason' now)
               in (True, append_approval blake3 (ap_instance_id r) request_id (ap_awaiting_mote_id r) state c)
          else (False, c)
      | None \<Rightarrow> (False, c))"

record pending_approval_view =
  pv_request_id :: array16
  pv_instance_id :: array16
  pv_mote_id :: mote_id
  pv_tool_id :: rstring
  pv_tool_version :: rstring
  pv_intent :: rstring
  pv_deadline_unix_ms :: u64
  pv_created_unix_ms :: u64

fun approval_view :: "approval_record \<Rightarrow> pending_approval_view option" where
  "approval_view r =
     (case ap_state r of
        Requested tool_id tool_version intent deadline created \<Rightarrow>
          Some \<lparr>pv_request_id = ap_request_id r, pv_instance_id = ap_instance_id r, pv_mote_id = ap_awaiting_mote_id r,
            pv_tool_id = tool_id, pv_tool_version = tool_version, pv_intent = intent,
            pv_deadline_unix_ms = deadline, pv_created_unix_ms = created\<rparr>
      | _ \<Rightarrow> None)"

definition list_pending_approvals :: "pstate \<Rightarrow> pending_approval_view list" where
  "list_pending_approvals st = List.map_filter approval_view (pending_approvals st)"

section \<open>Reports\<close>

fun is_committed_entry :: "journal_entry \<Rightarrow> bool" where
  "is_committed_entry (Committed _) = True"
| "is_committed_entry _ = False"

fun scan_committed :: "u64 \<Rightarrow> nat \<Rightarrow> u64 \<Rightarrow> journal_entry list \<Rightarrow> journal_entry list \<Rightarrow> journal_entry list \<times> u64" where
  "scan_committed since_seq cap current [] entries = (entries, current)"
| "scan_committed since_seq cap current (e # es) entries =
     (if is_committed_entry e
      then if length entries = cap
           then (entries, if entries = [] then since_seq else entry_seq (last entries))
           else scan_committed since_seq cap current es (entries @ [e])
      else scan_committed since_seq cap current es entries)"

definition read_committed_since ::
  "fjournal \<Rightarrow> u64 \<Rightarrow> nat \<Rightarrow> (coordinator_error, journal_entry list \<times> u64) result"
where
  "read_committed_since f since_seq cap =
     (if fj_read_fails f then Inl JournalErr
      else let current = current_seq (fj_journal f) in
        if since_seq \<ge> current \<or> cap = 0 then Inr ([], current)
        else Inr (scan_committed since_seq cap current
               (read_entries_by_seq (since_seq + 1) (current + 1) (fj_journal f)) []))"

text \<open>\<open>u64::saturating_add\<close>\<close>

definition sat_add :: "u64 \<Rightarrow> u64 \<Rightarrow> u64" where
  "sat_add a b = (if a + b < a then - 1 else a + b)"

fun branch_calls :: "react_branch \<Rightarrow> u64" where
  "branch_calls (ToolCall _ _) = 1"
| "branch_calls (Rejected _) = 1"
| "branch_calls (ToolBatch calls) = of_nat (length calls)"
| "branch_calls _ = 0"

definition run_cost_counts :: "pstate \<Rightarrow> array16 \<Rightarrow> u64 \<times> u64" where
  "run_cost_counts st instance_id =
     fold (\<lambda>(inst, salt) (turns, tool_calls).
        if inst \<noteq> instance_id then (turns, tool_calls)
        else ((case latest_react_round st inst salt of
                 None \<Rightarrow> turns
               | Some latest \<Rightarrow> sat_add turns (sat_add (ucast (ra_turn latest)) 1)),
              fold (\<lambda>r n. sat_add n (branch_calls (ra_branch r))) (react_rounds_of st inst salt) tool_calls))
       (react_chains st) (0, 0)"

section \<open>Every operation advances the core\<close>

text \<open>The sort of entries an operation may add.\<close>

fun is_approval :: "journal_entry \<Rightarrow> bool" where
  "is_approval (Approval _) = True"
| "is_approval _ = False"

lemma stage_effect_advances: "runs (advances blake3 (is_staged i)) (stage_effect blake3 i key)"
  unfolding stage_effect_def by (rule append_fold_runs) (auto simp: stored_as_def)

lemma register_run_advances:
  "runs (advances blake3 (\<lambda>e. \<exists>r. e = RunRegistered r)) (register_run blake3 now fresh fp)"
proof -
  let ?e = "RunRegistered \<lparr>rr_instance_id = fresh, rr_recipe_fingerprint = fp, rr_ts = now, rr_seq = 0\<rparr>"
  have "runs (advances blake3 (\<lambda>e. \<exists>r. e = RunRegistered r)) (then_st (append_fold blake3 ?e) (\<lambda>_ c'. (Inr fresh, c')))"
    by (intro runs_then advances_trans append_fold_runs runs_return advances_refl) (auto simp: stored_as_def)
  then show ?thesis
    unfolding runs_snd register_run_def by (simp split: option.splits)
qed

lemma books_advances: "books_only c (c\<lparr>cr_tracker := t\<rparr>)"
  "books_only c (c\<lparr>cr_submitted := s, cr_defs := d, cr_tracker := t\<rparr>)"
  by (simp_all add: books_only_def)

lemma dead_letter_advances: "runs (advances blake3 (is_failed i)) (dead_letter_failure blake3 i key reason worker detail)"
proof -
  let ?e = "Failed \<lparr>f_mote_id = i, f_idempotency_key = key, f_seq = 0, f_reason_class = reason,
    f_reporter_id = worker_reporter_id worker, f_detail = detail\<rparr>"
  have "runs (advances blake3 (is_failed i)) (then_st (append_fold blake3 ?e) (\<lambda>seq c'. (Inr (seq, True),
              c'\<lparr>cr_submitted := bs_remove i (cr_submitted c'), cr_defs := bt_remove i (cr_defs c'),
                 cr_tracker := resolve_committed i (cr_tracker c')\<rparr>)))"
    by (intro runs_then advances_trans append_fold_runs)
      (auto simp: stored_as_def runs_snd intro!: books_only_advances books_advances)
  then show ?thesis
    unfolding runs_snd dead_letter_failure_def by (auto intro!: books_only_advances books_advances)
qed

lemma reap_mote_advances: "advances blake3 (\<lambda>e. \<exists>j. is_failed j e) c (reap_mote blake3 i c)"
proof (cases "state_of_id (cr_projection c) i = MsCommitted")
  case True
  then show ?thesis by (simp add: reap_mote_def books_only_advances books_advances)
next
  case False
  have "advances blake3 (\<lambda>e. \<exists>j. is_failed j e) c (append_then blake3 (failed_worker_crashed_entry i)
      (\<lambda>c'. c'\<lparr>cr_tracker := snd (record_crash i PURE_RETRY_BUDGET (cr_tracker c'))\<rparr>) c)"
    by (rule append_then_advances)
      (auto simp: stored_as_def failed_worker_crashed_entry_def intro: books_only_advances books_advances)
  then show ?thesis using False by (simp add: reap_mote_def)
qed

lemma reap_worker_advances: "advances blake3 (\<lambda>e. \<exists>j. is_failed j e) c (reap_worker blake3 status_of w c)"
proof (cases "take_leases w (cr_tracker c)")
  case (Pair motes t)
  have "advances blake3 (\<lambda>e. \<exists>j. is_failed j e) c (c\<lparr>cr_tracker := t\<rparr>)"
    by (intro books_only_advances books_advances)
  from advances_transD [OF this advances_fold [of _ _ "reap_mote blake3", OF reap_mote_advances]] show ?thesis
    by (simp add: reap_worker_def Pair)
qed

lemma reap_advances: "advances blake3 (\<lambda>e. \<exists>j. is_failed j e) c (reap_dead_workers blake3 status_of c)"
  unfolding reap_dead_workers_def by (intro advances_fold reap_worker_advances)

lemma append_approval_advances: "advances blake3 is_approval c (append_approval blake3 inst rid i st c)"
  unfolding append_approval_def by (rule append_then_advances) (auto simp: stored_as_def)

lemma gate_advances: "advances blake3 is_approval c (snd (approval_gate_decision blake3 now inst obs tool ver c))"
  by (auto simp: approval_gate_decision_def Let_def append_approval_advances split: option.splits approval_state.splits)

lemma decide_advances: "advances blake3 is_approval c (snd (decide_approval blake3 now rid grant op reason c))"
  by (auto simp: decide_approval_def Let_def append_approval_advances split: option.splits)

end
