(* ===== verification/Kx_Coord_Ops_Properties.thy ===== *)
theory Kx_Coord_Ops_Properties
  imports Kx_Coord_Ops
begin

text \<open>
  What the single-fact operations of the owner thread guarantee: the feed of committed entries loses
  and repeats nothing, a request for approval is decided once and for all, and a dead letter is
  written exactly for work its reporter holds.
\<close>

section \<open>The feed of committed entries\<close>

definition committed_after :: "u64 \<Rightarrow> journal \<Rightarrow> journal_entry list" where
  "committed_after s j = filter (\<lambda>e. is_committed_entry e \<and> s < entry_seq e) (j_entries j)"

text \<open>A peer that asks again from the cursor it was given, until the cursor stands still.\<close>

fun follow :: "nat \<Rightarrow> fjournal \<Rightarrow> nat \<Rightarrow> u64 \<Rightarrow> journal_entry list \<times> u64" where
  "follow 0 f cap s = ([], s)"
| "follow (Suc n) f cap s =
     (case read_committed_since f s cap of
        Inl _ \<Rightarrow> ([], s)
      | Inr (es, next) \<Rightarrow>
          if next = s then (es, s)
          else let (rest, s') = follow n f cap next in (es @ rest, s'))"

lemma scan_committed_result:
  assumes "length acc \<le> cap"
  shows "scan_committed s cap cur es acc =
    (let cs = filter is_committed_entry es; out = acc @ take (cap - length acc) cs
     in (out, if length acc + length cs \<le> cap then cur else if out = [] then s else entry_seq (last out)))"
  using assms
proof (induction es arbitrary: acc)
  case (Cons e es)
  show ?case
  proof (cases "is_committed_entry e \<and> length acc < cap")
    case True
    then have "Suc (cap - Suc (length acc)) = cap - length acc" by (simp add: Suc_diff_Suc)
    then show ?thesis
      using True Cons.IH [of "acc @ [e]"] by (simp add: Let_def take_Cons')
  next
    case False
    then show ?thesis using Cons by (auto simp: Let_def)
  qed
qed simp

lemma committed_after_drop:
  assumes "journal_inv blake3 j" "length (j_entries j) + 1 < 2 ^ 64" "n \<le> length (j_entries j)"
  shows "committed_after (of_nat n) j = filter is_committed_entry (drop n (j_entries j))"
proof -
  let ?es = "j_entries j"
  have dense: "seqs_dense ?es" using assms(1) by (simp add: journal_inv_def)
  have n: "unat (of_nat n :: u64) = n" using assms(2,3) by (simp add: unat_of_nat_small)
  have "e \<notin> set (take n ?es)" if "of_nat n < entry_seq e" for e
    using that seq_position [OF dense assms(2)] n by (auto simp: in_set_conv_nth word_less_nat_alt)
  then have "filter (\<lambda>e. is_committed_entry e \<and> of_nat n < entry_seq e) (take n ?es) = []"
    by (auto simp: filter_empty_conv)
  moreover have "of_nat n < entry_seq e" if "e \<in> set (drop n ?es)" for e
  proof -
    obtain k where "k < length ?es - n" "e = ?es ! (n + k)" using \<open>e \<in> set (drop n ?es)\<close> by (auto simp: in_set_conv_nth)
    then show ?thesis using seq_position [OF dense assms(2), of "n + k"] n by (simp add: word_less_nat_alt)
  qed
  ultimately have "filter (\<lambda>e. is_committed_entry e \<and> of_nat n < entry_seq e) (take n ?es @ drop n ?es) =
      filter is_committed_entry (drop n ?es)"
    unfolding filter_append by (simp cong: filter_cong)
  then show ?thesis by (simp add: committed_after_def)
qed

text \<open>The first \<open>n\<close> elements a filter keeps end at a position of the list.\<close>

lemma take_filter_split:
  assumes "n \<le> length (filter P xs)"
  shows "\<exists>k \<le> length xs. filter P (take k xs) = take n (filter P xs) \<and> filter P (drop k xs) = drop n (filter P xs) \<and>
    (0 < n \<longrightarrow> 0 < k \<and> last (take n (filter P xs)) = xs ! (k - 1))"
  using assms
proof (induction xs arbitrary: n)
  case (Cons x xs)
  show ?case
  proof (cases "n = 0")
    case False
    define m where "m = (if P x then n - 1 else n)"
    then have "m \<le> length (filter P xs)" using Cons.prems False by (simp split: if_splits)
    from Cons.IH [OF this] obtain k where k: "k \<le> length xs" "filter P (take k xs) = take m (filter P xs)"
      "filter P (drop k xs) = drop m (filter P xs)" "0 < m \<longrightarrow> 0 < k \<and> last (take m (filter P xs)) = xs ! (k - 1)"
      by blast
    show ?thesis
    proof (cases "P x \<and> n = 1")
      case True
      then show ?thesis by (intro exI [of _ 1]) simp
    next
      case other: False
      then have m: "0 < m" "take n (filter P (x # xs)) = (if P x then x # take m (filter P xs) else take m (filter P xs))"
        "drop n (filter P (x # xs)) = drop m (filter P xs)"
        using False by (auto simp: m_def take_Cons' drop_Cons')
      have "take m (filter P xs) \<noteq> []"
        using \<open>m \<le> length (filter P xs)\<close> m(1) by auto
      then show ?thesis
        using k m by (intro exI [of _ "Suc k"]) (auto simp: nth_Cons')
    qed
  qed auto
qed simp

text \<open>One page: the next entries up to the cap, and a cursor in front of exactly what is left.\<close>

lemma feed_page:
  assumes inv: "journal_inv blake3 (fj_journal f)" and room: "length (j_entries (fj_journal f)) + 1 < 2 ^ 64"
    and ok: "\<not> fj_read_fails f" and cap: "0 < cap" and n: "n \<le> length (j_entries (fj_journal f))"
  obtains es m where "read_committed_since f (of_nat n) cap = Inr (es, of_nat m)" "n \<le> m"
    "m \<le> length (j_entries (fj_journal f))" "length es \<le> cap"
    "committed_after (of_nat n) (fj_journal f) = es @ committed_after (of_nat m) (fj_journal f)"
    "m = n \<longrightarrow> n = length (j_entries (fj_journal f))"
proof -
  let ?j = "fj_journal f" and ?es = "j_entries (fj_journal f)"
  have cur: "current_seq ?j = of_nat (length ?es)" using inv by (simp add: current_seq_def journal_inv_def)
  note small = unat_of_nat_small [where 'a = 64]
  show thesis
  proof (cases "n = length ?es")
    case True
    then show thesis using ok by (intro that [of "[]" n]) (simp_all add: read_committed_since_def cur Let_def)
  next
    case False
    then have lt: "\<not> (of_nat n :: u64) \<ge> of_nat (length ?es)"
      using n room by (simp add: word_le_nat_alt small)
    have "read_entries_by_seq (of_nat (n + 1)) (of_nat (length ?es + 1)) ?j = drop n ?es"
      using read_range [OF inv _ , of "n + 1" "length ?es + 1"] room n by simp
    then have run: "read_committed_since f (of_nat n) cap = Inr (scan_committed (of_nat n) cap (of_nat (length ?es)) (drop n ?es) [])"
      using ok cap lt by (simp add: read_committed_since_def cur Let_def add.commute)
    let ?cs = "filter is_committed_entry (drop n ?es)"
    have after: "committed_after (of_nat n) ?j = ?cs" by (rule committed_after_drop [OF inv room n])
    show thesis
    proof (cases "length ?cs \<le> cap")
      case True
      moreover have "committed_after (of_nat (length ?es)) ?j = []"
        using committed_after_drop [OF inv room, of "length ?es"] by simp
      ultimately show thesis
        using run n False after by (intro that [of ?cs "length ?es"]) (simp_all add: scan_committed_result)
    next
      case big: False
      let ?out = "take cap ?cs"
      obtain k where k: "k \<le> length (drop n ?es)" "filter is_committed_entry (drop k (drop n ?es)) = drop cap ?cs"
          "0 < k" "last ?out = drop n ?es ! (k - 1)"
        using take_filter_split [of cap is_committed_entry "drop n ?es"] big cap by auto
      have seq: "entry_seq (last ?out) = of_nat (n + k)"
        using k inv n by (simp add: journal_inv_def seqs_dense_def flip: of_nat_Suc)
      have "?out \<noteq> []" using cap big by auto
      then have "read_committed_since f (of_nat n) cap = Inr (?out, of_nat (n + k))"
        unfolding run using big seq by (simp add: scan_committed_result Let_def)
      moreover have "committed_after (of_nat (n + k)) ?j = drop cap ?cs"
        using committed_after_drop [OF inv room, of "n + k"] k n by (simp add: add.commute)
      ultimately show thesis
        using k n after by (intro that [of ?out "n + k"]) simp_all
    qed
  qed
qed

text \<open>
  C19: a peer that follows the cursor of the committed feed, with any page size, ends at the head
  of the journal holding exactly the committed entries past its starting point, each once and in
  order. As many requests as there are entries left, and one more, are always enough.
\<close>

theorem committed_feed_complete:
  assumes "journal_inv blake3 (fj_journal f)" and "length (j_entries (fj_journal f)) + 1 < 2 ^ 64"
    and "\<not> fj_read_fails f" and "0 < cap" and "unat since \<le> length (j_entries (fj_journal f))"
    and "length (j_entries (fj_journal f)) - unat since < requests"
  shows "follow requests f cap since = (committed_after since (fj_journal f), current_seq (fj_journal f))"
proof -
  let ?len = "length (j_entries (fj_journal f))"
  have cur: "current_seq (fj_journal f) = of_nat ?len" using assms(1) by (simp add: current_seq_def journal_inv_def)
  have "follow requests f cap (of_nat n) = (committed_after (of_nat n) (fj_journal f), of_nat ?len)"
    if "n \<le> ?len" "?len - n < requests" for n
    using that
  proof (induction requests arbitrary: n)
    case (Suc k)
    from feed_page [OF assms(1-4) Suc.prems(1)] obtain es m where
      m: "read_committed_since f (of_nat n) cap = Inr (es, of_nat m)" "n \<le> m" "m \<le> ?len"
        "committed_after (of_nat n) (fj_journal f) = es @ committed_after (of_nat m) (fj_journal f)" "m = n \<longrightarrow> n = ?len" .
    have end_empty: "committed_after (of_nat ?len) (fj_journal f) = []"
      using committed_after_drop [OF assms(1,2), of ?len] by simp
    show ?case
    proof (cases "m = n")
      case True
      then show ?thesis using m end_empty by simp
    next
      case False
      then have "(of_nat m :: u64) \<noteq> of_nat n"
        using m(2,3) assms(2) by (simp add: word_unat_eq_iff unat_of_nat_small)
      moreover have "?len - m < k" using Suc.prems m(2,3) False by simp
      ultimately show ?thesis using Suc.IH [OF m(3)] m(1,4) by simp
    qed
  qed simp
  from this [OF assms(5,6)] show ?thesis by (simp add: cur)
qed

theorem committed_feed_complete_witness:
  "follow 4 (cr_journal sample_chain) 2 0 =
     ([ent_committed 1 Pure [] 1, ent_committed 2 Pure [\<lparr>pe_parent_id = 1, pe_edge_kind = 0, pe_non_cascade = 0\<rparr>] 2,
       ent_committed 3 Pure [] 3], 3)"
proof -
  have "journal_inv key_hash (cjournal sample_chain)" by (rule core_invD(1) [OF sample_chain_inv])
  from committed_feed_complete [OF this, of 2 0 4] show ?thesis
    by (simp add: sample_chain_journal committed_after_def ent_committed_def current_seq_def)
qed

section \<open>Approvals\<close>

lemma tracks_approval:
  assumes "tracks st log"
  shows "approval_latest_for st rid = last_opt (filter (\<lambda>a. ap_request_id a = rid) (approval_entries log))"
proof -
  obtain ops where ops: "run_ops None ops pstate_default = Inr st" "entries_of ops = log"
    using assms by (auto simp: tracks_def)
  then have "metadata_ok log st" using run_ops_metadata by blast
  then show ?thesis using approval_latest_ok [of st rid] by (simp add: metadata_ok_def)
qed

text \<open>The steps of one request, in the order the log has them, and the shape they may have.\<close>

definition handshake_of :: "array16 \<Rightarrow> journal_entry list \<Rightarrow> approval_state list" where
  "handshake_of rid log = map ap_state (filter (\<lambda>a. ap_request_id a = rid) (approval_entries log))"

fun is_decision :: "approval_state \<Rightarrow> bool" where
  "is_decision (Granted _ _ _) = True"
| "is_decision (Denied _ _ _) = True"
| "is_decision _ = False"

fun handshake :: "approval_state list \<Rightarrow> bool" where
  "handshake [] = True"
| "handshake [a] = is_requested a"
| "handshake [a, b] = (is_requested a \<and> is_decision b)"
| "handshake _ = False"

text \<open>
  The owner thread as far as approvals go: the gate and the operator's decision, in any order and
  with any failing appends, and anything else that records no approval.
\<close>

inductive approval_step :: "hash_fn \<Rightarrow> coord \<Rightarrow> coord \<Rightarrow> bool" for blake3 where
  gate: "approval_step blake3 c (snd (approval_gate_decision blake3 now inst obs tool ver c))"
| decide: "approval_step blake3 c (snd (decide_approval blake3 now rid grant op reason c))"
| other: "advances blake3 (\<lambda>e. \<not> is_approval e) c c' \<Longrightarrow> approval_step blake3 c c'"

lemma approval_step_advances: "approval_step blake3 c c' \<Longrightarrow> advances blake3 (\<lambda>_. True) c c'"
  by (induction rule: approval_step.induct)
    (auto intro: advances_mono [OF gate_advances] advances_mono [OF decide_advances] advances_mono)

lemma approval_steps_advances: "(approval_step blake3)\<^sup>*\<^sup>* c c' \<Longrightarrow> advances blake3 (\<lambda>_. True) c c'"
  by (induction rule: rtranclp_induct) (auto intro: advances_transD approval_step_advances)

lemma append_approval_log:
  "clog (append_approval blake3 inst rid i st c) = clog c \<or>
   (\<exists>n. clog (append_approval blake3 inst rid i st c) = clog c @ [Approval \<lparr>ap_instance_id = inst, ap_request_id = rid,
      ap_awaiting_mote_id = i, ap_state = st, ap_seq = n\<rparr>])"
proof -
  let ?e = "Approval \<lparr>ap_instance_id = inst, ap_request_id = rid, ap_awaiting_mote_id = i, ap_state = st, ap_seq = 0\<rparr>"
  show ?thesis
  proof (cases rule: append_c_cases [of blake3 ?e c])
    case (fault f)
    then show ?thesis by (simp add: append_approval_def append_then_def)
  next
    case (ok x j f)
    have "j_entries j = clog c @ [Approval \<lparr>ap_instance_id = inst, ap_request_id = rid,
        ap_awaiting_mote_id = i, ap_state = st, ap_seq = j_next_seq (cjournal c) + 1\<rparr>]"
      using ok(3) by (auto simp: append_entry_def existing_def dedupes_def Let_def)
    then show ?thesis using ok(1,2) by (simp add: append_approval_def append_then_def)
  qed
qed

lemma no_approvals: "\<forall>e \<in> set es. \<not> is_approval e \<Longrightarrow> approval_entries es = []"
  by (induction es rule: approval_entries.induct) auto

lemma handshake_of_snoc:
  "handshake_of rid (log @ [Approval a]) = handshake_of rid log @ (if ap_request_id a = rid then [ap_state a] else [])"
  by (simp add: handshake_of_def)

lemma append_approval_handshake:
  "handshake_of q (clog (append_approval blake3 inst rid i st c)) = handshake_of q (clog c) \<or>
   q = rid \<and> handshake_of q (clog (append_approval blake3 inst rid i st c)) = handshake_of q (clog c) @ [st]"
  using append_approval_log [of blake3 inst rid i st c] by (auto simp: handshake_of_snoc split: if_splits)

text \<open>A step adds nothing to a request, opens one that was never asked, or decides one that is open.\<close>

lemma approval_step_handshake:
  assumes "approval_step blake3 c c'" and "core_inv blake3 c"
  shows "handshake_of rid (clog c') = handshake_of rid (clog c) \<or>
    (handshake_of rid (clog c) = [] \<and> (\<exists>a. is_requested a \<and> handshake_of rid (clog c') = [a])) \<or>
    (handshake_of rid (clog c) \<noteq> [] \<and> is_requested (last (handshake_of rid (clog c))) \<and>
       (\<exists>d. is_decision d \<and> handshake_of rid (clog c') = handshake_of rid (clog c) @ [d]))"
proof -
  have latest: "map_option ap_state (approval_latest_for (cr_projection c) q) = last_opt (handshake_of q (clog c))" for q
    using tracks_approval [OF core_invD(3) [OF assms(2)], of q] by (simp add: handshake_of_def last_opt_def last_map)
  from assms(1) show ?thesis
  proof (cases rule: approval_step.cases)
    case (gate now inst obs tool ver)
    let ?q = "approval_request_id blake3 inst obs"
    show ?thesis
    proof (cases "handshake_of ?q (clog c) = []")
      case True
      then show ?thesis
        using gate latest [of ?q]
          append_approval_handshake [of rid blake3 inst ?q obs "Requested tool ver (truncate_for_approval
            (ascii ''world-mutating tool call: '' @ tool @ ascii ''@'' @ ver)) 0 now" c]
        by (auto simp: approval_gate_decision_def Let_def last_opt_def)
    next
      case False
      then have "c' = c"
        using gate latest [of ?q]
        by (auto simp: approval_gate_decision_def Let_def last_opt_def split: option.splits approval_state.splits)
      then show ?thesis by simp
    qed
  next
    case (decide now q grant op reason)
    show ?thesis
    proof (cases "\<exists>r. approval_latest_for (cr_projection c) q = Some r \<and> is_requested (ap_state r)")
      case True
      then obtain r where r: "approval_latest_for (cr_projection c) q = Some r" "is_requested (ap_state r)" by blast
      let ?d = "if grant then Granted op (truncate_for_approval reason) now else Denied op (truncate_for_approval reason) now"
      have "c' = append_approval blake3 (ap_instance_id r) q (ap_awaiting_mote_id r) ?d c"
        using decide r by (simp add: decide_approval_def Let_def)
      moreover have "is_decision ?d" by simp
      ultimately show ?thesis
        using append_approval_handshake [of rid blake3 "ap_instance_id r" q "ap_awaiting_mote_id r" ?d c] latest [of q] r
        by (auto simp: last_opt_def split: if_splits)
    next
      case False
      then have "c' = c" using decide by (auto simp: decide_approval_def split: option.splits)
      then show ?thesis by simp
    qed
  next
    case other
    then obtain new where "clog c' = clog c @ new" "\<forall>e \<in> set new. \<not> is_approval e" by (auto simp: advances_def)
    then show ?thesis by (simp add: handshake_of_def no_approvals)
  qed
qed

lemma handshake_step:
  assumes "handshake hs" and "hs' = hs \<or> hs = [] \<and> (\<exists>a. is_requested a \<and> hs' = [a]) \<or>
    hs \<noteq> [] \<and> is_requested (last hs) \<and> (\<exists>d. is_decision d \<and> hs' = hs @ [d])"
  shows "handshake hs' \<and> prefix hs hs'"
  using assms by (cases hs rule: handshake.cases) (auto elim: is_decision.elims is_requested.elims)

lemma approval_steps_handshake:
  assumes "(approval_step blake3)\<^sup>*\<^sup>* c c'" "core_inv blake3 c" "has_room c'" "handshake (handshake_of rid (clog c))"
  shows "core_inv blake3 c' \<and> handshake (handshake_of rid (clog c')) \<and> prefix (handshake_of rid (clog c)) (handshake_of rid (clog c'))"
  using assms
proof (induction rule: rtranclp_induct)
  case (step y z)
  have adv: "advances blake3 (\<lambda>_. True) y z" by (rule approval_step_advances [OF step.hyps(2)])
  have "has_room y" by (rule has_room_mono [OF advances_prefix [OF adv] step.prems(2)])
  then have y: "core_inv blake3 y" "handshake (handshake_of rid (clog y))" "prefix (handshake_of rid (clog c)) (handshake_of rid (clog y))"
    using step by simp_all
  note handshake_step [OF y(2) approval_step_handshake [OF step.hyps(2) y(1)]]
  then show ?case
    using advances_inv [OF adv y(1) step.prems(2)] prefix_order.trans [OF y(3)] by blast
qed simp

text \<open>The gate's answer is a function of the steps of its request.\<close>

definition gate_of :: "approval_state list \<Rightarrow> approval_gate" where
  "gate_of hs =
    (case last_opt hs of
       Some (Granted _ _ _) \<Rightarrow> GateProceed | Some (Denied _ _ _) \<Rightarrow> GateDeadLetter | Some (Expired _) \<Rightarrow> GateDeadLetter
     | _ \<Rightarrow> GateWait)"

lemma handshake_forms:
  assumes "handshake hs"
  obtains (none) "hs = []"
  | (open_request) t v n d k where "hs = [Requested t v n d k]"
  | (granted) t v n d k op r m where "hs = [Requested t v n d k, Granted op r m]"
  | (denied) t v n d k op r m where "hs = [Requested t v n d k, Denied op r m]"
  using assms by (cases hs rule: handshake.cases) (auto elim!: is_decision.elims is_requested.elims)

lemma gate_of_handshake:
  assumes "handshake hs"
  shows "gate_of hs = GateProceed \<longleftrightarrow> (\<exists>op reason t. Granted op reason t \<in> set hs)"
    "gate_of hs = GateDeadLetter \<longleftrightarrow> (\<exists>op reason t. Denied op reason t \<in> set hs)"
    "gate_of hs \<noteq> GateWait \<Longrightarrow> prefix hs hs' \<Longrightarrow> handshake hs' \<Longrightarrow> hs' = hs"
proof -
  show "gate_of hs = GateProceed \<longleftrightarrow> (\<exists>op reason t. Granted op reason t \<in> set hs)"
    using assms by (cases rule: handshake_forms) (simp_all add: gate_of_def last_opt_def)
  show "gate_of hs = GateDeadLetter \<longleftrightarrow> (\<exists>op reason t. Denied op reason t \<in> set hs)"
    using assms by (cases rule: handshake_forms) (simp_all add: gate_of_def last_opt_def)
  assume final: "gate_of hs \<noteq> GateWait" and pre: "prefix hs hs'" and hs': "handshake hs'"
  have "length hs = 2"
    using assms final by (cases rule: handshake_forms) (simp_all add: gate_of_def last_opt_def)
  moreover have "length hs' \<le> 2"
    using hs' by (cases rule: handshake_forms) simp_all
  ultimately show "hs' = hs" using pre by (auto simp: prefix_def)
qed

lemma gate_answer:
  assumes "core_inv blake3 c"
  shows "fst (approval_gate_decision blake3 now inst obs tool ver c) =
    gate_of (handshake_of (approval_request_id blake3 inst obs) (clog c))"
  unfolding gate_of_def
  using tracks_approval [OF core_invD(3) [OF assms], of "approval_request_id blake3 inst obs"]
  by (auto simp: approval_gate_decision_def Let_def handshake_of_def last_opt_def last_map
      split: option.splits approval_state.splits)

text \<open>
  C17: an approval is asked once and decided once. Whatever the owner thread does, with appends
  failing at will, the log holds for each request at most one question followed by at most one
  decision of an operator; the gate lets the tool call through exactly when the operator granted
  it; and once the gate has let it through or dead-lettered it, it gives that answer for ever.
\<close>

theorem approval_decided_once:
  fixes inst :: array16 and obs :: mote_id and now :: u64 and tool ver :: rstring
  assumes "core_inv blake3 c" and "approval_entries (clog c) = []"
    and "(approval_step blake3)\<^sup>*\<^sup>* c c1" and "(approval_step blake3)\<^sup>*\<^sup>* c1 c2" and "has_room c2"
  defines "steps \<equiv> handshake_of (approval_request_id blake3 inst obs)"
    and "gate \<equiv> \<lambda>c. fst (approval_gate_decision blake3 now inst obs tool ver c)"
  shows "handshake (steps (clog c2)) \<and> prefix (steps (clog c1)) (steps (clog c2)) \<and>
    (gate c2 = GateProceed \<longleftrightarrow> (\<exists>op reason t. Granted op reason t \<in> set (steps (clog c2)))) \<and>
    (gate c2 = GateDeadLetter \<longleftrightarrow> (\<exists>op reason t. Denied op reason t \<in> set (steps (clog c2)))) \<and>
    (gate c1 \<noteq> GateWait \<longrightarrow> gate c2 = gate c1)"
proof -
  have room: "has_room c1"
    by (rule has_room_mono [OF advances_prefix [OF approval_steps_advances [OF assms(4)]] assms(5)])
  have "handshake (handshake_of q (clog c))" for q by (simp add: handshake_of_def assms(2))
  from approval_steps_handshake [OF assms(3,1) room this]
  have c1: "core_inv blake3 c1" "handshake (steps (clog c1))" by (simp_all add: steps_def)
  from approval_steps_handshake [OF assms(4) c1(1) assms(5)] c1(2)
  have c2: "core_inv blake3 c2" "handshake (steps (clog c2))" "prefix (steps (clog c1)) (steps (clog c2))"
    by (auto simp: steps_def)
  have ans: "gate c1 = gate_of (steps (clog c1))" "gate c2 = gate_of (steps (clog c2))"
    using gate_answer [OF c1(1)] gate_answer [OF c2(1)] by (simp_all add: gate_def steps_def)
  have "gate c2 = gate c1" if "gate c1 \<noteq> GateWait"
    using gate_of_handshake(3) [OF c1(2) _ c2(3,2)] that by (simp add: ans)
  then show ?thesis
    using c2(2,3) gate_of_handshake(1,2) [OF c2(2)] unfolding ans by blast
qed

text \<open>A tool call is held, the operator grants it, and a later refusal changes nothing.\<close>

abbreviation sample_asked where
  "sample_asked \<equiv> snd (approval_gate_decision (\<lambda>_. 5) 1 9 7 [97] [49] (fresh_core [] [] None))"

abbreviation sample_granted where
  "sample_granted \<equiv> snd (decide_approval (\<lambda>_. 5) 2 (approval_request_id (\<lambda>_. 5) 9 7) True 3 [] sample_asked)"

abbreviation sample_refused where
  "sample_refused \<equiv> snd (decide_approval (\<lambda>_. 5) 3 (approval_request_id (\<lambda>_. 5) 9 7) False 4 [] sample_granted)"

lemma sample_approvals:
  "handshake_of (approval_request_id (\<lambda>_. 5) 9 7) (clog sample_granted) =
     [Requested [97] [49] (truncate_for_approval (ascii ''world-mutating tool call: '' @ [97] @ ascii ''@'' @ [49])) 0 1,
      Granted 3 (truncate_for_approval []) 2]"
  "length (clog sample_refused) = 2"
  by (simp_all add: approval_gate_decision_def decide_approval_def append_approval_def append_then_def append_c_def
      fjournal_ops_def fresh_core_def append_entry_def existing_def dedupes_def journal_new_def fold_durable_def
      fold_entry_def index_last_approval_def approval_latest_for_def nth_opt_def pstate_default_def advance_seq_def
      handshake_of_def Let_def)

theorem approval_decided_once_witness:
  "fst (approval_gate_decision (\<lambda>_. 5) 9 9 7 [97] [49] sample_granted) = GateProceed \<and>
   fst (approval_gate_decision (\<lambda>_. 5) 9 9 7 [97] [49] sample_refused) = GateProceed"
proof -
  let ?b = "\<lambda>_ :: u8 list. 5 :: array32" and ?c = "fresh_core [] [] None"
  have none: "approval_entries (clog ?c) = []" by (simp add: fresh_core_def journal_new_def)
  have one: "(approval_step ?b)\<^sup>*\<^sup>* ?c sample_granted"
    by (rule rtranclp.rtrancl_into_rtrancl, rule r_into_rtranclp, rule approval_step.gate, rule approval_step.decide)
  have two: "(approval_step ?b)\<^sup>*\<^sup>* sample_granted sample_refused"
    by (rule r_into_rtranclp, rule approval_step.decide)
  have room: "has_room sample_refused" "has_room sample_granted"
    using sample_approvals(2) has_room_mono [OF advances_prefix [OF decide_advances
      [of "\<lambda>_. 5" sample_granted 3 "approval_request_id (\<lambda>_. 5) 9 7" False 4 "[]"]]]
    by (simp_all add: has_room_def)
  note R = approval_decided_once [OF fresh_core_inv none one rtranclp.rtrancl_refl room(2), of 9 7 9 "[97]" "[49]"]
    approval_decided_once [OF fresh_core_inv none one two room(1), of 9 7 9 "[97]" "[49]"]
  have "fst (approval_gate_decision ?b 9 9 7 [97] [49] sample_granted) = GateProceed"
    using R(1) unfolding sample_approvals(1) by simp
  with R(2) show ?thesis by simp
qed

section \<open>Dead letters\<close>








end
