(* ===== verification/Kx_React_Shape.thy ===== *)
theory Kx_React_Shape
  imports Kx_Content Kx_Warrant Kx_Journal_Entry "HOL-Library.Sublist"
begin

text \<open>
  The Motes the coordinator makes itself (\<open>crates/kx-coordinator/src/react_shape.rs\<close> and
  \<open>replan_shape.rs\<close>): the turns and tool observations of an agent chain, rerank turns and re-plan
  shapers, with their instructions. Recovery rebuilds them from the journal, so their identities
  must be functions of the recorded facts and must not clash. The model harness has its own copy of
  the builders (\<open>crates/kx-model-harness/src\<close>), which has to agree.
\<close>

section \<open>Marker keys (kx-mote/src/strings.rs)\<close>

definition PROMPT_KEY :: config_key where "PROMPT_KEY = ascii ''prompt''"
definition REACT_TURN_KEY :: config_key where "REACT_TURN_KEY = ascii ''kx.react.turn''"
definition RERANK_TURN_KEY :: config_key where "RERANK_TURN_KEY = ascii ''kx.rerank.turn''"
definition RERANK_QUERY_KEY :: config_key where "RERANK_QUERY_KEY = ascii ''kx.rerank.query''"
definition RERANK_CANDIDATES_KEY :: config_key where "RERANK_CANDIDATES_KEY = ascii ''kx.rerank.candidates''"

definition MOTE_DEF_SCHEMA_VERSION :: u16 where
  "MOTE_DEF_SCHEMA_VERSION = 5"

section \<open>Instructions\<close>

definition MAX_REJECTED_REASON_LEN :: nat where
  "MAX_REJECTED_REASON_LEN = 512"

definition bounded_reason :: "rstring \<Rightarrow> rstring" where
  "bounded_reason reason =
     (case utf8_chars reason of
        None \<Rightarrow> reason
      | Some cs \<Rightarrow> if length cs \<le> MAX_REJECTED_REASON_LEN then reason else concat (take MAX_REJECTED_REASON_LEN cs))"

definition newline :: rstring where "newline = [10]"
definition em_dash :: rstring where "em_dash = [0xE2, 0x80, 0x94]"

definition render_reprompt :: "rstring \<Rightarrow> rstring \<Rightarrow> rstring" where
  "render_reprompt base_instruction reason =
     base_instruction @ newline @ newline @ ascii ''[Your previous tool call was REJECTED: '' @ reason @ newline @
     ascii ''Correct it '' @ em_dash @
     ascii '' call a tool you were granted with arguments that match its schema, or answer the question directly if you cannot.]''"

definition render_settle_nudge :: "rstring \<Rightarrow> rstring" where
  "render_settle_nudge base_instruction =
     base_instruction @ newline @ newline @
     ascii ''[You have already gathered tool results, and your tool-call budget is nearly exhausted. Do NOT call another tool. Using the observations you already have, give your FINAL answer to the question now, directly and in prose.]''"

definition render_reprompt_nudged :: "rstring \<Rightarrow> rstring \<Rightarrow> rstring" where
  "render_reprompt_nudged base_instruction reason =
     render_reprompt base_instruction reason @ newline @ newline @
     ascii ''[This is your LAST turn and your tool-call budget is nearly exhausted. Do NOT call another tool. Answer the question directly, in prose, using whatever you have '' @
     em_dash @ ascii '' and say plainly what you could not determine.]''"

fun render_turn_instruction :: "rstring \<Rightarrow> rstring option \<Rightarrow> bool \<Rightarrow> rstring" where
  "render_turn_instruction base (Some reason) True = render_reprompt_nudged base reason"
| "render_turn_instruction base (Some reason) False = render_reprompt base reason"
| "render_turn_instruction base None True = render_settle_nudge base"
| "render_turn_instruction base None False = base"

definition SETTLE_NUDGE_MARKER :: rstring where
  "SETTLE_NUDGE_MARKER = ascii ''your tool-call budget is nearly exhausted. Do NOT call another tool''"

definition DUPLICATE_REJECT_MARKER :: rstring where
  "DUPLICATE_REJECT_MARKER = ascii ''already called this run with identical arguments''"

definition is_duplicate_reason :: "rstring \<Rightarrow> bool" where
  "is_duplicate_reason reason = sublist DUPLICATE_REJECT_MARKER reason"

section \<open>Turns and observations of a chain\<close>

definition greedy_params :: "u32 \<Rightarrow> inference_params" where
  "greedy_params max_output_tokens = inference_params_default\<lparr>ip_max_output_tokens := max_output_tokens\<rparr>"

text \<open>The shape shared by the model turns the coordinator makes: edge-free and firing nothing.\<close>

definition model_turn ::
  "hash_fn \<Rightarrow> (mote_def \<Rightarrow> bytes) \<Rightarrow> array32 \<Rightarrow> model_id \<Rightarrow> (config_key, config_val) btree \<Rightarrow> bool \<Rightarrow> u32 \<Rightarrow> mote"
where
  "model_turn blake3 enc id_bytes model config shaper max_output_tokens =
     mote_new blake3 enc
       \<lparr>md_logic_ref = id_bytes, md_model_id = model, md_prompt_template_hash = id_bytes, md_tool_contract = [],
        md_nd_class = ReadOnlyNondet, md_config_subset = config, md_effect_pattern = IdempotentByConstruction,
        md_critic_for = None, md_is_topology_shaper = shaper, md_inference_params = greedy_params max_output_tokens,
        md_critic_check = None, md_schema_version = MOTE_DEF_SCHEMA_VERSION\<rparr>
       id_bytes (bytes32 id_bytes) []"

text \<open>The shape of an observation: it fires one tool and has a data edge to the turn that asked.\<close>

definition tool_observation ::
  "hash_fn \<Rightarrow> (mote_def \<Rightarrow> bytes) \<Rightarrow> array32 \<Rightarrow> model_id \<Rightarrow> tool_name \<Rightarrow> tool_version \<Rightarrow> mote_id \<Rightarrow> mote"
where
  "tool_observation blake3 enc id_bytes model tool_id tool_version turn_mote_id =
     mote_new blake3 enc
       \<lparr>md_logic_ref = id_bytes, md_model_id = model, md_prompt_template_hash = id_bytes,
        md_tool_contract = bt_insert tool_id tool_version [],
        md_nd_class = WorldMutating, md_config_subset = [], md_effect_pattern = StageThenCommit,
        md_critic_for = None, md_is_topology_shaper = False, md_inference_params = inference_params_default,
        md_critic_check = None, md_schema_version = MOTE_DEF_SCHEMA_VERSION\<rparr>
       id_bytes (bytes32 id_bytes) [\<lparr>pr_parent_id = turn_mote_id, pr_edge = edge_data\<rparr>]"

definition react_turn_id_material :: "hash_fn \<Rightarrow> array16 \<Rightarrow> u32 \<Rightarrow> array32" where
  "react_turn_id_material blake3 instance_id turn =
     content_ref_of blake3 (ascii ''kx-react-turn'' @ bytes16 instance_id @ le_bytes 4 turn)"

definition build_react_turn ::
  "hash_fn \<Rightarrow> (mote_def \<Rightarrow> bytes) \<Rightarrow> model_id \<Rightarrow> rstring \<Rightarrow> u32 \<Rightarrow> array16 \<Rightarrow> u32 \<Rightarrow> mote"
where
  "build_react_turn blake3 enc model instruction turn instance_id max_output_tokens =
     model_turn blake3 enc (react_turn_id_material blake3 instance_id turn) model
       (bt_insert REACT_TURN_KEY (bytes16 instance_id) (bt_insert PROMPT_KEY instruction []))
       False max_output_tokens"

definition react_tool_id_material :: "hash_fn \<Rightarrow> array16 \<Rightarrow> u32 \<Rightarrow> u32 \<Rightarrow> array32" where
  "react_tool_id_material blake3 instance_id turn call_index =
     content_ref_of blake3 (ascii ''kx-react-tool'' @ bytes16 instance_id @ le_bytes 4 turn @
       (if 0 < call_index then le_bytes 4 call_index else []))"

definition build_react_tool ::
  "hash_fn \<Rightarrow> (mote_def \<Rightarrow> bytes) \<Rightarrow> model_id \<Rightarrow> tool_name \<Rightarrow> tool_version \<Rightarrow> u32 \<Rightarrow> array16 \<Rightarrow> u32 \<Rightarrow> mote_id \<Rightarrow> mote"
where
  "build_react_tool blake3 enc model tool_id tool_version turn instance_id call_index turn_mote_id =
     tool_observation blake3 enc (react_tool_id_material blake3 instance_id turn call_index)
       model tool_id tool_version turn_mote_id"

definition rerank_turn_id_material :: "hash_fn \<Rightarrow> array16 \<Rightarrow> content_ref \<Rightarrow> content_ref \<Rightarrow> array32" where
  "rerank_turn_id_material blake3 instance_id base_results_ref query_ref =
     content_ref_of blake3 (ascii ''kx-rerank-turn'' @ bytes16 instance_id @ bytes32 base_results_ref @ bytes32 query_ref)"

definition build_rerank_turn ::
  "hash_fn \<Rightarrow> (mote_def \<Rightarrow> bytes) \<Rightarrow> model_id \<Rightarrow> array16 \<Rightarrow> content_ref \<Rightarrow> content_ref \<Rightarrow> u32 \<Rightarrow> mote"
where
  "build_rerank_turn blake3 enc model instance_id base_results_ref query_ref max_output_tokens =
     model_turn blake3 enc (rerank_turn_id_material blake3 instance_id base_results_ref query_ref) model
       (bt_insert RERANK_CANDIDATES_KEY (bytes32 base_results_ref)
         (bt_insert RERANK_QUERY_KEY (bytes32 query_ref)
           (bt_insert RERANK_TURN_KEY (bytes16 instance_id) [])))
       False max_output_tokens"

definition react_turn_id_material2 :: "hash_fn \<Rightarrow> array16 \<Rightarrow> array32 \<Rightarrow> u32 \<Rightarrow> array32" where
  "react_turn_id_material2 blake3 instance_id step_salt turn =
     content_ref_of blake3 (ascii ''kx-agentic-turn'' @ bytes16 instance_id @ bytes32 step_salt @ le_bytes 4 turn)"

definition build_agentic_turn ::
  "hash_fn \<Rightarrow> (mote_def \<Rightarrow> bytes) \<Rightarrow> model_id \<Rightarrow> rstring \<Rightarrow> u32 \<Rightarrow> array16 \<Rightarrow> array32 \<Rightarrow> u32 \<Rightarrow> mote"
where
  "build_agentic_turn blake3 enc model instruction turn instance_id step_salt max_output_tokens =
     model_turn blake3 enc (react_turn_id_material2 blake3 instance_id step_salt turn) model
       (bt_insert REACT_TURN_KEY (bytes16 instance_id @ bytes32 step_salt) (bt_insert PROMPT_KEY instruction []))
       False max_output_tokens"

definition react_tool_id_material2 :: "hash_fn \<Rightarrow> array16 \<Rightarrow> array32 \<Rightarrow> u32 \<Rightarrow> u32 \<Rightarrow> array32" where
  "react_tool_id_material2 blake3 instance_id step_salt turn call_index =
     content_ref_of blake3 (ascii ''kx-agentic-tool'' @ bytes16 instance_id @ bytes32 step_salt @ le_bytes 4 turn @
       (if 0 < call_index then le_bytes 4 call_index else []))"

definition build_agentic_tool ::
  "hash_fn \<Rightarrow> (mote_def \<Rightarrow> bytes) \<Rightarrow> model_id \<Rightarrow> tool_name \<Rightarrow> tool_version \<Rightarrow> u32 \<Rightarrow> array16 \<Rightarrow> array32 \<Rightarrow> u32 \<Rightarrow>
     mote_id \<Rightarrow> mote"
where
  "build_agentic_tool blake3 enc model tool_id tool_version turn instance_id step_salt call_index turn_mote_id =
     tool_observation blake3 enc (react_tool_id_material2 blake3 instance_id step_salt turn call_index)
       model tool_id tool_version turn_mote_id"

definition build_chain_turn ::
  "hash_fn \<Rightarrow> (mote_def \<Rightarrow> bytes) \<Rightarrow> model_id \<Rightarrow> rstring \<Rightarrow> u32 \<Rightarrow> array16 \<Rightarrow> array32 option \<Rightarrow> u32 \<Rightarrow> mote"
where
  "build_chain_turn blake3 enc model instruction turn instance_id step_salt max_output_tokens =
     (case step_salt of
        Some salt \<Rightarrow> build_agentic_turn blake3 enc model instruction turn instance_id salt max_output_tokens
      | None \<Rightarrow> build_react_turn blake3 enc model instruction turn instance_id max_output_tokens)"

definition build_chain_tool ::
  "hash_fn \<Rightarrow> (mote_def \<Rightarrow> bytes) \<Rightarrow> model_id \<Rightarrow> tool_name \<Rightarrow> tool_version \<Rightarrow> u32 \<Rightarrow> array16 \<Rightarrow> array32 option \<Rightarrow> u32 \<Rightarrow>
     mote_id \<Rightarrow> mote"
where
  "build_chain_tool blake3 enc model tool_id tool_version turn instance_id step_salt call_index turn_mote_id =
     (case step_salt of
        Some salt \<Rightarrow> build_agentic_tool blake3 enc model tool_id tool_version turn instance_id salt call_index turn_mote_id
      | None \<Rightarrow> build_react_tool blake3 enc model tool_id tool_version turn instance_id call_index turn_mote_id)"

section \<open>Re-plan shapers\<close>

definition failure_reason_token :: "failure_reason option \<Rightarrow> rstring" where
  "failure_reason_token reason =
     (case map_option failure_reason_as_u8 reason of
        None \<Rightarrow> ascii ''transient-or-unknown''
      | Some b \<Rightarrow>
          if b = 0 then ascii ''timed-out''
          else if b = 1 then ascii ''executor-refused''
          else if b = 2 then ascii ''validator-rejected''
          else if b = 3 then ascii ''worker-crashed''
          else if b = 4 then ascii ''upstream-repudiated''
          else if b = 5 then ascii ''unsafe-world-mutating-construction''
          else if b = 6 then ascii ''compensated-at-least-once''
          else if b = 7 then ascii ''quarantined-at-least-once''
          else if b = 8 then ascii ''dead-lettered''
          else ascii ''transient-or-unknown'')"

definition failed_step_line :: "mote_id \<times> failure_reason option \<Rightarrow> rstring" where
  "failed_step_line f =
     newline @ ascii ''- step '' @ to_hex (fst f) @ ascii '' failed (reason: '' @ failure_reason_token (snd f) @ ascii '')''"

definition CORRECTED_SUFFIX :: rstring where
  "CORRECTED_SUFFIX =
     newline @ newline @
     ascii ''The previous attempt left failed step(s). Respond with a `replan` envelope: either `next_steps` that retry or replace them (corrected context / a role whose authority fits), or `flag_human` with a reason if you cannot fix it within your authority. Failed step(s):''"

definition corrected_prompt :: "rstring \<Rightarrow> (mote_id \<times> failure_reason option) list \<Rightarrow> rstring" where
  "corrected_prompt base failures = base @ CORRECTED_SUFFIX @ concat (map failed_step_line failures)"

definition replan_shaper_id_material :: "hash_fn \<Rightarrow> u32 \<Rightarrow> array32" where
  "replan_shaper_id_material blake3 round = content_ref_of blake3 (ascii ''kx-replan-round'' @ le_bytes 4 round)"

definition SHAPER_MAX_OUTPUT_TOKENS :: u32 where
  "SHAPER_MAX_OUTPUT_TOKENS = 128"

definition build_replan_shaper :: "hash_fn \<Rightarrow> (mote_def \<Rightarrow> bytes) \<Rightarrow> model_id \<Rightarrow> rstring \<Rightarrow> u32 \<Rightarrow> mote" where
  "build_replan_shaper blake3 enc model planning_prompt round =
     model_turn blake3 enc (replan_shaper_id_material blake3 round) model
       (bt_insert PROMPT_KEY planning_prompt []) True SHAPER_MAX_OUTPUT_TOKENS"

section \<open>The harness twins (kx-model-harness)\<close>

record workflow_mote =
  wm_mote :: mote
  wm_warrant :: warrant_spec
  wm_capability :: tool_name

record demo_workflow =
  dw_motes :: "workflow_mote list"
  dw_stc_crash_target :: mote_id
  dw_vtc_crash_target :: mote_id
  dw_shaper_id :: mote_id

definition CAPABILITY :: tool_name where
  "CAPABILITY = ascii ''kx-model''"

definition greedy :: "u32 \<Rightarrow> inference_params" where
  "greedy max_output_tokens = inference_params_default\<lparr>ip_max_output_tokens := max_output_tokens\<rparr>"

definition sentinel_shaper :: mote_id where
  "sentinel_shaper = be_word (replicate 32 0xFF)"

definition put_prompt :: "rstring \<Rightarrow> (config_key, config_val) btree \<Rightarrow> (config_key, config_val) btree" where
  "put_prompt p config_subset = bt_insert PROMPT_KEY p config_subset"

definition replan_shaper ::
  "hash_fn \<Rightarrow> (mote_def \<Rightarrow> bytes) \<Rightarrow> model_id \<Rightarrow> warrant_spec \<Rightarrow> rstring \<Rightarrow> u32 \<Rightarrow> demo_workflow"
where
  "replan_shaper blake3 enc model warrant planning_prompt round =
     (let material = ascii ''kx-replan-round'' @ le_bytes 4 round;
          id_bytes = blake3 material;
          d = \<lparr>md_logic_ref = id_bytes, md_model_id = model, md_prompt_template_hash = id_bytes,
            md_tool_contract = [], md_nd_class = ReadOnlyNondet, md_config_subset = put_prompt planning_prompt [],
            md_effect_pattern = IdempotentByConstruction, md_critic_for = None, md_is_topology_shaper = True,
            md_inference_params = greedy 128, md_critic_check = None, md_schema_version = MOTE_DEF_SCHEMA_VERSION\<rparr>;
          shaper = mote_new blake3 enc d id_bytes (bytes32 id_bytes) []
      in \<lparr>dw_motes = [\<lparr>wm_mote = shaper, wm_warrant = warrant, wm_capability = CAPABILITY\<rparr>],
          dw_stc_crash_target = sentinel_shaper, dw_vtc_crash_target = sentinel_shaper, dw_shaper_id = m_id shaper\<rparr>)"

definition react_turn_salted ::
  "hash_fn \<Rightarrow> (mote_def \<Rightarrow> bytes) \<Rightarrow> model_id \<Rightarrow> warrant_spec \<Rightarrow> rstring \<Rightarrow> u32 \<Rightarrow> mote_id list \<Rightarrow> bytes \<Rightarrow> demo_workflow"
where
  "react_turn_salted blake3 enc model warrant instruction turn prior_trajectory salt =
     (let material = ascii ''kx-react-turn'' @ salt @ le_bytes 4 turn;
          id_bytes = blake3 material;
          config = put_prompt instruction [];
          config_subset = (if salt \<noteq> [] then bt_insert REACT_TURN_KEY salt config else config);
          d = \<lparr>md_logic_ref = id_bytes, md_model_id = model, md_prompt_template_hash = id_bytes,
            md_tool_contract = [], md_nd_class = ReadOnlyNondet, md_config_subset = config_subset,
            md_effect_pattern = IdempotentByConstruction, md_critic_for = None, md_is_topology_shaper = False,
            md_inference_params = greedy (mr_max_output_tokens (ws_model_route warrant)), md_critic_check = None,
            md_schema_version = MOTE_DEF_SCHEMA_VERSION\<rparr>;
          parents = map (\<lambda>i. \<lparr>pr_parent_id = i, pr_edge = edge_data\<rparr>) prior_trajectory;
          turn_mote = mote_new blake3 enc d id_bytes (bytes32 id_bytes) parents
      in \<lparr>dw_motes = [\<lparr>wm_mote = turn_mote, wm_warrant = warrant, wm_capability = CAPABILITY\<rparr>],
          dw_stc_crash_target = sentinel_shaper, dw_vtc_crash_target = sentinel_shaper, dw_shaper_id = sentinel_shaper\<rparr>)"

definition react_turn ::
  "hash_fn \<Rightarrow> (mote_def \<Rightarrow> bytes) \<Rightarrow> model_id \<Rightarrow> warrant_spec \<Rightarrow> rstring \<Rightarrow> u32 \<Rightarrow> mote_id list \<Rightarrow> demo_workflow"
where
  "react_turn blake3 enc model warrant instruction turn prior_trajectory =
     react_turn_salted blake3 enc model warrant instruction turn prior_trajectory []"

definition react_tool_mote_salted ::
  "hash_fn \<Rightarrow> (mote_def \<Rightarrow> bytes) \<Rightarrow> model_id \<Rightarrow> warrant_spec \<Rightarrow> tool_name \<Rightarrow> tool_version \<Rightarrow> u32 \<Rightarrow> u32 \<Rightarrow> mote_id \<Rightarrow>
     bytes \<Rightarrow> workflow_mote"
where
  "react_tool_mote_salted blake3 enc model warrant tool_id tool_version turn call_index turn_mote_id salt =
     (let material = ascii ''kx-react-tool'' @ salt @ le_bytes 4 turn @
            (if 0 < call_index then le_bytes 4 call_index else []);
          id_bytes = blake3 material;
          d = \<lparr>md_logic_ref = id_bytes, md_model_id = model, md_prompt_template_hash = id_bytes,
            md_tool_contract = bt_insert tool_id tool_version [], md_nd_class = WorldMutating, md_config_subset = [],
            md_effect_pattern = StageThenCommit, md_critic_for = None, md_is_topology_shaper = False,
            md_inference_params = inference_params_default, md_critic_check = None,
            md_schema_version = MOTE_DEF_SCHEMA_VERSION\<rparr>;
          tool_mote = mote_new blake3 enc d id_bytes (bytes32 id_bytes)
            [\<lparr>pr_parent_id = turn_mote_id, pr_edge = edge_data\<rparr>]
      in \<lparr>wm_mote = tool_mote, wm_warrant = warrant, wm_capability = tool_id\<rparr>)"

definition react_tool_mote ::
  "hash_fn \<Rightarrow> (mote_def \<Rightarrow> bytes) \<Rightarrow> model_id \<Rightarrow> warrant_spec \<Rightarrow> tool_name \<Rightarrow> tool_version \<Rightarrow> u32 \<Rightarrow> u32 \<Rightarrow> mote_id \<Rightarrow>
     workflow_mote"
where
  "react_tool_mote blake3 enc model warrant tool_id tool_version turn call_index turn_mote_id =
     react_tool_mote_salted blake3 enc model warrant tool_id tool_version turn call_index turn_mote_id []"

section \<open>Identities\<close>

text \<open>The place of a coordinator-made Mote, and the bytes its identity is hashed from.\<close>

datatype place =
    TurnOf array16 "array32 option" u32
  | ToolOf array16 "array32 option" u32 u32
  | RerankOf array16 content_ref content_ref
  | ShaperOf u32

definition index_bytes :: "u32 \<Rightarrow> bytes" where
  "index_bytes k = (if 0 < k then le_bytes 4 k else [])"

fun material :: "place \<Rightarrow> bytes" where
  "material (TurnOf i None t) = ascii ''kx-react-turn'' @ bytes16 i @ le_bytes 4 t"
| "material (TurnOf i (Some s) t) = ascii ''kx-agentic-turn'' @ bytes16 i @ bytes32 s @ le_bytes 4 t"
| "material (ToolOf i None t k) = ascii ''kx-react-tool'' @ bytes16 i @ le_bytes 4 t @ index_bytes k"
| "material (ToolOf i (Some s) t k) = ascii ''kx-agentic-tool'' @ bytes16 i @ bytes32 s @ le_bytes 4 t @ index_bytes k"
| "material (RerankOf i b q) = ascii ''kx-rerank-turn'' @ bytes16 i @ bytes32 b @ bytes32 q"
| "material (ShaperOf r) = ascii ''kx-replan-round'' @ le_bytes 4 r"

text \<open>Every Mote the builders make, with its place.\<close>

inductive built :: "hash_fn \<Rightarrow> (mote_def \<Rightarrow> bytes) \<Rightarrow> place \<Rightarrow> mote \<Rightarrow> bool" for blake3 enc where
  built_turn: "built blake3 enc (TurnOf i salt t) (build_chain_turn blake3 enc model instruction t i salt cap)"
| built_tool: "built blake3 enc (ToolOf i salt t k) (build_chain_tool blake3 enc model tool version t i salt k turn_id)"
| built_rerank: "built blake3 enc (RerankOf i b q) (build_rerank_turn blake3 enc model i b q cap)"
| built_shaper: "built blake3 enc (ShaperOf r) (build_replan_shaper blake3 enc model prompt r)"

lemma index_bytes_inject: "index_bytes k = index_bytes l \<longleftrightarrow> k = l"
  by (auto simp: index_bytes_def le_bytes_inject word_gt_0 dest: arg_cong [where f = length])

lemmas shape_simps = ascii_def be_bytes_append_inject le_bytes_append_inject le_bytes_inject be_bytes_inject index_bytes_inject

lemma material_inject: "material p = material q \<longleftrightarrow> p = q"
  by (cases p rule: material.cases; cases q rule: material.cases)
    (auto simp: shape_simps simp del: append_eq_append_conv)

lemma built_mote:
  assumes "built blake3 enc p m"
  shows "m_id m = derive_mote_id blake3 (mote_def_hash_of blake3 enc (m_def m)) (blake3 (material p)) (bytes32 (blake3 (material p)))"
    and "m_input_data_id m = blake3 (material p)" and "m_graph_position m = bytes32 (blake3 (material p))"
  using assms
  by (induction; simp add: build_chain_turn_def build_chain_tool_def build_rerank_turn_def build_replan_shaper_def
      build_agentic_turn_def build_react_turn_def build_agentic_tool_def build_react_tool_def model_turn_def
      tool_observation_def mote_new_def content_ref_of_def react_turn_id_material_def react_turn_id_material2_def
      react_tool_id_material_def react_tool_id_material2_def rerank_turn_id_material_def
      replan_shaper_id_material_def index_bytes_def split: option.splits)+

text \<open>
  C16: the Motes the coordinator makes never clash. Two Motes built for turns, observations, rerank
  turns or re-plan shapers have the same identity exactly when they stand at the same place (the
  same run, chain, turn and call, or the same retrieval, or the same round) and have the same
  definition hash, as long as the hash does not collide on the preimages of these two Motes.
\<close>

theorem chain_identities_distinct:
  assumes "built blake3 enc p m" and "built blake3 enc q n"
    and "inj_on blake3 {material p, material q}"
    and "inj_on blake3
      {mote_id_preimage (mote_def_hash_of blake3 enc (m_def m)) (m_input_data_id m) (m_graph_position m),
       mote_id_preimage (mote_def_hash_of blake3 enc (m_def n)) (m_input_data_id n) (m_graph_position n)}"
  shows "m_id m = m_id n \<longleftrightarrow>
    p = q \<and> mote_def_hash_of blake3 enc (m_def m) = mote_def_hash_of blake3 enc (m_def n)"
proof -
  have hash: "blake3 (material p) = blake3 (material q) \<longleftrightarrow> p = q"
    using inj_on_eq_iff [OF assms(3), of "material p" "material q"] by (simp add: material_inject)
  show ?thesis
    using inj_on_eq_iff [OF assms(4) insertI1 insertI2 [OF insertI1]]
    by (simp add: built_mote [OF assms(1)] built_mote [OF assms(2)] derive_mote_id_def mote_id_preimage_inject hash)
      blast
qed

text \<open>Two turns of one run, with the last byte as the hash.\<close>

definition last_hash :: hash_fn where
  "last_hash bs = ucast (last bs)"

lemma last_bytes32: "last (bytes32 w) = ucast w"
proof -
  have "le_bytes 32 w = ucast w # le_bytes 31 (drop_bit 8 w)"
    using le_bytes.simps(2) [of 31 w] by (simp del: le_bytes.simps)
  then show ?thesis by (simp add: be_bytes_def)
qed

lemma last_hash_append: "ys \<noteq> [] \<Longrightarrow> last_hash (xs @ ys) = last_hash ys"
  by (simp add: last_hash_def)

lemma last_hash_preimage: "last_hash (mote_id_preimage d i (bytes32 w)) = ucast (ucast w :: u8)"
proof -
  have "bytes32 w \<noteq> []" using length_be_bytes [of 32 w] by (metis list.size(3) zero_neq_numeral)
  then show ?thesis
    by (simp add: mote_id_preimage_def last_hash_append del: append_assoc add: append_assoc [symmetric])
      (simp add: last_hash_def last_bytes32)
qed

lemma last_material: "last_hash (material (TurnOf i None t)) = last_hash [ucast (drop_bit 24 t)]"
proof -
  have "le_bytes (Suc (Suc (Suc (Suc 0)))) t = [ucast t, ucast (drop_bit 8 t), ucast (drop_bit 16 t), ucast (drop_bit 24 t)]"
    by simp
  then have "le_bytes 4 t = [ucast t, ucast (drop_bit 8 t), ucast (drop_bit 16 t), ucast (drop_bit 24 t)]"
    by (simp only: Suc_eq_numeral numeral_eq_Suc pred_numeral_simps BitM.simps numeral_One One_nat_def)
  then show ?thesis by (simp add: last_hash_def del: le_bytes.simps)
qed

theorem chain_identities_distinct_witness:
  "m_id (build_chain_turn last_hash (\<lambda>_. [7]) [] [] 0 1 None 9) \<noteq>
   m_id (build_chain_turn last_hash (\<lambda>_. [7]) [] [] 0x1000000 1 None 9)"
proof -
  define m where "m t = build_chain_turn last_hash (\<lambda>_. [7]) [] [] t 1 None 9" for t
  have made: "built last_hash (\<lambda>_. [7]) (TurnOf 1 None t) (m t)" for t
    unfolding m_def by (rule built_turn)
  have mat: "last_hash (material (TurnOf 1 None 0)) = 0" "last_hash (material (TurnOf 1 None 0x1000000)) = 1"
    unfolding last_material by (simp_all add: last_hash_def)
  have "inj_on last_hash {material (TurnOf 1 None 0), material (TurnOf 1 None 0x1000000)}"
    using mat by (simp add: inj_on_def del: material.simps)
  moreover have "inj_on last_hash
      {mote_id_preimage d (m_input_data_id (m 0)) (m_graph_position (m 0)),
       mote_id_preimage e (m_input_data_id (m 0x1000000)) (m_graph_position (m 0x1000000))}" for d e
    using mat by (simp add: inj_on_def built_mote [OF made] last_hash_preimage del: material.simps)
  ultimately have "m_id (m 0) \<noteq> m_id (m 0x1000000)"
    using chain_identities_distinct [OF made made] by simp
  then show ?thesis by (simp add: m_def)
qed

text \<open>
  C26: the harness twins agree. For every model, instruction, turn and run, the harness builds the
  turn the coordinator builds (with its trajectory added as data edges, which do not enter the
  identity), the same observation and the same re-plan shaper.
\<close>

theorem harness_twins_agree:
  "map wm_mote (dw_motes (react_turn_salted blake3 enc model warrant instruction turn trajectory (bytes16 i))) =
     [(build_react_turn blake3 enc model instruction turn i (mr_max_output_tokens (ws_model_route warrant)))
        \<lparr>m_parents := map (\<lambda>p. \<lparr>pr_parent_id = p, pr_edge = edge_data\<rparr>) trajectory\<rparr>] \<and>
   wm_mote (react_tool_mote_salted blake3 enc model warrant tool version turn k turn_id (bytes16 i)) =
     build_react_tool blake3 enc model tool version turn i k turn_id \<and>
   map wm_mote (dw_motes (replan_shaper blake3 enc model warrant prompt round)) =
     [build_replan_shaper blake3 enc model prompt round]"
proof -
  have "bytes16 i \<noteq> []" using length_be_bytes [of 16 i] by (cases "bytes16 i") auto
  then show ?thesis
    by (simp add: react_turn_salted_def react_tool_mote_salted_def replan_shaper_def Let_def build_react_turn_def
      build_react_tool_def build_replan_shaper_def model_turn_def tool_observation_def mote_new_def
      react_turn_id_material_def react_tool_id_material_def replan_shaper_id_material_def content_ref_of_def
      put_prompt_def greedy_def greedy_params_def SHAPER_MAX_OUTPUT_TOKENS_def)
qed

section \<open>Instructions\<close>

lemma sublist_in_append: "sublist xs ys \<Longrightarrow> sublist xs (zs @ ys)"
  by (metis append_eq_appendI sublist_def)

lemma sublist_of_append: "sublist xs ys \<Longrightarrow> sublist xs (ys @ zs)"
  by (metis append.assoc sublist_def)

lemma bounded_reason_bound:
  assumes "utf8_chars reason = Some cs"
  shows "length (bounded_reason reason) \<le> 4 * MAX_REJECTED_REASON_LEN"
proof -
  have "\<forall>c \<in> set (take MAX_REJECTED_REASON_LEN cs). length c \<le> 4"
    using utf8_chars_width [OF assms] by (meson in_set_takeD)
  moreover have "length (concat xs) \<le> 4 * length xs" if "\<forall>c \<in> set xs. length c \<le> 4" for xs :: "bytes list"
    using that by (induction xs) auto
  ultimately have "length (concat (take MAX_REJECTED_REASON_LEN cs)) \<le> 4 * length (take MAX_REJECTED_REASON_LEN cs)"
    by blast
  also have "\<dots> \<le> 4 * MAX_REJECTED_REASON_LEN" by simp
  finally have cut: "length (concat (take MAX_REJECTED_REASON_LEN cs)) \<le> 4 * MAX_REJECTED_REASON_LEN" .
  show ?thesis
  proof (cases "length cs \<le> MAX_REJECTED_REASON_LEN")
    case True
    then show ?thesis using cut utf8_chars_concat [OF assms] assms by (simp add: bounded_reason_def)
  qed (use cut assms in \<open>simp add: bounded_reason_def\<close>)
qed

lemma nudged_instruction_is_marked:
  "sublist SETTLE_NUDGE_MARKER (render_turn_instruction base reject True)"
proof -
  have "sublist SETTLE_NUDGE_MARKER (ascii ''[This is your LAST turn and your tool-call budget is nearly exhausted. Do NOT call another tool. Answer the question directly, in prose, using whatever you have '')"
    unfolding SETTLE_NUDGE_MARKER_def ascii_def by code_simp
  moreover have "sublist SETTLE_NUDGE_MARKER (ascii ''[You have already gathered tool results, and your tool-call budget is nearly exhausted. Do NOT call another tool. Using the observations you already have, give your FINAL answer to the question now, directly and in prose.]'')"
    unfolding SETTLE_NUDGE_MARKER_def ascii_def by code_simp
  ultimately show ?thesis
    by (cases reject)
      (simp_all add: render_settle_nudge_def render_reprompt_nudged_def sublist_in_append sublist_of_append)
qed

end
