(* ===== verification/Kx_Coord_Dispatch.thy ===== *)
theory Kx_Coord_Dispatch
  imports Kx_Coord_Ops Kx_React_Shape
begin

text \<open>
  Leasing work (\<open>crates/kx-coordinator/src/state.rs\<close>, \<open>serve_lease\<close> and what it calls): which Motes a
  polling worker is handed. The shapes that are never leased, the verdict on a conditional arm, the
  safety gates on re-dispatch, the context a leased Mote is handed, and the selection. The validated
  arguments of a tool call and the reordering of retrieved passages read JSON text; they are
  parameters (\<open>lease_env\<close>).
\<close>

section \<open>Marker keys\<close>

definition TOOL_ARGS_KEY :: config_key where "TOOL_ARGS_KEY = ascii ''kx.tool.args''"
definition WAIT_DELAY_MS_KEY :: config_key where "WAIT_DELAY_MS_KEY = ascii ''kx.wait.delay_ms''"
definition SKIP_GUARD_KEY :: config_key where "SKIP_GUARD_KEY = ascii ''kx.cond.skip_guard''"
definition COND_ARM_KEY :: config_key where "COND_ARM_KEY = ascii ''kx.cond.arm''"
definition COND_SKIP_SENTINEL :: bytes where "COND_SKIP_SENTINEL = ascii ''kx-workflow/skip/v1''"
definition FAILURE_MODE_KEY :: config_key where "FAILURE_MODE_KEY = ascii ''kx.step.failure_mode''"
definition CONTEXT_ITEMS_KEY :: config_key where "CONTEXT_ITEMS_KEY = ascii ''kx.context.items''"
definition IMAGE_REF_KEY :: config_key where "IMAGE_REF_KEY = ascii ''image_ref''"

definition has_key :: "config_key \<Rightarrow> mote \<Rightarrow> bool" where
  "has_key k m \<longleftrightarrow> map_of (md_config_subset (m_def m)) k \<noteq> None"

section \<open>Shapes of Motes\<close>

definition is_agentic_launch :: "mote \<Rightarrow> bool" where
  "is_agentic_launch m \<longleftrightarrow> md_tool_contract (m_def m) \<noteq> [] \<and> mote_nd_class m = ReadOnlyNondet \<and>
     mote_effect_pattern m = StageThenCommit \<and> has_key PROMPT_KEY m \<and> \<not> has_key TOOL_ARGS_KEY m"

definition is_wait_step :: "mote \<Rightarrow> bool" where
  "is_wait_step m \<longleftrightarrow> mote_nd_class m = Pure \<and> has_key WAIT_DELAY_MS_KEY m"

definition is_skip_guard :: "mote \<Rightarrow> bool" where
  "is_skip_guard m \<longleftrightarrow> has_key SKIP_GUARD_KEY m"

definition is_policied_step :: "mote \<Rightarrow> bool" where
  "is_policied_step m \<longleftrightarrow> has_key FAILURE_MODE_KEY m"

definition is_react_observation :: "mote \<Rightarrow> pstate \<Rightarrow> bool" where
  "is_react_observation m st \<longleftrightarrow> md_tool_contract (m_def m) \<noteq> [] \<and>
     (case m_parents m of [p] \<Rightarrow> is_react_turn_mote st (pr_parent_id p) | _ \<Rightarrow> False)"

definition is_authored_tool :: "mote \<Rightarrow> pstate \<Rightarrow> bool" where
  "is_authored_tool m st \<longleftrightarrow> md_tool_contract (m_def m) \<noteq> [] \<and> mote_effect_pattern m = StageThenCommit \<and>
     has_key TOOL_ARGS_KEY m \<and> \<not> is_react_observation m st"

section \<open>Conditional arms\<close>

text \<open>
  \<open>String::from_utf8_lossy\<close>: each maximal prefix of an ill-formed sequence becomes one replacement
  character.
\<close>

fun lossy_len :: "bytes \<Rightarrow> nat" where
  "lossy_len [] = 0"
| "lossy_len (b # bs) =
     (if 0xE0 \<le> b \<and> b \<le> 0xEF then
        (case bs of
           b1 # _ \<Rightarrow> if cont_byte b1 \<and> (b = 0xE0 \<longrightarrow> 0xA0 \<le> b1) \<and> (b = 0xED \<longrightarrow> b1 \<le> 0x9F) then 2 else 1
         | [] \<Rightarrow> 1)
      else if 0xF0 \<le> b \<and> b \<le> 0xF4 then
        (case bs of
           b1 # bs' \<Rightarrow>
             if cont_byte b1 \<and> (b = 0xF0 \<longrightarrow> 0x90 \<le> b1) \<and> (b = 0xF4 \<longrightarrow> b1 \<le> 0x8F)
             then (case bs' of b2 # _ \<Rightarrow> if cont_byte b2 then 3 else 2 | [] \<Rightarrow> 2)
             else 1
         | [] \<Rightarrow> 1)
      else 1)"

lemma lossy_len_pos: "bs \<noteq> [] \<Longrightarrow> 0 < lossy_len bs"
  by (cases bs) (auto split: list.splits)

function utf8_lossy :: "bytes \<Rightarrow> rstring" where
  "utf8_lossy bs =
     (if bs = [] then []
      else case utf8_step bs of
          Some (c, rest) \<Rightarrow> c @ utf8_lossy rest
        | None \<Rightarrow> [0xEF, 0xBF, 0xBD] @ utf8_lossy (drop (lossy_len bs) bs))"
  by pat_completeness auto

termination
  by (relation "measure length") (auto dest!: utf8_step_split simp: lossy_len_pos)

declare utf8_lossy.simps [simp del]

datatype guard_verdict = GuardRun | GuardSkip | GuardUndecided

definition skip_sentinel_ref :: "hash_fn \<Rightarrow> content_ref" where
  "skip_sentinel_ref blake3 = content_ref_of blake3 COND_SKIP_SENTINEL"

definition SELECTED :: rstring where
  \<open>SELECTED = ascii ''"selected":"''\<close>

text \<open>The first parent whose committed bytes have the shape of a conditional's verdict decides.\<close>

fun guard_scan :: "rstring \<Rightarrow> pstate \<Rightarrow> content_store \<Rightarrow> parent_ref list \<Rightarrow> guard_verdict" where
  "guard_scan wanted st store [] = GuardUndecided"
| "guard_scan wanted st store (p # ps) =
     (case result_ref_of st (pr_parent_id p) of
        None \<Rightarrow> guard_scan wanted st store ps
      | Some r \<Rightarrow>
          (case store_get store r of
             None \<Rightarrow> guard_scan wanted st store ps
           | Some bs \<Rightarrow>
               let text = utf8_lossy bs in
               if prefix (ascii ''{'' @ SELECTED) text
               then if sublist wanted text then GuardRun else GuardSkip
               else guard_scan wanted st store ps))"

definition skip_guard_verdict :: "hash_fn \<Rightarrow> mote \<Rightarrow> pstate \<Rightarrow> content_store option \<Rightarrow> guard_verdict" where
  \<open>skip_guard_verdict blake3 m st store =
     (if list_ex (\<lambda>p. result_ref_of st (pr_parent_id p) = Some (skip_sentinel_ref blake3)) (m_parents m) then GuardSkip
      else case map_of (md_config_subset (m_def m)) COND_ARM_KEY of
          None \<Rightarrow> GuardRun
        | Some arm \<Rightarrow>
            (case store of
               None \<Rightarrow> GuardUndecided
             | Some s \<Rightarrow> guard_scan (SELECTED @ utf8_lossy arm @ ascii ''"'') st s (m_parents m)))\<close>

definition skip_guard_cleared :: "hash_fn \<Rightarrow> mote \<Rightarrow> pstate \<Rightarrow> content_store option \<Rightarrow> bool" where
  "skip_guard_cleared blake3 m st store \<longleftrightarrow> skip_guard_verdict blake3 m st store = GuardRun"

section \<open>Safety of re-dispatch\<close>

type_synonym mote_defs = "(mote_id, mote \<times> warrant_spec) btree"

definition redispatch_admissible :: "mote_defs \<Rightarrow> pstate \<Rightarrow> mote_id \<Rightarrow> bool" where
  "redispatch_admissible defs st i =
     (case map_of defs i of
        Some (m, _) \<Rightarrow> mote_nd_class m = Pure \<or> can_redispatch_world_effect_id st i
      | None \<Rightarrow> False)"

definition mote_dispatches_at_least_once :: "mote \<Rightarrow> pstate \<Rightarrow> bool" where
  "mote_dispatches_at_least_once m st =
     list_ex (\<lambda>tool. idempotency_class_for_tool st tool = Some AtLeastOnce) (bt_keys (md_tool_contract (m_def m)))"

definition at_least_once_already_staged :: "mote_defs \<Rightarrow> pstate \<Rightarrow> mote_id \<Rightarrow> bool" where
  "at_least_once_already_staged defs st i =
     (case map_of defs i of
        Some (m, _) \<Rightarrow> mote_dispatches_at_least_once m st \<and> can_redispatch_world_effect_id st i
      | None \<Rightarrow> False)"

section \<open>What a leased Mote is handed\<close>

definition decode_react_marker :: "bytes \<Rightarrow> (array16 \<times> array32 option) option" where
  "decode_react_marker bs =
     (if length bs = 16 then Some (be_word bs, None)
      else if length bs = 48 then Some (be_word (take 16 bs), Some (be_word (drop 16 bs)))
      else None)"

definition chain_anchor :: "mote \<Rightarrow> pstate \<Rightarrow> react_round_record option" where
  "chain_anchor m st =
     (case map_of (md_config_subset (m_def m)) REACT_TURN_KEY of
        None \<Rightarrow> None
      | Some marker \<Rightarrow>
          (case decode_react_marker marker of
             None \<Rightarrow> None
           | Some (instance_id, step_salt) \<Rightarrow> find (\<lambda>r. ra_turn r = 0) (react_rounds_of st instance_id step_salt)))"

definition resolve_react_context_items :: "mote \<Rightarrow> pstate \<Rightarrow> content_ref option" where
  "resolve_react_context_items m st =
     (if has_key CONTEXT_ITEMS_KEY m then None
      else case chain_anchor m st of None \<Rightarrow> None | Some anchor \<Rightarrow> ra_context_items_ref anchor)"

definition resolve_react_image_ref :: "mote \<Rightarrow> pstate \<Rightarrow> content_ref option" where
  "resolve_react_image_ref m st =
     (if has_key IMAGE_REF_KEY m then None
      else case chain_anchor m st of None \<Rightarrow> None | Some anchor \<Rightarrow> ra_image_ref anchor)"

text \<open>The committed results a Mote reads: sorted by Mote, each parent once.\<close>

fun dedup_by_id :: "(mote_id \<times> content_ref) list \<Rightarrow> (mote_id \<times> content_ref) list" where
  "dedup_by_id (a # b # xs) = (if fst a = fst b then dedup_by_id (a # xs) else a # dedup_by_id (b # xs))"
| "dedup_by_id xs = xs"

definition data_results :: "pstate \<Rightarrow> parent_ref list \<Rightarrow> (mote_id \<times> content_ref) list" where
  "data_results st ps =
     List.map_filter (\<lambda>p. if em_kind (pr_edge p) = Data
       then map_option (Pair (pr_parent_id p)) (result_ref_of st (pr_parent_id p)) else None) ps"

definition lifted_results :: "pstate \<Rightarrow> mote_defs \<Rightarrow> parent_ref \<Rightarrow> (mote_id \<times> content_ref) list" where
  "lifted_results st defs p =
     (case em_kind (pr_edge p) of
        Data \<Rightarrow> data_results st [p]
      | Control \<Rightarrow>
          (case map_of defs (pr_parent_id p) of
             None \<Rightarrow> []
           | Some (shaper, _) \<Rightarrow> data_results st (m_parents shaper)))"

text \<open>
  The transcript of an agent turn. Of each earlier turn the last record counts; a turn that fired
  tools is followed by its observations, whose Motes are rebuilt from the record.
\<close>

type_synonym tool_args = "bytes \<times> net_scope \<times> fs_scope"

record lease_env =
  le_rerank_holds :: "mote \<Rightarrow> warrant_spec \<Rightarrow> pstate \<Rightarrow> content_store option \<Rightarrow> bool"
  le_rerank_context :: "mote \<Rightarrow> warrant_spec \<Rightarrow> pstate \<Rightarrow> content_store option \<Rightarrow> content_ref option"
  le_observation_args :: "mote \<Rightarrow> warrant_spec \<Rightarrow> pstate \<Rightarrow> content_store option \<Rightarrow> tool_args option"
  le_authored_args :: "mote \<Rightarrow> tool_args option"
  le_reorder :: "bytes \<Rightarrow> u32 list \<Rightarrow> bytes option"
  le_decode_verdict :: "bytes \<Rightarrow> (critic_verdict \<times> nat) option"
  le_blake3 :: hash_fn
  le_enc_def :: "mote_def \<Rightarrow> bytes"

fun note_turn :: "react_round_record \<Rightarrow> react_round_record list \<Rightarrow> react_round_record list" where
  "note_turn r [] = [r]"
| "note_turn r (t # ts) =
     (if ra_turn t = ra_turn r then (if ra_seq t < ra_seq r then r else t) # ts else t # note_turn r ts)"

fun batch_of :: "react_branch \<Rightarrow> (rstring \<times> rstring) list" where
  "batch_of (ToolCall tool_id tool_version) = [(tool_id, tool_version)]"
| "batch_of (ToolBatch calls) = calls"
| "batch_of _ = []"

definition rerank_delivered_ref ::
  "lease_env \<Rightarrow> pstate \<Rightarrow> content_store option \<Rightarrow> array16 \<Rightarrow> content_ref \<Rightarrow> content_ref option"
where
  "rerank_delivered_ref env st store instance_id obs_ref =
     (case store of
        None \<Rightarrow> None
      | Some s \<Rightarrow>
          if rerank_rounds_of st instance_id = [] then None
          else case latest_rerank_round_by_base st instance_id obs_ref of
              None \<Rightarrow> None
            | Some rr \<Rightarrow>
                (case rk_outcome rr of
                   Reranked permutation \<Rightarrow>
                     (case store_get s obs_ref of
                        None \<Rightarrow> None
                      | Some obs_bytes \<Rightarrow> map_option (content_ref_of (le_blake3 env)) (le_reorder env obs_bytes permutation))
                 | _ \<Rightarrow> None))"

text \<open>The position of a call in its batch, clamped to 32 bits.\<close>

definition clamp32 :: "nat \<Rightarrow> u32" where
  "clamp32 n = (if n < 2 ^ 32 then of_nat n else - 1)"

definition observation_of ::
  "lease_env \<Rightarrow> react_round_record \<Rightarrow> array16 \<Rightarrow> array32 option \<Rightarrow> nat \<times> rstring \<times> rstring \<Rightarrow> mote"
where
  "observation_of env r instance_id step_salt call =
     (case call of (i, tool_id, tool_version) \<Rightarrow>
        build_chain_tool (le_blake3 env) (le_enc_def env) (ra_model_id r) tool_id tool_version (ra_turn r)
          instance_id step_salt (clamp32 i) (ra_turn_mote_id r))"

definition turn_results ::
  "lease_env \<Rightarrow> pstate \<Rightarrow> content_store option \<Rightarrow> array16 \<Rightarrow> array32 option \<Rightarrow> react_round_record \<Rightarrow>
     (mote_id \<times> content_ref) list"
where
  "turn_results env st store instance_id step_salt r =
     (case result_ref_of st (ra_turn_mote_id r) of None \<Rightarrow> [] | Some turn_ref \<Rightarrow> [(ra_turn_mote_id r, turn_ref)]) @
     List.map_filter (\<lambda>call.
       let obs = observation_of env r instance_id step_salt call in
       map_option (\<lambda>obs_ref.
         (m_id obs, case rerank_delivered_ref env st store instance_id obs_ref of Some d \<Rightarrow> d | None \<Rightarrow> obs_ref))
         (result_ref_of st (m_id obs)))
       (enumerate 0 (batch_of (ra_branch r)))"

definition trajectory :: "lease_env \<Rightarrow> mote \<Rightarrow> pstate \<Rightarrow> content_store option \<Rightarrow> (mote_id \<times> content_ref) list" where
  "trajectory env m st store =
     (case Option.bind (map_of (md_config_subset (m_def m)) REACT_TURN_KEY) decode_react_marker of
        None \<Rightarrow> []
      | Some (instance_id, step_salt) \<Rightarrow>
          let rounds = react_rounds_of st instance_id step_salt in
          (case find (\<lambda>r. ra_turn_mote_id r = m_id m) rounds of
             None \<Rightarrow> []
           | Some this \<Rightarrow>
               let turns = fold note_turn (filter (\<lambda>r. ra_turn r < ra_turn this) rounds) [] in
               concat (map (turn_results env st store instance_id step_salt) (sort_key ra_turn turns))))"

definition resolve_parent_context ::
  "lease_env \<Rightarrow> mote \<Rightarrow> pstate \<Rightarrow> mote_defs \<Rightarrow> content_store option \<Rightarrow> (mote_id \<times> content_ref) list"
where
  "resolve_parent_context env m st defs store =
     (case md_critic_for (m_def m) of
        Some producer \<Rightarrow> (case result_ref_of st producer of Some r \<Rightarrow> [(producer, r)] | None \<Rightarrow> [])
      | None \<Rightarrow>
          if has_key REACT_TURN_KEY m then trajectory env m st store
          else dedup_by_id (sort_key fst (concat (map (lifted_results st defs) (m_parents m)))))"

section \<open>Selection\<close>

definition gated_ready_set :: "lease_env \<Rightarrow> pstate \<Rightarrow> content_store option \<Rightarrow> mote_id list" where
  "gated_ready_set env st store =
     (case store of
        Some s \<Rightarrow> ready_set_auto st (Some (content_store_verdicts (le_decode_verdict env) (store_get s)))
      | None \<Rightarrow> ready_set_auto st None)"

record leased_item =
  li_mote :: mote
  li_warrant :: warrant_spec
  li_parent_results :: "(mote_id \<times> content_ref) list"
  li_tool_args :: "tool_args option"
  li_context_items :: "content_ref option"
  li_image_ref :: "content_ref option"

text \<open>The checks of the selection loop on one candidate, after the repeat check.\<close>

definition leasable :: "lease_env \<Rightarrow> coord \<Rightarrow> worker_id \<Rightarrow> executor_class \<Rightarrow> mote_id \<Rightarrow> bool" where
  "leasable env c worker class i =
     (if state_of_id (cr_projection c) i = MsCommitted then False
      else if is_leased_by_other (cr_tracker c) i worker then False
      else case map_of (cr_defs c) i of
          None \<Rightarrow> False
        | Some (m, w) \<Rightarrow>
            if is_agentic_launch m then False
            else if is_wait_step m then False
            else if is_skip_guard m \<and> \<not> skip_guard_cleared (le_blake3 env) m (cr_projection c) (cr_store c) then False
            else if is_policied_step m then False
            else if le_rerank_holds env m w (cr_projection c) (cr_store c) then False
            else ws_executor_class w = class)"

fun select_loop ::
  "(mote_id \<Rightarrow> bool) \<Rightarrow> (mote_id \<Rightarrow> bool) \<Rightarrow> mote_id list \<Rightarrow> mote_id list \<Rightarrow> mote_id list \<times> mote_id list"
where
  "select_loop ok prefers seen [] = ([], [])"
| "select_loop ok prefers seen (i # is) =
     (if i \<in> set seen then select_loop ok prefers seen is
      else case select_loop ok prefers (i # seen) is of
          (preferred, rest) \<Rightarrow>
            if ok i then (if prefers i then (i # preferred, rest) else (preferred, i # rest))
            else (preferred, rest))"

definition lease_candidates :: "lease_env \<Rightarrow> coord \<Rightarrow> mote_id list" where
  "lease_candidates env c =
     filter (\<lambda>i. \<not> at_least_once_already_staged (cr_defs c) (cr_projection c) i)
       (gated_ready_set env (cr_projection c) (cr_store c) @
        filter (redispatch_admissible (cr_defs c) (cr_projection c)) (rescheduleable (cr_tracker c)))"

definition lease_item :: "lease_env \<Rightarrow> coord \<Rightarrow> mote_id \<Rightarrow> leased_item option" where
  "lease_item env c i =
     (case map_of (cr_defs c) i of
        None \<Rightarrow> None
      | Some (m, w) \<Rightarrow>
          let st = cr_projection c;
              store = cr_store c;
              item = (\<lambda>args.
                \<lparr>li_mote = m, li_warrant = w, li_parent_results = resolve_parent_context env m st (cr_defs c) store,
                 li_tool_args = args,
                 li_context_items = (case le_rerank_context env m w st store of
                   Some r \<Rightarrow> Some r | None \<Rightarrow> resolve_react_context_items m st),
                 li_image_ref = resolve_react_image_ref m st\<rparr>)
          in if is_react_observation m st
             then map_option (\<lambda>args. item (Some args)) (le_observation_args env m w st store)
             else if is_authored_tool m st then map_option (\<lambda>args. item (Some args)) (le_authored_args env m)
             else Some (item None))"

definition lease_ready ::
  "lease_env \<Rightarrow> u64 \<Rightarrow> registry \<Rightarrow> worker_id \<Rightarrow> executor_class \<Rightarrow> nat \<Rightarrow> coord \<Rightarrow> leased_item list"
where
  "lease_ready env now reg worker class n c =
     (let placement = load_aware_new now reg class in
      case select_loop (leasable env c worker class) (\<lambda>i. load_aware_place placement i = worker) [] (lease_candidates env c) of
        (preferred, rest) \<Rightarrow> List.map_filter (lease_item env c) (take n (preferred @ rest)))"

definition serve_lease ::
  "lease_env \<Rightarrow> u64 \<Rightarrow> registry \<Rightarrow> worker_id \<Rightarrow> executor_class \<Rightarrow> nat \<Rightarrow> coord \<Rightarrow>
     (leased_item list \<times> array16 option) \<times> coord"
where
  "serve_lease env now reg worker class n c =
     (let c1 = reap_dead_workers (le_blake3 env) (status now reg) c;
          items = lease_ready env now reg worker class n c1;
          c2 = c1\<lparr>cr_tracker := record_lease worker (map (\<lambda>it. m_id (li_mote it)) items) (cr_tracker c1)\<rparr>
      in ((items, map_option fst (st_run_registration (cr_projection c2))), c2))"

end
