(* ===== verification/Kx_Coord_Dispatch_Properties.thy ===== *)
theory Kx_Coord_Dispatch_Properties
  imports Kx_Coord_Dispatch
begin

text \<open>
  What leasing guarantees: a poll hands out only work that is safe to run, each Mote once, and all
  of it when there is room; and no Mote is held by two workers, whatever else the thread does.
\<close>

section \<open>Selection\<close>

text \<open>The first occurrence of every candidate, in order.\<close>

fun firsts :: "mote_id list \<Rightarrow> mote_id list \<Rightarrow> mote_id list" where
  "firsts seen [] = []"
| "firsts seen (i # is) = (if i \<in> set seen then firsts seen is else i # firsts (i # seen) is)"

lemma set_firsts: "set (firsts seen is) = set is - set seen"
  by (induction seen "is" rule: firsts.induct) auto

lemma distinct_firsts: "distinct (firsts seen is)"
  by (induction seen "is" rule: firsts.induct) (auto simp: set_firsts)

lemma select_loop_eq:
  "select_loop ok prefers seen is =
     (filter (\<lambda>i. ok i \<and> prefers i) (firsts seen is), filter (\<lambda>i. ok i \<and> \<not> prefers i) (firsts seen is))"
  by (induction seen "is" rule: firsts.induct) simp_all

definition chosen :: "lease_env \<Rightarrow> u64 \<Rightarrow> registry \<Rightarrow> worker_id \<Rightarrow> executor_class \<Rightarrow> coord \<Rightarrow> mote_id list" where
  "chosen env now reg worker class c =
     (case select_loop (leasable env c worker class) (\<lambda>i. load_aware_place (load_aware_new now reg class) i = worker)
         [] (lease_candidates env c) of (preferred, rest) \<Rightarrow> preferred @ rest)"

lemma chosen_set:
  "set (chosen env now reg worker class c) = {i \<in> set (lease_candidates env c). leasable env c worker class i}"
  "distinct (chosen env now reg worker class c)"
  by (auto simp: chosen_def select_loop_eq set_firsts distinct_firsts)

lemma lease_ready_chosen:
  "lease_ready env now reg worker class n c =
     List.map_filter (lease_item env c) (take n (chosen env now reg worker class c))"
  by (simp add: lease_ready_def chosen_def split: prod.split)

lemma lease_item_mote:
  assumes "lease_item env c i = Some it"
  shows "map_of (cr_defs c) i = Some (li_mote it, li_warrant it)"
  using assms by (auto simp: lease_item_def Let_def split: option.splits prod.splits if_splits)

lemma map_filter_ids:
  assumes "\<And>x y. x \<in> set xs \<Longrightarrow> f x = Some y \<Longrightarrow> g y = x"
  shows "map g (List.map_filter f xs) = filter (\<lambda>x. f x \<noteq> None) xs"
  using assms by (induction xs) (auto simp: List.map_filter_simps split: option.splits)

section \<open>The leases only shrink, polls apart\<close>

definition holdings :: "coord \<Rightarrow> (worker_id \<times> mote_id) set" where
  "holdings c = ls_held (lease_abs (cr_tracker c))"

definition narrows :: "coord \<Rightarrow> coord \<Rightarrow> bool" where
  "narrows c c' \<longleftrightarrow> (tracker_inv (cr_tracker c) \<longrightarrow> tracker_inv (cr_tracker c') \<and> holdings c' \<subseteq> holdings c)"

lemma narrows_refl: "reflp narrows"
  by (simp add: narrows_def reflp_def)

lemma narrows_trans: "transp narrows"
  by (auto simp: narrows_def transp_def)

lemma narrows_same: "cr_tracker c' = cr_tracker c \<Longrightarrow> narrows c c'"
  by (simp add: narrows_def holdings_def)

lemma narrows_transD: "narrows a b \<Longrightarrow> narrows b c \<Longrightarrow> narrows a c"
  using narrows_trans by (rule transpD)

lemma narrows_fold:
  assumes "\<And>x c. narrows c (f x c)"
  shows "narrows c (fold f xs c)"
proof (induction xs arbitrary: c)
  case (Cons x xs)
  then show ?case using narrows_transD [OF assms Cons.IH] by simp
qed (simp add: narrows_same)

lemma append_c_tracker [simp]: "cr_tracker (snd (append_c blake3 e c)) = cr_tracker c"
  by (cases rule: append_c_cases [of blake3 e c]) simp_all

lemma fold_durable_tracker [simp]: "cr_tracker (snd (fold_durable x c)) = cr_tracker c"
  by (auto simp: fold_durable_def split: prod.splits sum.splits)

lemma append_fold_tracker [simp]: "cr_tracker (snd (append_fold blake3 e c)) = cr_tracker c"
  by (auto simp: append_fold_def then_st_def err_st_def map_err_def split: prod.splits sum.splits
      dest!: arg_cong [where f = "\<lambda>p. cr_tracker (snd p)"])

lemma tracker_narrows:
  "narrows c (c\<lparr>cr_tracker := resolve_committed i (cr_tracker c)\<rparr>)"
  "narrows c (c\<lparr>cr_tracker := snd (record_crash i b (cr_tracker c))\<rparr>)"
  "narrows c (c\<lparr>cr_tracker := snd (take_leases w (cr_tracker c))\<rparr>)"
  by (auto simp: narrows_def holdings_def resolve_inv record_crash_inv take_leases_inv abs_resolve abs_crash abs_take)

lemma append_then_narrows:
  assumes "\<And>c. narrows c (k c)"
  shows "narrows c (append_then blake3 e k c)"
proof (cases "append_c blake3 e c")
  case (Pair r c')
  then have same: "cr_tracker c' = cr_tracker c" using append_c_tracker [of blake3 e c] by simp
  show ?thesis
  proof (cases r)
    case (Inr x)
    have "narrows c (snd (fold_durable x c'))" by (rule narrows_same) (simp add: same)
    then show ?thesis using narrows_transD [OF _ assms] Pair Inr by (simp add: append_then_def)
  qed (simp add: append_then_def Pair narrows_same [OF same])
qed

lemma reap_mote_narrows: "narrows c (reap_mote blake3 i c)"
  by (auto simp: reap_mote_def intro: append_then_narrows tracker_narrows)

lemma reap_worker_narrows: "narrows c (reap_worker blake3 status_of w c)"
proof (cases "take_leases w (cr_tracker c)")
  case (Pair motes t)
  have "narrows c (c\<lparr>cr_tracker := t\<rparr>)" using tracker_narrows(3) [of c w] Pair by simp
  from narrows_transD [OF this narrows_fold [of "reap_mote blake3", OF reap_mote_narrows]] show ?thesis
    by (simp add: reap_worker_def Pair narrows_same)
qed

lemma reap_narrows: "narrows c (reap_dead_workers blake3 status_of c)"
  unfolding reap_dead_workers_def by (intro narrows_fold reap_worker_narrows)

lemma dead_letter_narrows: "narrows c (snd (dead_letter_failure blake3 i key reason worker detail c))"
proof -
  let ?e = "Failed \<lparr>f_mote_id = i, f_idempotency_key = key, f_seq = 0, f_reason_class = reason,
    f_reporter_id = worker_reporter_id worker, f_detail = detail\<rparr>"
  let ?k = "\<lambda>c'. c'\<lparr>cr_submitted := bs_remove i (cr_submitted c'), cr_defs := bt_remove i (cr_defs c'),
    cr_tracker := resolve_committed i (cr_tracker c')\<rparr>"
  obtain r c1 where a: "append_fold blake3 ?e c = (r, c1)" by fastforce
  then have same: "cr_tracker c1 = cr_tracker c" using append_fold_tracker [of blake3 ?e c] by simp
  have "narrows c1 (?k c1)"
    using tracker_narrows(1) [of c1 i] by (simp add: narrows_def holdings_def)
  from narrows_transD [OF narrows_same [OF same] this] show ?thesis
    using tracker_narrows(1) [of c i] a narrows_same [OF same]
    by (auto simp: dead_letter_failure_def then_st_def narrows_same split: sum.splits)
qed

lemma admit_tracker [simp]: "cr_tracker (admit cd m w reg c) = cr_tracker c"
  by (simp add: admit_def persist_def_def split: option.splits prod.splits)

lemma admit_all_tracker [simp]: "cr_tracker (fold (\<lambda>(m, w, reg). admit cd m w reg) xs c) = cr_tracker c"
  by (induction xs arbitrary: c) auto

lemma settle_commit_narrows: "narrows c (settle_commit cd roles i c)"
proof -
  define c1 where "c1 = (case (cr_store c, roles, map_of (cr_defs c) i) of
                  (Some _, Some derive, Some (m, w)) \<Rightarrow>
                    if md_is_topology_shaper (m_def m) then materialize_committed_shaper cd derive i (m_def m) w c else c
                | _ \<Rightarrow> c)"
  have "cr_tracker c1 = cr_tracker c"
    by (auto simp: c1_def materialize_committed_shaper_def split: option.splits)
  then have "narrows c c1" by (rule narrows_same)
  moreover have "narrows c1 (c1\<lparr>cr_defs := d, cr_tracker := resolve_committed i (cr_tracker c1)\<rparr>)" for d
    using tracker_narrows(1) [of c1 i] by (simp add: narrows_def holdings_def)
  ultimately have "narrows c (c1\<lparr>cr_defs := bt_remove i (cr_defs c1), cr_tracker := resolve_committed i (cr_tracker c1)\<rparr>)"
    using narrows_transD by blast
  then show ?thesis
    unfolding settle_commit_def Let_def c1_def [symmetric] .
qed

lemma apply_batch_tracker: "cr_tracker (snd (apply_batch blake3 es c)) = cr_tracker c"
proof -
  have loop: "cr_tracker (snd (apply_loop b xs seen out c)) = cr_tracker c" for b xs seen out c
    by (induction xs arbitrary: seen out c) (auto simp: Let_def split: prod.splits sum.splits)
  have "cr_tracker (snd (append_batch_c blake3 es c)) = cr_tracker c"
    by (simp add: append_batch_c_def Let_def split: list.splits bool.splits prod.splits)
  then show ?thesis
    using loop by (auto simp: apply_batch_def Let_def then_st_def split: prod.splits sum.splits)
      (metis snd_conv snd_err_st)+
qed

lemma flush_narrows: "narrows c (snd (flush_commits cd roles pending c))"
proof (cases "filter (\<lambda>p. commit_admission c p = None) pending = []")
  case False
  let ?es = "map committed_entry_of (filter (\<lambda>p. commit_admission c p = None) pending)"
  obtain r c1 where a: "apply_batch (cd_blake3 cd) ?es c = (r, c1)" by fastforce
  then have "narrows c c1" using apply_batch_tracker [of "cd_blake3 cd" ?es c] by (intro narrows_same) simp
  from this narrows_transD [OF this narrows_fold [of "settle_commit cd roles", OF settle_commit_narrows]] show ?thesis
    using False a by (cases r) (simp_all add: flush_commits_def Let_def)
qed (simp add: flush_commits_def narrows_same)

section \<open>A poll\<close>

definition defs_keyed :: "coord \<Rightarrow> bool" where
  "defs_keyed c \<longleftrightarrow> (\<forall>i m w. map_of (cr_defs c) i = Some (m, w) \<longrightarrow> m_id m = i)"

lemma fold_durable_books [simp]:
  "cr_defs (snd (fold_durable x c)) = cr_defs c" "cr_store (snd (fold_durable x c)) = cr_store c"
  by (auto simp: fold_durable_def split: prod.splits sum.splits)

lemma reap_mote_books: "cr_defs (reap_mote blake3 i c) = cr_defs c \<and> cr_store (reap_mote blake3 i c) = cr_store c"
proof (cases rule: append_c_cases [of blake3 "failed_worker_crashed_entry i" c])
qed (simp_all add: reap_mote_def append_then_def)

lemma reap_books [simp]:
  "cr_defs (reap_dead_workers blake3 status_of c) = cr_defs c"
  "cr_store (reap_dead_workers blake3 status_of c) = cr_store c"
proof -
  have motes: "cr_defs (fold (reap_mote blake3) is c) = cr_defs c \<and> cr_store (fold (reap_mote blake3) is c) = cr_store c" for "is" c
    using reap_mote_books by (induction "is" arbitrary: c) auto
  have "cr_defs (fold (reap_worker blake3 status_of) ws c) = cr_defs c \<and>
      cr_store (fold (reap_worker blake3 status_of) ws c) = cr_store c" for ws c
    using motes by (induction ws arbitrary: c) (auto simp: reap_worker_def split: prod.splits)
  then show "cr_defs (reap_dead_workers blake3 status_of c) = cr_defs c"
    "cr_store (reap_dead_workers blake3 status_of c) = cr_store c"
    by (simp_all add: reap_dead_workers_def)
qed

lemma reap_worker_frees:
  assumes "tracker_inv (cr_tracker c)" and "status_of w = Some Dead"
  shows "(w, i) \<notin> holdings (reap_worker blake3 status_of w c)"
proof (cases "take_leases w (cr_tracker c)")
  case (Pair motes t)
  let ?c = "c\<lparr>cr_tracker := t\<rparr>"
  have "tracker_inv t" "lease_abs t = lease_spec_step (LTake w) (lease_abs (cr_tracker c))"
    using take_leases_inv [OF assms(1), of w] abs_take [of w "cr_tracker c"] Pair by simp_all
  then have "tracker_inv (cr_tracker ?c)" "(w, i) \<notin> holdings ?c" by (simp_all add: holdings_def)
  moreover have "narrows ?c (fold (reap_mote blake3) motes ?c)" by (intro narrows_fold reap_mote_narrows)
  ultimately show ?thesis
    using assms(2) Pair by (auto simp: reap_worker_def narrows_def)
qed

lemma reap_frees:
  assumes "tracker_inv (cr_tracker c)" and "status_of w = Some Dead"
  shows "(w, i) \<notin> holdings (reap_dead_workers blake3 status_of c)"
proof -
  let ?run = "\<lambda>ws c. fold (reap_worker blake3 status_of) ws c"
  have freed: "(w, i) \<notin> holdings (?run ws c)" if "tracker_inv (cr_tracker c)" "w \<in> set ws \<or> (w, i) \<notin> holdings c" for ws c
    using that
  proof (induction ws arbitrary: c)
    case (Cons v ws)
    have "tracker_inv (cr_tracker (reap_worker blake3 status_of v c))"
      "holdings (reap_worker blake3 status_of v c) \<subseteq> holdings c"
      using reap_worker_narrows [of c blake3 status_of v] Cons.prems(1) by (auto simp: narrows_def)
    then show ?case
      using Cons.IH [of "reap_worker blake3 status_of v c"] Cons.prems reap_worker_frees [of c status_of w i blake3] assms(2)
      by auto
  qed simp
  have "w \<in> set (leasing_workers (cr_tracker c)) \<or> (w, i) \<notin> holdings c"
    using queries_from_abs(5) [OF assms(1)] by (auto simp: holdings_def)
  then show ?thesis unfolding reap_dead_workers_def by (rule freed [OF assms(1)])
qed

text \<open>A poll taken apart: the reap, the Motes handed out, and the record of them.\<close>

lemma serve_lease_parts:
  assumes "serve_lease env now reg worker class n c = ((items, run), c')" and "defs_keyed c"
  obtains c1 ids where "c1 = reap_dead_workers (le_blake3 env) (status now reg) c"
    "items = List.map_filter (lease_item env c1) (take n (chosen env now reg worker class c1))"
    "c' = c1\<lparr>cr_tracker := record_lease worker ids (cr_tracker c1)\<rparr>"
    "map (\<lambda>it. m_id (li_mote it)) items = ids"
    "ids = filter (\<lambda>i. lease_item env c1 i \<noteq> None) (take n (chosen env now reg worker class c1))"
proof -
  define c1 where "c1 = reap_dead_workers (le_blake3 env) (status now reg) c"
  have items: "items = List.map_filter (lease_item env c1) (take n (chosen env now reg worker class c1))"
    using assms(1) by (auto simp: serve_lease_def Let_def c1_def lease_ready_chosen)
  moreover have "c' = c1\<lparr>cr_tracker := record_lease worker (map (\<lambda>it. m_id (li_mote it)) items) (cr_tracker c1)\<rparr>"
    using assms(1) by (auto simp: serve_lease_def Let_def c1_def)
  moreover have "map (\<lambda>it. m_id (li_mote it)) items =
      filter (\<lambda>i. lease_item env c1 i \<noteq> None) (take n (chosen env now reg worker class c1))"
    unfolding items
    by (rule map_filter_ids) (use assms(2) lease_item_mote in \<open>fastforce simp: defs_keyed_def c1_def\<close>)
  ultimately show thesis using that c1_def by blast
qed

lemma holdings_record: "holdings (c\<lparr>cr_tracker := record_lease worker ids (cr_tracker c)\<rparr>) = holdings c \<union> {worker} \<times> set ids"
  by (auto simp: holdings_def abs_record)

lemma leasableD:
  assumes "leasable env c worker class i"
  obtains m w where "map_of (cr_defs c) i = Some (m, w)" "state_of_id (cr_projection c) i \<noteq> MsCommitted"
    "\<not> is_leased_by_other (cr_tracker c) i worker" "\<not> is_agentic_launch m" "\<not> is_wait_step m" "\<not> is_policied_step m"
    "is_skip_guard m \<longrightarrow> skip_guard_verdict (le_blake3 env) m (cr_projection c) (cr_store c) = GuardRun"
    "ws_executor_class w = class"
  using assms by (auto simp: leasable_def skip_guard_cleared_def split: if_splits option.splits)

lemma not_leased_by_other:
  assumes "tracker_inv (cr_tracker c)" "\<not> is_leased_by_other (cr_tracker c) i worker" "(v, i) \<in> holdings c"
  shows "v = worker"
proof -
  have "is_held_by (cr_tracker c) i v" using assms(1,3) by (simp add: queries_from_abs holdings_def)
  then show ?thesis using assms(2) by (auto simp: is_held_by_def is_leased_by_other_def list_ex_iff split: option.splits)
qed

text \<open>
  Everything the thread does with leases: polls, group commits and dead letters, between which it
  may do anything that leaves the tracker alone.
\<close>

inductive lease_life :: "coord \<Rightarrow> bool" where
  life_start: "cr_tracker c = lease_tracker_default \<Longrightarrow> lease_life c"
| life_poll: "lease_life c \<Longrightarrow> defs_keyed c \<Longrightarrow> lease_life (snd (serve_lease env now reg worker class n c))"
| life_commit: "lease_life c \<Longrightarrow> lease_life (snd (flush_commits cd roles pending c))"
| life_fail: "lease_life c \<Longrightarrow> lease_life (snd (dead_letter_failure blake3 i key reason worker detail c))"
| life_other: "lease_life c \<Longrightarrow> cr_tracker c' = cr_tracker c \<Longrightarrow> lease_life c'"

definition exclusive :: "coord \<Rightarrow> bool" where
  "exclusive c \<longleftrightarrow> tracker_inv (cr_tracker c) \<and> (\<forall>v w i. (v, i) \<in> holdings c \<longrightarrow> (w, i) \<in> holdings c \<longrightarrow> v = w)"

lemma exclusive_narrows: "exclusive c \<Longrightarrow> narrows c c' \<Longrightarrow> exclusive c'"
  by (auto simp: exclusive_def narrows_def)

lemma poll_exclusive:
  assumes "exclusive c" "defs_keyed c"
  shows "exclusive (snd (serve_lease env now reg worker class n c))"
proof -
  obtain items run c' where serve: "serve_lease env now reg worker class n c = ((items, run), c')"
    by (metis prod.exhaust)
  from serve_lease_parts [OF this assms(2)] obtain c1 ids where
    parts: "c1 = reap_dead_workers (le_blake3 env) (status now reg) c"
      "c' = c1\<lparr>cr_tracker := record_lease worker ids (cr_tracker c1)\<rparr>"
      "ids = filter (\<lambda>i. lease_item env c1 i \<noteq> None) (take n (chosen env now reg worker class c1))" by metis
  have c1: "exclusive c1" unfolding parts(1) by (rule exclusive_narrows [OF assms(1) reap_narrows])
  have alone: "v = worker" if i: "i \<in> set ids" and v: "(v, i) \<in> holdings c1" for v i
  proof -
    have "leasable env c1 worker class i"
      using i parts(3) chosen_set(1) by (auto dest!: in_set_takeD)
    then have "\<not> is_leased_by_other (cr_tracker c1) i worker" by (auto elim: leasableD)
    then show ?thesis using not_leased_by_other v c1 by (auto simp: exclusive_def)
  qed
  have "tracker_inv (cr_tracker c')"
    using c1 by (simp add: parts(2) exclusive_def record_lease_inv)
  moreover have "v = w" if "(v, i) \<in> holdings c'" "(w, i) \<in> holdings c'" for v w i
    using that alone c1 unfolding parts(2) holdings_record exclusive_def by auto
  ultimately show ?thesis using serve by (auto simp: exclusive_def)
qed

text \<open>
  C15: no Mote is held by two workers. Start from no leases and let the thread serve any polls,
  commit any groups and take any failure reports, with faults of the journal at any point and other
  operations in between: two workers that hold the same Mote are the same worker.
\<close>

theorem leases_exclusive:
  assumes "lease_life c" and "is_held_by (cr_tracker c) i v" and "is_held_by (cr_tracker c) i w"
  shows "v = w"
proof -
  have "exclusive c" using assms(1)
  proof induction
    case (life_start c)
    then show ?case by (simp add: exclusive_def holdings_def lease_abs_def adj_def) (simp add: lease_tracker_default_def)
  next
    case (life_other c c')
    then show ?case using exclusive_narrows narrows_same by blast
  qed (auto intro: poll_exclusive exclusive_narrows flush_narrows dead_letter_narrows)
  then show ?thesis using assms(2,3) by (simp add: exclusive_def holdings_def queries_from_abs)
qed

section \<open>What a poll hands out\<close>

text \<open>A lease that is safe to run, stated over the log.\<close>

definition startable :: "coord \<Rightarrow> mote_id \<Rightarrow> bool" where
  "startable c i \<longleftrightarrow> log_state i (clog c) = MsPending \<and>
     (\<exists>d. mi_declared (moteinfo (cr_projection c) i) = Some d \<and>
       (\<forall>p \<in> pr_parent_id ` set (di_parents d). log_state p (clog c) = MsCommitted))"

definition safe_lease :: "coord \<Rightarrow> worker_id \<Rightarrow> executor_class \<Rightarrow> leased_item \<Rightarrow> bool" where
  "safe_lease c worker class it \<longleftrightarrow>
     (let m = li_mote it; i = m_id m; st = cr_projection c in
      map_of (cr_defs c) i = Some (m, li_warrant it) \<and> ws_executor_class (li_warrant it) = class \<and>
      (\<forall>v. is_held_by (cr_tracker c) i v \<longleftrightarrow> v = worker) \<and>
      log_state i (clog c) \<noteq> MsCommitted \<and>
      \<not> is_agentic_launch m \<and> \<not> is_wait_step m \<and> \<not> is_policied_step m \<and>
      (mote_dispatches_at_least_once m st \<longrightarrow> \<not> can_redispatch_world_effect_id st i) \<and>
      (startable c i \<or>
       i \<in> set (rescheduleable (cr_tracker c)) \<and> (mote_nd_class m = Pure \<or> can_redispatch_world_effect_id st i)))"

lemma gated_ready_startable:
  assumes "core_inv blake3 c" and "i \<in> set (gated_ready_set env (cr_projection c) (cr_store c))"
  shows "startable c i"
proof -
  let ?st = "cr_projection c"
  note t = tracks_facts [OF core_invD(3) [OF assms(1)]]
  have inv: "bt_inv (st_motes ?st)" using t(2) by (simp add: children_ok_def)
  obtain v where "i \<in> set (ready_set_auto ?st v)"
    using assms(2) by (auto simp: gated_ready_set_def split: option.splits)
  then have "ready_spec (\<lambda>s p. promotion_state_with s p (effective_lookup v)) ?st i (moteinfo ?st i)"
    by (simp add: ready_set_auto_eq ready_with_mem [OF inv])
  then show ?thesis
    unfolding startable_def ready_spec_def parent_ok_def by (auto simp: t(1))
qed

lemma rescheduleable_record [simp]: "rescheduleable (record_lease worker ids t) = rescheduleable t"
proof -
  have "lt_crash_failed (fold (record_one worker) ids u) = lt_crash_failed u" for u
    by (induction ids arbitrary: u) (simp_all add: record_one_def)
  then show ?thesis by (simp add: rescheduleable_def record_lease_def)
qed

lemma candidate_origin:
  assumes "core_inv blake3 c" and "i \<in> set (lease_candidates env c)" and "map_of (cr_defs c) i = Some (m, w)"
  shows "mote_dispatches_at_least_once m (cr_projection c) \<longrightarrow> \<not> can_redispatch_world_effect_id (cr_projection c) i"
    and "startable c i \<or> i \<in> set (rescheduleable (cr_tracker c)) \<and>
      (mote_nd_class m = Pure \<or> can_redispatch_world_effect_id (cr_projection c) i)"
  using assms gated_ready_startable [OF assms(1)]
  by (auto simp: lease_candidates_def at_least_once_already_staged_def redispatch_admissible_def)

lemma leased_by_other_record:
  assumes "tracker_inv t"
  shows "is_leased_by_other (record_lease worker ids t) i worker = is_leased_by_other t i worker"
  using queries_from_abs(3) [OF assms] queries_from_abs(3) [OF record_lease_inv [OF assms]] by (auto simp: abs_record)

lemma record_leasable:
  assumes "tracker_inv (cr_tracker c)" and "c' = c\<lparr>cr_tracker := record_lease worker ids (cr_tracker c)\<rparr>"
  shows "leasable env c' worker class = leasable env c worker class"
    and "lease_candidates env c' = lease_candidates env c" and "lease_item env c' = lease_item env c"
  by (simp_all add: assms(2) leasable_def lease_candidates_def lease_item_def fun_eq_iff
      leased_by_other_record [OF assms(1)] Let_def cong: option.case_cong if_cong)

lemma recorded_lease_safe:
  assumes "core_inv blake3 c1" and "tracker_inv (cr_tracker c1)" and "defs_keyed c1"
    and "c' = c1\<lparr>cr_tracker := record_lease worker ids (cr_tracker c1)\<rparr>" and "i \<in> set ids"
    and "i \<in> set (lease_candidates env c1)" and "leasable env c1 worker class i" and "lease_item env c1 i = Some it"
  shows "safe_lease c' worker class it"
proof -
  obtain m w where d: "map_of (cr_defs c1) i = Some (m, w)" "state_of_id (cr_projection c1) i \<noteq> MsCommitted"
    "\<not> is_leased_by_other (cr_tracker c1) i worker" "\<not> is_agentic_launch m" "\<not> is_wait_step m" "\<not> is_policied_step m"
    "ws_executor_class w = class" using assms(7) by (rule leasableD)
  have it: "li_mote it = m" "li_warrant it = w" using lease_item_mote [OF assms(8)] d(1) by simp_all
  have i: "m_id m = i" using assms(3) d(1) by (simp add: defs_keyed_def)
  have inv: "tracker_inv (cr_tracker c')" by (simp add: assms(4) record_lease_inv [OF assms(2)])
  have "(v, i) \<in> holdings c' \<longleftrightarrow> v = worker" for v
    using not_leased_by_other [OF assms(2) d(3)] assms(5) unfolding assms(4) holdings_record by auto
  then have "is_held_by (cr_tracker c') i v \<longleftrightarrow> v = worker" for v
    by (simp add: queries_from_abs [OF inv] holdings_def)
  moreover note candidate_origin [OF assms(1,6) d(1)]
  moreover have "log_state i (clog c1) \<noteq> MsCommitted"
    using d(2) tracks_facts(1) [OF core_invD(3) [OF assms(1)]] by simp
  ultimately show ?thesis
    using d it i by (simp add: safe_lease_def Let_def assms(4) startable_def)
qed

text \<open>
  C13: a poll hands out only work that is safe to run. At most the number asked for, each Mote once,
  of the worker's class, held by this worker alone, not committed, and never one that the thread
  drives itself (an agent launch, a wait, a step with a failure policy). Each is a pending Mote
  whose parents are committed, or one lost with a dead worker that is pure or has its effect
  staged; an effect that must not be repeated is not handed out again once it is staged. When there
  is room, every Mote that passes the checks and has its arguments is handed out. No other worker
  that the registry reports dead holds a lease afterwards.
\<close>

theorem lease_safe:
  assumes "core_inv (le_blake3 env) c" and "tracker_inv (cr_tracker c)" and "defs_keyed c"
    and "serve_lease env now reg worker class n c = ((items, run), c')" and "has_room c'"
  shows "length items \<le> n \<and> distinct (map (\<lambda>it. m_id (li_mote it)) items) \<and>
    (\<forall>it \<in> set items. safe_lease c' worker class it) \<and>
    (card {i \<in> set (lease_candidates env c'). leasable env c' worker class i} \<le> n \<longrightarrow>
      {i \<in> set (lease_candidates env c'). leasable env c' worker class i \<and> lease_item env c' i \<noteq> None} \<subseteq>
      (\<lambda>it. m_id (li_mote it)) ` set items) \<and>
    (status now reg v = Some Dead \<longrightarrow> v \<noteq> worker \<longrightarrow> \<not> is_held_by (cr_tracker c') j v)"
proof -
  from serve_lease_parts [OF assms(4,3)] obtain c1 ids where
    c1: "c1 = reap_dead_workers (le_blake3 env) (status now reg) c"
    and items: "items = List.map_filter (lease_item env c1) (take n (chosen env now reg worker class c1))"
    and c': "c' = c1\<lparr>cr_tracker := record_lease worker ids (cr_tracker c1)\<rparr>"
    and ids: "map (\<lambda>it. m_id (li_mote it)) items = ids"
      "ids = filter (\<lambda>i. lease_item env c1 i \<noteq> None) (take n (chosen env now reg worker class c1))" by metis
  let ?all = "{i \<in> set (lease_candidates env c1). leasable env c1 worker class i}"
  have core: "core_inv (le_blake3 env) c1"
    using advances_inv [OF reap_advances assms(1)] assms(5) by (simp add: c1 c' has_room_def)
  have inv: "tracker_inv (cr_tracker c1)"
    using reap_narrows [of c "le_blake3 env" "status now reg"] assms(2) by (simp add: c1 narrows_def)
  have keyed: "defs_keyed c1" using assms(3) by (simp add: c1 defs_keyed_def)
  note same = record_leasable [OF inv c']
  note sets = chosen_set [of env now reg worker "class" c1]
  have "length items \<le> n" using arg_cong [OF ids(1), of length] ids(2) length_filter_le
    by (metis (no_types, lifting) le_trans length_map length_take min.cobounded2)
  moreover have "distinct (map (\<lambda>it. m_id (li_mote it)) items)"
    unfolding ids using sets(2) by (simp add: distinct_take)
  moreover have "safe_lease c' worker class it" if it: "it \<in> set items" for it
  proof -
    obtain i where i: "i \<in> set (take n (chosen env now reg worker class c1))" "lease_item env c1 i = Some it"
      using it by (auto simp: items mem_map_filter)
    then have "i \<in> ?all" "i \<in> set ids" using sets(1) by (auto simp: ids(2) dest: in_set_takeD)
    then show ?thesis using recorded_lease_safe [OF core inv keyed c'] i(2) by blast
  qed
  moreover have "{i \<in> ?all. lease_item env c1 i \<noteq> None} \<subseteq> (\<lambda>it. m_id (li_mote it)) ` set items" if "card ?all \<le> n"
  proof -
    have "length (chosen env now reg worker class c1) \<le> n"
      using that sets distinct_card [OF sets(2)] by simp
    then have "set ids = {i \<in> ?all. lease_item env c1 i \<noteq> None}" using sets(1) by (auto simp: ids(2))
    then show ?thesis using arg_cong [OF ids(1), of set] by simp
  qed
  moreover have "\<not> is_held_by (cr_tracker c') j v" if "status now reg v = Some Dead" "v \<noteq> worker"
  proof -
    have "(v, j) \<notin> holdings c'"
      using reap_frees [OF assms(2), of "status now reg" v j "le_blake3 env"] that unfolding c' holdings_record c1 by auto
    then show ?thesis
      using record_lease_inv [OF inv, of worker ids] by (simp add: c' queries_from_abs holdings_def)
  qed
  ultimately show ?thesis unfolding same by auto
qed

section \<open>Witnesses\<close>

text \<open>A pure Mote 4 without parents, admitted and registered, and worker 1 polling.\<close>

definition sample_pure :: mote where
  "sample_pure = sample_producer\<lparr>m_id := 4, m_def := sample_def\<lparr>md_nd_class := Pure\<rparr>\<rparr>"

definition sample_admitted :: coord where
  "sample_admitted = (fresh_core [] [4] None)
     \<lparr>cr_projection := register_mote (reg_of 4 None []) pstate_default, cr_defs := [(4, (sample_pure, warrant_default))]\<rparr>"

definition sample_lease_env :: lease_env where
  "sample_lease_env =
     \<lparr>le_rerank_holds = (\<lambda>_ _ _ _. False), le_rerank_context = (\<lambda>_ _ _ _. None), le_observation_args = (\<lambda>_ _ _ _. None),
      le_authored_args = (\<lambda>_. None), le_reorder = (\<lambda>_ _. None), le_decode_verdict = (\<lambda>_. None),
      le_blake3 = (\<lambda>_. 5), le_enc_def = (\<lambda>_. [])\<rparr>"

abbreviation sample_poll :: "(leased_item list \<times> array16 option) \<times> coord" where
  "sample_poll \<equiv> serve_lease sample_lease_env 0 registry_new 1 Bwrap 2 sample_admitted"

lemma sample_admitted_books:
  "cr_defs sample_admitted = [(4, (sample_pure, warrant_default))]" "cr_tracker sample_admitted = lease_tracker_default"
  "cr_store sample_admitted = None" "clog sample_admitted = []"
  "cr_projection sample_admitted = register_mote (reg_of 4 None []) pstate_default"
  by (simp_all add: sample_admitted_def fresh_core_def journal_new_def)

lemma sample_admitted_inv: "core_inv blake3 sample_admitted" "tracker_inv (cr_tracker sample_admitted)" "defs_keyed sample_admitted"
proof -
  have "advances blake3 (\<lambda>_. False) (fresh_core [] [4] None) sample_admitted"
    by (rule register_advances) (simp_all add: sample_admitted_def fresh_core_def)
  then show "core_inv blake3 sample_admitted"
    using advances_inv [OF _ fresh_core_inv] by (simp add: has_room_def sample_admitted_books)
  show "tracker_inv (cr_tracker sample_admitted)" "defs_keyed sample_admitted"
    by (simp_all add: sample_admitted_books defs_keyed_def sample_pure_def)
qed

lemma sample_reap: "reap_dead_workers blake3 status_of sample_admitted = sample_admitted"
  by (simp add: reap_dead_workers_def leasing_workers_def sample_admitted_books bt_keys_def)
    (simp add: lease_tracker_default_def)

lemma sample_candidate: "4 \<in> set (lease_candidates sample_lease_env sample_admitted)"
proof -
  let ?st = "cr_projection sample_admitted"
  note t = tracks_facts [OF core_invD(3) [OF sample_admitted_inv(1)]]
  have inv: "bt_inv (st_motes ?st)" using t(2) by (simp add: children_ok_def)
  have "map di_parents (case mi_declared (moteinfo ?st 4) of Some d \<Rightarrow> [d] | None \<Rightarrow> []) = [[]]"
    by (simp add: sample_admitted_books reg_of_def run_eval)
  then obtain d where "mi_declared (moteinfo ?st 4) = Some d" "di_parents d = []" by (auto split: option.splits)
  moreover have "state_of_id ?st 4 = MsPending"
    by (simp add: sample_admitted_books reg_of_def run_eval state_of_id_def)
  ultimately have "4 \<in> set (gated_ready_set sample_lease_env ?st None)"
    by (auto simp: gated_ready_set_def ready_set_auto_eq ready_with_mem [OF inv] ready_spec_def)
  then show ?thesis
    by (simp add: lease_candidates_def at_least_once_already_staged_def sample_admitted_books sample_pure_def
      mote_dispatches_at_least_once_def sample_producer_def sample_def_def bt_keys_def)
qed

lemma sample_leasable: "leasable sample_lease_env sample_admitted 1 Bwrap 4"
proof -
  have "state_of_id (cr_projection sample_admitted) 4 = MsPending"
    by (simp add: sample_admitted_books reg_of_def run_eval state_of_id_def)
  then show ?thesis
    by (simp add: leasable_def sample_admitted_books sample_pure_def sample_producer_def sample_def_def
      is_agentic_launch_def is_wait_step_def is_skip_guard_def is_policied_step_def has_key_def sample_lease_env_def
      warrant_default_def is_leased_by_other_def) (simp add: lease_tracker_default_def)
qed

lemma sample_item: "lease_item sample_lease_env sample_admitted 4 \<noteq> None"
  by (simp add: lease_item_def sample_admitted_books Let_def is_react_observation_def is_authored_tool_def sample_pure_def
      sample_producer_def sample_def_def)

lemma sample_poll_record:
  "snd sample_poll = sample_admitted\<lparr>cr_tracker := record_lease 1 [4] (cr_tracker sample_admitted)\<rparr>"
  "map (\<lambda>it. m_id (li_mote it)) (fst (fst sample_poll)) = [4]"
proof -
  obtain items run c' where poll: "sample_poll = ((items, run), c')" by (metis prod.exhaust)
  obtain c1 ids where c1: "c1 = reap_dead_workers (le_blake3 sample_lease_env) (status 0 registry_new) sample_admitted"
    and rec: "c' = c1\<lparr>cr_tracker := record_lease 1 ids (cr_tracker c1)\<rparr>"
      "map (\<lambda>it. m_id (li_mote it)) items = ids"
      "ids = filter (\<lambda>i. lease_item sample_lease_env c1 i \<noteq> None) (take 2 (chosen sample_lease_env 0 registry_new 1 Bwrap c1))"
    by (rule serve_lease_parts [OF poll sample_admitted_inv(3)])
  have "c1 = sample_admitted" unfolding c1 by (rule sample_reap)
  note ids = rec [unfolded this]
  have "i = 4" if "leasable sample_lease_env sample_admitted 1 Bwrap i" for i
    using that by (rule leasableD) (simp add: sample_admitted_books split: if_splits)
  then have "set (chosen sample_lease_env 0 registry_new 1 Bwrap sample_admitted) = {4}"
    using sample_candidate sample_leasable unfolding chosen_set by blast
  moreover have "xs = [4]" if "set xs = {4}" "distinct xs" for xs :: "mote_id list"
    using that by (cases xs; cases "tl xs") auto
  ultimately have "chosen sample_lease_env 0 registry_new 1 Bwrap sample_admitted = [4]"
    using chosen_set(2) by blast
  then have "ids = [4]" using sample_item by (simp add: ids(3))
  then show "snd sample_poll = sample_admitted\<lparr>cr_tracker := record_lease 1 [4] (cr_tracker sample_admitted)\<rparr>"
    "map (\<lambda>it. m_id (li_mote it)) (fst (fst sample_poll)) = [4]" using poll ids(1,2) by simp_all
qed

theorem leases_exclusive_witness:
  "is_held_by (cr_tracker (snd sample_poll)) 4 1 \<and> \<not> is_held_by (cr_tracker (snd sample_poll)) 4 2"
proof -
  have "lease_life (snd sample_poll)"
    using life_start [OF sample_admitted_books(2)] sample_admitted_inv(3) by (rule life_poll)
  moreover have one: "is_held_by (cr_tracker (snd sample_poll)) 4 1"
    by (simp add: sample_poll_record sample_admitted_books record_lease_def record_one_def is_held_by_def bt_entry_upd_def)
  ultimately have "\<not> is_held_by (cr_tracker (snd sample_poll)) 4 2"
    using leases_exclusive [of "snd sample_poll" 4 1 2] by auto
  with one show ?thesis by simp
qed

theorem lease_safe_witness: "\<exists>it \<in> set (fst (fst sample_poll)). m_id (li_mote it) = 4 \<and> safe_lease (snd sample_poll) 1 Bwrap it"
proof -
  obtain items run c' where poll: "sample_poll = ((items, run), c')" by (metis prod.exhaust)
  have "has_room c'" using poll sample_poll_record(1) by (simp add: has_room_def sample_admitted_books)
  with lease_safe [OF sample_admitted_inv poll] have "\<forall>it \<in> set items. safe_lease c' 1 Bwrap it" by blast
  moreover have "map (\<lambda>it. m_id (li_mote it)) items = [4]" using poll sample_poll_record(2) by simp
  ultimately show ?thesis using poll by (auto simp: Cons_eq_map_conv map_eq_Cons_conv)
qed

end
