(* ===== verification/Kx_Materializer.thy ===== *)
theory Kx_Materializer
  imports Kx_Coord_Commit Kx_React_Shape
begin

text \<open>
  Topology shapers. A shaper commits a decision that names its children; the children are made by
  code that runs twice: while the journal is folded (\<open>crates/kx-projection/src/materializer.rs\<close>,
  \<open>child_resolver.rs\<close>, \<open>mote_def_registry.rs\<close>) and when the live coordinator commits the shaper
  (\<open>crates/kx-coordinator/src/materialize.rs\<close>). The two have to make the same children, or a
  recovered run diverges from the live one.
\<close>

section \<open>Decisions (kx-mote/src/topology.rs)\<close>

record child_descriptor =
  chd_role_id :: role_id
  chd_logic_ref :: logic_ref
  chd_nd_class :: nd_class
  chd_effect_pattern :: effect_pattern
  chd_intent :: config_val

record topology_decision =
  td_children :: "child_descriptor list"

text \<open>The bincode codecs and the error texts the code formats are parameters.\<close>

record topology_env =
  te_codec :: codec
  te_encode_decision :: "topology_decision \<Rightarrow> bytes"
  te_decode_decision :: "bytes \<Rightarrow> (rstring, topology_decision \<times> nat) result"
  te_decode_warrant :: "bytes \<Rightarrow> (rstring, warrant_spec \<times> nat) result"
  te_debug_absent :: "content_ref \<Rightarrow> rstring"
  te_display_narrowing :: "narrowing_error \<Rightarrow> rstring"

definition topology_encode :: "topology_env \<Rightarrow> topology_decision \<Rightarrow> bytes" where
  "topology_encode env d = te_encode_decision env d"

definition topology_hash :: "topology_env \<Rightarrow> topology_decision \<Rightarrow> array32" where
  "topology_hash env d = cd_blake3 (te_codec env) (te_encode_decision env d)"

definition topology_decode :: "topology_env \<Rightarrow> bytes \<Rightarrow> (rstring, topology_decision) result" where
  "topology_decode env bs = and_then (te_decode_decision env bs) (\<lambda>(td, _). Inr td)"

section \<open>Definitions and the child resolver\<close>

type_synonym mote_def_registry = "(mote_def_hash, mote_def) btree"

definition def_registry_register :: "codec \<Rightarrow> mote_def \<Rightarrow> mote_def_registry \<Rightarrow> mote_def_registry" where
  "def_registry_register cd d reg = bt_insert (mote_def_hash_of (cd_blake3 cd) (cd_enc_def cd) d) d reg"

definition def_registry_get :: "mote_def_registry \<Rightarrow> mote_def_hash \<Rightarrow> mote_def option" where
  "def_registry_get reg h = map_of reg h"

type_synonym child_resolver = "mote_def \<Rightarrow> child_descriptor \<Rightarrow> mote_def"

definition inherit_resolve :: child_resolver where
  "inherit_resolve shaper d =
     (let config = md_config_subset shaper;
          config_subset = (if chd_intent d \<noteq> [] then bt_insert PROMPT_KEY (chd_intent d) config else config)
      in \<lparr>md_logic_ref = chd_logic_ref d, md_model_id = md_model_id shaper,
          md_prompt_template_hash = md_prompt_template_hash shaper, md_tool_contract = md_tool_contract shaper,
          md_nd_class = chd_nd_class d, md_config_subset = config_subset, md_effect_pattern = chd_effect_pattern d,
          md_critic_for = None, md_is_topology_shaper = False, md_inference_params = md_inference_params shaper,
          md_critic_check = None, md_schema_version = MOTE_DEF_SCHEMA_VERSION\<rparr>)"

section \<open>Materialization during the fold\<close>

text \<open>The index is cut to 32 bits.\<close>

definition child_graph_position :: "mote_id \<Rightarrow> nat \<Rightarrow> graph_position" where
  "child_graph_position shaper_mote_id index = bytes32 shaper_mote_id @ le_bytes 4 (of_nat index :: u32)"

definition derive_child_identity ::
  "codec \<Rightarrow> mote_id \<Rightarrow> mote_def \<Rightarrow> content_ref \<Rightarrow> child_descriptor \<Rightarrow> nat \<Rightarrow> child_resolver \<Rightarrow>
     mote_id \<times> mote_def_hash \<times> nd_class \<times> effect_pattern"
where
  "derive_child_identity cd shaper_mote_id shaper_def shaper_result_ref descriptor index resolver =
     (let child_def = resolver shaper_def descriptor;
          child_def_hash = mote_def_hash_of (cd_blake3 cd) (cd_enc_def cd) child_def;
          child_input_data_id = cd_blake3 cd (bytes32 shaper_result_ref)
      in (derive_mote_id (cd_blake3 cd) child_def_hash child_input_data_id (child_graph_position shaper_mote_id index),
          child_def_hash, md_nd_class child_def, md_effect_pattern child_def))"

definition derive_child_register_mote ::
  "codec \<Rightarrow> mote_id \<Rightarrow> mote_def \<Rightarrow> content_ref \<Rightarrow> child_descriptor \<Rightarrow> nat \<Rightarrow> child_resolver \<Rightarrow> content_ref \<Rightarrow>
     register_mote_req"
where
  "derive_child_register_mote cd shaper_mote_id shaper_def shaper_result_ref descriptor index resolver child_warrant_ref =
     (let child_def = resolver shaper_def descriptor;
          child_def_hash = mote_def_hash_of (cd_blake3 cd) (cd_enc_def cd) child_def;
          child_input_data_id = cd_blake3 cd (bytes32 shaper_result_ref)
      in \<lparr>rg_mote_id = derive_mote_id (cd_blake3 cd) child_def_hash child_input_data_id
            (child_graph_position shaper_mote_id index),
          rg_nd_class = md_nd_class child_def, rg_effect_pattern = md_effect_pattern child_def,
          rg_critic_for = None, rg_is_topology_shaper = False,
          rg_parents = [\<lparr>pr_parent_id = shaper_mote_id, pr_edge = edge_control\<rparr>],
          rg_warrant_ref = child_warrant_ref\<rparr>)"

fun materialize_children ::
  "topology_env \<Rightarrow> role_registry \<Rightarrow> child_resolver \<Rightarrow> mote_id \<Rightarrow> mote_def \<Rightarrow> content_ref \<Rightarrow> warrant_spec \<Rightarrow> nat \<Rightarrow>
     child_descriptor list \<Rightarrow> (projection_error, register_mote_req list) result"
where
  "materialize_children env roles resolver sid sdef rref w index [] = Inr []"
| "materialize_children env roles resolver sid sdef rref w index (d # ds) =
     and_then (ok_or (role_resolve roles (chd_role_id d)) (RoleNotRegistered (chd_role_id d) index)) (\<lambda>role.
     and_then (map_err (\<lambda>e. NarrowingFailed index (te_display_narrowing env e)) (intersect w role)) (\<lambda>child_warrant.
     and_then (materialize_children env roles resolver sid sdef rref w (Suc index) ds) (\<lambda>rest.
       Inr (derive_child_register_mote (te_codec env) sid sdef rref d index resolver (wref (te_codec env) child_warrant)
         # rest))))"

definition try_materialize ::
  "topology_env \<Rightarrow> content_store \<Rightarrow> mote_def_registry \<Rightarrow> role_registry \<Rightarrow> child_resolver \<Rightarrow> materializer"
where
  "try_materialize env store defs roles resolver sid sdef_hash rref warrant_ref =
     (case def_registry_get defs sdef_hash of
        None \<Rightarrow> Inr None
      | Some sdef \<Rightarrow>
          if \<not> md_is_topology_shaper sdef then Inr None
          else
            and_then (ok_or (store_get store rref) (ContentStoreFetch rref (te_debug_absent env rref))) (\<lambda>payload.
            and_then (map_err (TopologyDecodeFailed rref) (and_then (te_decode_decision env payload) (\<lambda>(td, _). Inr td))) (\<lambda>decision.
            and_then (ok_or (store_get store warrant_ref)
              (WarrantStoreFetch warrant_ref (te_debug_absent env warrant_ref))) (\<lambda>warrant_payload.
            and_then (map_err (WarrantDecodeFailed warrant_ref)
              (and_then (te_decode_warrant env warrant_payload) (\<lambda>(w, _). Inr w))) (\<lambda>shaper_warrant.
            and_then (materialize_children env roles resolver sid sdef rref shaper_warrant 0 (td_children decision)) (\<lambda>children.
              Inr (Some children)))))))"

section \<open>Materialization by the coordinator\<close>

record shaper_child =
  sch_register :: register_mote_req
  sch_mote :: mote
  sch_warrant :: warrant_spec

text \<open>The formatted messages of the code, by what they report.\<close>

datatype derive_error =
    FetchDecision content_ref
  | DecodeDecision rstring
  | RoleMissing role_id
  | NarrowingChild nat narrowing_error

definition shaper_child_of ::
  "codec \<Rightarrow> mote_id \<Rightarrow> mote_def \<Rightarrow> content_ref \<Rightarrow> child_descriptor \<Rightarrow> nat \<Rightarrow> warrant_spec \<Rightarrow> shaper_child"
where
  "shaper_child_of cd shaper_mote_id shaper_def shaper_result_ref descriptor index child_warrant =
     (let child_warrant_ref = wref cd child_warrant;
          child_def = inherit_resolve shaper_def descriptor;
          child_input_data_id = content_ref_of (cd_blake3 cd) (bytes32 shaper_result_ref);
          gp = bytes32 shaper_mote_id @ le_bytes 4 (of_nat index :: u32);
          parents = [\<lparr>pr_parent_id = shaper_mote_id, pr_edge = \<lparr>em_kind = Control, em_non_cascade = False\<rparr>\<rparr>];
          m = mote_new (cd_blake3 cd) (cd_enc_def cd) child_def child_input_data_id gp parents
      in \<lparr>sch_register = \<lparr>rg_mote_id = m_id m, rg_nd_class = md_nd_class child_def,
            rg_effect_pattern = md_effect_pattern child_def, rg_critic_for = None, rg_is_topology_shaper = False,
            rg_parents = parents, rg_warrant_ref = child_warrant_ref\<rparr>,
          sch_mote = m, sch_warrant = child_warrant\<rparr>)"

fun shaper_children ::
  "topology_env \<Rightarrow> role_registry \<Rightarrow> mote_id \<Rightarrow> mote_def \<Rightarrow> content_ref \<Rightarrow> warrant_spec \<Rightarrow> nat \<Rightarrow>
     child_descriptor list \<Rightarrow> (derive_error, shaper_child list) result"
where
  "shaper_children env roles sid sdef rref w index [] = Inr []"
| "shaper_children env roles sid sdef rref w index (d # ds) =
     and_then (ok_or (role_resolve roles (chd_role_id d)) (RoleMissing (chd_role_id d))) (\<lambda>role.
     and_then (map_err (NarrowingChild index) (intersect w role)) (\<lambda>child_warrant.
     and_then (shaper_children env roles sid sdef rref w (Suc index) ds) (\<lambda>rest.
       Inr (shaper_child_of (te_codec env) sid sdef rref d index child_warrant # rest))))"

definition derive_shaper_children ::
  "topology_env \<Rightarrow> content_store \<Rightarrow> role_registry \<Rightarrow> mote_id \<Rightarrow> mote_def \<Rightarrow> content_ref \<Rightarrow> warrant_spec \<Rightarrow>
     (derive_error, shaper_child list) result"
where
  "derive_shaper_children env store roles sid sdef rref w =
     (if \<not> md_is_topology_shaper sdef then Inr []
      else
        and_then (ok_or (store_get store rref) (FetchDecision rref)) (\<lambda>payload.
        and_then (map_err DecodeDecision (topology_decode env payload)) (\<lambda>decision.
          shaper_children env roles sid sdef rref w 0 (td_children decision))))"

text \<open>What group commit is given: the children, or nothing when deriving them failed and was logged.\<close>

definition coordinator_children :: "topology_env \<Rightarrow> content_store \<Rightarrow> role_registry \<Rightarrow> derive_children" where
  "coordinator_children env store roles sid sdef rref w =
     (case derive_shaper_children env store roles sid sdef rref w of
        Inl _ \<Rightarrow> None
      | Inr children \<Rightarrow> Some (map (\<lambda>c. (sch_mote c, sch_warrant c, sch_register c)) children))"

text \<open>The shaper of a re-plan round, rebuilt from its record and checked against it.\<close>

datatype rebuild_error =
    FetchPrompt content_ref
  | PromptNotUtf8
  | FetchWarrant content_ref
  | DecodeWarrant rstring
  | WarrantRefMismatch
  | ShaperIdMismatch mote_id mote_id u32

definition rebuild_replan_shaper ::
  "topology_env \<Rightarrow> content_store \<Rightarrow> replan_round_record \<Rightarrow> (rebuild_error, mote \<times> warrant_spec) result"
where
  "rebuild_replan_shaper env store record =
     and_then (ok_or (store_get store (rp_corrected_prompt_ref record)) (FetchPrompt (rp_corrected_prompt_ref record))) (\<lambda>prompt.
     and_then (if valid_utf8 prompt then Inr () else Inl PromptNotUtf8) (\<lambda>_.
     and_then (ok_or (store_get store (rp_warrant_ref record)) (FetchWarrant (rp_warrant_ref record))) (\<lambda>warrant_bytes.
     and_then (map_err DecodeWarrant (decode_warrant (te_decode_warrant env) warrant_bytes)) (\<lambda>warrant.
     if wref (te_codec env) warrant \<noteq> rp_warrant_ref record then Inl WarrantRefMismatch
     else
       let m = build_replan_shaper (cd_blake3 (te_codec env)) (cd_enc_def (te_codec env)) (rp_model_id record) prompt
             (rp_round record)
       in if m_id m \<noteq> rp_shaper_mote_id record
          then Inl (ShaperIdMismatch (m_id m) (rp_shaper_mote_id record) (rp_round record))
          else Inr (m, warrant)))))"

section \<open>The two agree\<close>

text \<open>The faults of one, as the other reports them.\<close>

fun same_fault :: "topology_env \<Rightarrow> derive_error \<Rightarrow> projection_error \<Rightarrow> bool" where
  "same_fault env (FetchDecision r) e = (e = ContentStoreFetch r (te_debug_absent env r))"
| "same_fault env (DecodeDecision t) e = (\<exists>r. e = TopologyDecodeFailed r t)"
| "same_fault env (RoleMissing i) e = (\<exists>n. e = RoleNotRegistered i n)"
| "same_fault env (NarrowingChild n x) e = (e = NarrowingFailed n (te_display_narrowing env x))"

fun agree :: "topology_env \<Rightarrow> (derive_error, shaper_child list) result \<Rightarrow> (projection_error, register_mote_req list) result \<Rightarrow> bool"
where
  "agree env (Inr cs) (Inr rs) = (rs = map sch_register cs)"
| "agree env (Inl e) (Inl e') = same_fault env e e'"
| "agree env _ _ = False"

lemma child_register: "sch_register (shaper_child_of cd sid sdef rref d index w) =
    derive_child_register_mote cd sid sdef rref d index inherit_resolve (wref cd w)"
  by (simp add: shaper_child_of_def derive_child_register_mote_def Let_def mote_new_def content_ref_of_def
      child_graph_position_def edge_control_def)

lemma children_agree:
  "agree env (shaper_children env roles sid sdef rref w n ds)
     (materialize_children env roles inherit_resolve sid sdef rref w n ds)"
proof (induction ds arbitrary: n)
  case (Cons d ds)
  show ?case
  proof (cases "role_resolve roles (chd_role_id d)")
    case (Some role)
    show ?thesis
    proof (cases "intersect w role")
      case (Inr cw)
      show ?thesis
        using Cons.IH [of "Suc n"] Some Inr
        by (cases "shaper_children env roles sid sdef rref w (Suc n) ds";
            cases "materialize_children env roles inherit_resolve sid sdef rref w (Suc n) ds")
          (simp_all add: ok_or_def map_err_def and_then_def child_register)
    qed (simp add: Some ok_or_def map_err_def and_then_def)
  qed (simp add: ok_or_def and_then_def)
qed simp

lemma child_facts:
  assumes "shaper_children env roles sid sdef rref w n ds = Inr cs" and "c \<in> set cs"
  shows "m_id (sch_mote c) = rg_mote_id (sch_register c) \<and> warrant_le (sch_warrant c) w \<and>
    rg_warrant_ref (sch_register c) = wref (te_codec env) (sch_warrant c) \<and>
    rg_parents (sch_register c) = [\<lparr>pr_parent_id = sid, pr_edge = edge_control\<rparr>] \<and>
    m_parents (sch_mote c) = rg_parents (sch_register c) \<and> \<not> md_is_topology_shaper (m_def (sch_mote c))"
  using assms
proof (induction ds arbitrary: n cs)
  case (Cons d ds)
  then obtain role cw rest where "role_resolve roles (chd_role_id d) = Some role" "intersect w role = Inr cw"
    "shaper_children env roles sid sdef rref w (Suc n) ds = Inr rest"
    "cs = shaper_child_of (te_codec env) sid sdef rref d n cw # rest"
    by (auto simp: and_then_def ok_or_def map_err_def split: option.splits sum.splits)
  then show ?case
    using Cons intersect_le_parent
    by (auto simp: shaper_child_of_def Let_def mote_new_def edge_control_def inherit_resolve_def)
qed simp

text \<open>Admitting the children registers them in order and records each of them.\<close>

lemma admit_books:
  "cr_projection (admit cd m w reg c) = register_mote reg (cr_projection c)"
  "cr_submitted (admit cd m w reg c) = bs_insert (m_id m) (cr_submitted c)"
  by (simp_all add: admit_def persist_def_def)

lemma admit_all_books:
  "cr_projection (fold (\<lambda>(m, w, reg). admit cd m w reg) xs c) = fold register_mote (map (snd \<circ> snd) xs) (cr_projection c)"
  "set (cr_submitted (fold (\<lambda>(m, w, reg). admit cd m w reg) xs c)) = m_id ` fst ` set xs \<union> set (cr_submitted c)"
  by (induction xs arbitrary: c) (auto simp: admit_books)

lemma committed_result:
  assumes "fold_committed_entry None e st = (Inr (), st')"
  shows "result_ref_of st' (c_mote_id e) = Some (c_result_ref e)"
  using assms
  by (auto simp: fold_committed_entry_def Let_def result_ref_of_def committed_of_info committed_info_of_def split: if_splits)

lemma fold_committed_with:
  assumes "fold_committed_entry None e st = (Inr (), st')"
  shows "fold_committed_entry (Some mat) e st =
    (case mat (c_mote_id e) (c_mote_def_hash e) (c_result_ref e) (c_warrant_ref e) of
       Inl err \<Rightarrow> (Inl err, st')
     | Inr None \<Rightarrow> (Inr (), st')
     | Inr (Some children) \<Rightarrow> (Inr (), fold register_mote children st'))"
  using assms by (auto simp: fold_committed_entry_def Let_def split: if_splits)

lemma settle_shaper:
  assumes "cr_store c = Some s" and "map_of (cr_defs c) i = Some (m, w)" and "result_ref_of (cr_projection c) i = Some r"
  shows "cr_projection (settle_commit cd (Some derive) i c) =
      (if md_is_topology_shaper (m_def m)
       then fold register_mote (map (snd \<circ> snd) (case derive i (m_def m) r w of None \<Rightarrow> [] | Some xs \<Rightarrow> xs)) (cr_projection c)
       else cr_projection c)"
    and "md_is_topology_shaper (m_def m) \<Longrightarrow> derive i (m_def m) r w = Some xs \<Longrightarrow>
      m_id ` fst ` set xs \<subseteq> set (cr_submitted (settle_commit cd (Some derive) i c))"
  using assms
  by (simp_all add: settle_commit_def Let_def materialize_committed_shaper_def admit_all_books split: option.splits)

lemma materializer_eq:
  assumes "def_registry_get defs h = Some d" and "store_get s wr = Some wb" and "te_decode_warrant env wb = Inr (w, k)"
  shows "try_materialize env s defs roles inherit_resolve i h r wr =
    (if \<not> md_is_topology_shaper d then Inr None
     else and_then (ok_or (store_get s r) (ContentStoreFetch r (te_debug_absent env r))) (\<lambda>payload.
          and_then (map_err (TopologyDecodeFailed r) (topology_decode env payload)) (\<lambda>decision.
          and_then (materialize_children env roles inherit_resolve i d r w 0 (td_children decision)) (\<lambda>children.
            Inr (Some children)))))"
  using assms
  by (auto simp: try_materialize_def topology_decode_def ok_or_def and_then_def map_err_def split: option.splits sum.splits)

text \<open>With the same decision, definition and warrant at hand, the fold makes what the coordinator makes.\<close>

lemma materializers_agree:
  assumes "def_registry_get defs h = Some d" and "store_get s wr = Some wb" and "te_decode_warrant env wb = Inr (w, k)"
    and "md_is_topology_shaper d"
  obtains (ok) cs where "derive_shaper_children env s roles i d r w = Inr cs"
      "try_materialize env s defs roles inherit_resolve i h r wr = Inr (Some (map sch_register cs))"
      "\<And>ch. ch \<in> set cs \<Longrightarrow> warrant_le (sch_warrant ch) w"
  | (fault) err err' where "derive_shaper_children env s roles i d r w = Inl err"
      "try_materialize env s defs roles inherit_resolve i h r wr = Inl err'" "same_fault env err err'"
proof (cases "store_get s r")
  case None
  then show thesis
    using assms(4) materializer_eq [OF assms(1-3)]
    by (intro fault [of "FetchDecision r"]) (simp_all add: derive_shaper_children_def ok_or_def and_then_def)
next
  case (Some bs)
  note eqs = materializer_eq [OF assms(1-3), of roles i r] assms(4) Some
  show thesis
  proof (cases "topology_decode env bs")
    case (Inl t)
    then show thesis
      using eqs by (intro fault [of "DecodeDecision t" "TopologyDecodeFailed r t"])
        (auto simp: derive_shaper_children_def ok_or_def and_then_def map_err_def)
  next
    case (Inr td)
    have *: "derive_shaper_children env s roles i d r w = shaper_children env roles i d r w 0 (td_children td)"
      "try_materialize env s defs roles inherit_resolve i h r wr =
        and_then (materialize_children env roles inherit_resolve i d r w 0 (td_children td)) (\<lambda>cs. Inr (Some cs))"
      using eqs Inr by (simp_all add: derive_shaper_children_def ok_or_def and_then_def map_err_def)
    show thesis
      using children_agree [of env roles i d r w 0 "td_children td"] child_facts [of env roles i d r w 0 "td_children td"] ok fault *
      by (cases "shaper_children env roles i d r w 0 (td_children td)";
          cases "materialize_children env roles inherit_resolve i d r w 0 (td_children td)")
        (auto simp: and_then_def)
  qed
qed

text \<open>
  C14: a recovered run makes the children the live run made. Take a committed Mote whose definition
  is registered and whose warrant is stored, folded by the live thread without a materializer and
  then settled. When its children can be derived, folding the commit with the projection's
  materializer gives exactly the projection of the live thread; each child is admitted and its
  warrant permits no more than the shaper's. When they cannot, the live thread registers nothing
  and the fold reports the corresponding fault after applying the commit.
\<close>

theorem shaper_replay_is_live:
  fixes env :: topology_env and c :: coord and s :: content_store and roles :: role_registry
    and defs :: mote_def_registry and e :: committed_entry and st :: pstate
  defines "live \<equiv> settle_commit (te_codec env) (Some (coordinator_children env s roles)) (c_mote_id e) c"
    and "replay \<equiv> fold_entry (Some (try_materialize env s defs roles inherit_resolve)) (Committed e) st"
  assumes "fold_entry None (Committed e) st = (Inr prev, cr_projection c)"
    and "cr_store c = Some s" and "map_of (cr_defs c) (c_mote_id e) = Some (m, w)"
    and "def_registry_get defs (c_mote_def_hash e) = Some (m_def m)"
    and "store_get s (c_warrant_ref e) = Some wb" and "te_decode_warrant env wb = Inr (w, k)"
  shows "case derive_shaper_children env s roles (c_mote_id e) (m_def m) (c_result_ref e) w of
      Inr cs \<Rightarrow> replay = (Inr prev, cr_projection live) \<and>
        (\<forall>ch \<in> set cs. m_id (sch_mote ch) \<in> set (cr_submitted live) \<and> warrant_le (sch_warrant ch) w)
    | Inl err \<Rightarrow> cr_projection live = cr_projection c \<and>
        (\<exists>err'. same_fault env err err' \<and> replay = (Inl err', cr_projection c))"
proof -
  have fold: "fold_committed_entry None e st = (Inr (), cr_projection c)" and prev: "prev = st_last_seq st"
    using assms(3) by (auto simp: fold_entry_def Let_def and_then_def split: prod.splits sum.splits)
  note replay = fold_committed_with [OF fold, of "try_materialize env s defs roles inherit_resolve"]
  note settle = settle_shaper [OF assms(4,5) committed_result [OF fold],
    where cd = "te_codec env" and derive = "coordinator_children env s roles"]
  show ?thesis
  proof (cases "md_is_topology_shaper (m_def m)")
    case False
    then show ?thesis
      using replay settle(1) materializer_eq [OF assms(6-8), of roles "c_mote_id e" "c_result_ref e"]
      by (simp add: derive_shaper_children_def live_def replay_def fold_entry_def prev and_then_def)
  next
    case True
    from assms(6-8) True show ?thesis
    proof (cases rule: materializers_agree [where i = "c_mote_id e" and r = "c_result_ref e" and roles = roles])
      case (ok cs)
      have kids: "coordinator_children env s roles (c_mote_id e) (m_def m) (c_result_ref e) w =
          Some (map (\<lambda>c. (sch_mote c, sch_warrant c, sch_register c)) cs)"
        using ok(1) by (simp add: coordinator_children_def)
      have "m_id ` sch_mote ` set cs \<subseteq> set (cr_submitted live)"
        using settle(2) [OF True kids] by (simp add: live_def image_image)
      moreover have "replay = (Inr prev, cr_projection live)"
        using replay settle(1) True kids ok(2)
        by (simp add: live_def replay_def fold_entry_def prev and_then_def comp_def)
      ultimately show ?thesis using ok(1,3) by auto
    next
      case (fault err err')
      then show ?thesis
        using replay settle(1) True
        by (auto simp: live_def replay_def fold_entry_def and_then_def coordinator_children_def)
    qed
  qed
qed

section \<open>Witness\<close>

text \<open>Shaper 1 commits a decision with one child in the role \<open>r\<close>; its warrant is stored under 3.\<close>

definition sample_shaper :: mote where
  "sample_shaper = sample_producer\<lparr>m_def := sample_def\<lparr>md_nd_class := ReadOnlyNondet, md_is_topology_shaper := True\<rparr>\<rparr>"

definition sample_decision :: topology_decision where
  "sample_decision = \<lparr>td_children = [\<lparr>chd_role_id = [114], chd_logic_ref = 4, chd_nd_class = Pure,
     chd_effect_pattern = IdempotentByConstruction, chd_intent = [9]\<rparr>]\<rparr>"

definition sample_topology :: topology_env where
  "sample_topology = \<lparr>te_codec = sample_codec, te_encode_decision = (\<lambda>_. [1]),
     te_decode_decision = (\<lambda>_. Inr (sample_decision, 1)), te_decode_warrant = (\<lambda>_. Inr (sample_parent, 1)),
     te_debug_absent = (\<lambda>_. []), te_display_narrowing = (\<lambda>_. [])\<rparr>"

definition sample_shaper_commit :: committed_entry where
  "sample_shaper_commit = \<lparr>c_mote_id = 1, c_idempotency_key = 1, c_seq = 1, c_nondeterminism = ReadOnlyNondet,
     c_result_ref = 7, c_parents = [], c_warrant_ref = 3, c_mote_def_hash = 8\<rparr>"

abbreviation sample_blobs :: content_store where
  "sample_blobs \<equiv> [7 \<mapsto> [1], 3 \<mapsto> [2]]"

definition sample_committed :: coord where
  "sample_committed = (fresh_core [] [1] (Some sample_blobs))
     \<lparr>cr_projection := snd (fold_entry None (Committed sample_shaper_commit) pstate_default),
      cr_defs := [(1, (sample_shaper, sample_parent))]\<rparr>"

lemma sample_narrowing: "intersect sample_parent sample_role = Inr (narrowed (ro_spec sample_role) sample_parent)"
  using sample_role_fits by (simp add: intersect_Inr_iff)

theorem shaper_replay_is_live_witness:
  "let live = settle_commit sample_codec (Some (coordinator_children sample_topology sample_blobs [([114], sample_role)])) 1
         sample_committed
   in fold_entry (Some (try_materialize sample_topology sample_blobs [(8, m_def sample_shaper)] [([114], sample_role)]
        inherit_resolve)) (Committed sample_shaper_commit) pstate_default = (Inr 0, cr_projection live) \<and>
      5 \<in> set (cr_submitted live)"
proof -
  let ?roles = "[([114], sample_role)]"
  have derive: "derive_shaper_children sample_topology sample_blobs ?roles 1 (m_def sample_shaper) 7 sample_parent =
      Inr [shaper_child_of sample_codec 1 (m_def sample_shaper) 7 (hd (td_children sample_decision)) 0
        (narrowed (ro_spec sample_role) sample_parent)]"
    by (simp add: derive_shaper_children_def sample_shaper_def store_get_def topology_decode_def sample_topology_def
      sample_decision_def role_resolve_def sample_narrowing ok_or_def and_then_def map_err_def)
  have id: "m_id (sch_mote (shaper_child_of sample_codec i d r x n w)) = 5" for i d r x n w
    by (simp add: shaper_child_of_def Let_def mote_new_def derive_mote_id_def sample_codec_def)
  have fold: "fold_entry None (Committed sample_shaper_commit) pstate_default = (Inr 0, cr_projection sample_committed)"
    by (simp add: sample_committed_def fold_entry_def fold_committed_entry_def Let_def and_then_def pstate_default_def
      moteinfo_def mote_info_default_def)
  show ?thesis
    using shaper_replay_is_live [where env = sample_topology and s = sample_blobs and roles = ?roles and e = sample_shaper_commit
        and c = sample_committed and st = pstate_default and prev = 0 and m = sample_shaper and w = sample_parent
        and defs = "[(8, m_def sample_shaper)]" and wb = "[2]" and k = 1] fold derive
    by (simp add: sample_shaper_commit_def sample_committed_def fresh_core_def def_registry_get_def store_get_def
      id Let_def) (simp add: sample_topology_def)
qed

end
