(* ===== verification/Spec2Isabelle.thy ===== *)
theory Spec2Isabelle
  imports Kx_Journal_Roundtrip Kx_Journal_Watch Kx_Projection_Ready Kx_Native_Critic Kx_Coord_Repudiate
    Kx_Coord_Ops_Properties Kx_Coord_Dispatch_Properties Kx_Materializer
begin

text \<open>
  A verification library for the kortecx runtime (the Rust workspace under \<open>src/crates\<close>).

  \<^bold>\<open>The program.\<close> Kortecx runs agent workflows as graphs of Motes. A Mote is a unit of work with a
  content-derived identity; it is pure, it only reads a changing world, or it changes the world.
  Everything that happened is a fact in an append-only journal. A projection folds the journal into
  the state of each Mote and says which Motes may run. An executor runs a Mote under a warrant,
  reaches the world only through a capability broker, and records what it did. A coordinator is the
  only writer of the journal when workers are spread over machines: it admits Motes, leases them to
  workers, commits their results in groups, notices dead workers and repudiates results that turned
  out wrong. Crash recovery is a replay of the journal.

  \<^bold>\<open>Theories and the code they model.\<close>
  \<^item> \<open>Kx_Prelude\<close>: machine integers (words of their width), byte strings, the \<open>Result\<close> type, ordered
    maps (\<open>BTreeMap\<close>, behind the locale \<open>ordered_map\<close>) and ordered sets (\<open>BTreeSet\<close>).
  \<^item> \<open>Kx_Mote\<close>, \<open>Kx_Critic_Types\<close>: \<open>kx-mote\<close> and \<open>kx-critic-types\<close>, the identities, definitions, attempt
    states, check specifications and verdicts.
  \<^item> \<open>Kx_Journal_Entry\<close>, \<open>Kx_Journal_Codec\<close>, \<open>Kx_Journal_Roundtrip\<close>: \<open>kx-journal/src/entry.rs\<close>, the
    thirteen kinds of entry, their encoder and decoder, and the round trip in both directions.
  \<^item> \<open>Kx_Journal_Log\<close>, \<open>Kx_Journal_Watch\<close>: \<open>in_memory.rs\<close>, \<open>lib.rs\<close> and \<open>watch.rs\<close>, the log with its
    deduplication (locale \<open>journal_backend\<close>) and the subscription protocol as a step relation.
  \<^item> \<open>Kx_Projection_State\<close>, \<open>_Fold\<close>, \<open>_Laws\<close>, \<open>_Properties\<close>, \<open>_Ready\<close>: \<open>kx-projection\<close>, the folded state
    and its indices, the fold of every kind of entry, the queries, the promotion gate, the ready set
    and the cascade walk. \<open>log_state\<close> is the abstract specification: the state of a Mote read off the
    log, which the incremental fold is shown to compute.
  \<^item> \<open>Kx_Warrant\<close>: \<open>kx-warrant\<close>, narrowing as the meet of an order (locale \<open>narrowing\<close>).
  \<^item> \<open>Kx_Refusal\<close>: \<open>kx-refusal\<close>, the submission checks R-1 to R-15 and the three gates over them.
  \<^item> \<open>Kx_Content\<close>, \<open>Kx_Capability\<close>, \<open>Kx_Resource\<close>: the content store (locale \<open>store_port\<close>), the broker
    and the resource manager.
  \<^item> \<open>Kx_Commit_Protocol\<close>, \<open>Kx_Lifecycle\<close>, \<open>Kx_Executor_Properties\<close>, \<open>Kx_Executor_Claims\<close>: \<open>kx-executor\<close>,
    the commit protocol and the life cycle over any journal (locale \<open>journal_port\<close>), store and broker,
    with failing appends as an explicit schedule of faults.
  \<^item> \<open>Kx_Critic\<close>, \<open>Kx_Native_Critic\<close>: \<open>kx-critic\<close> and the executor's in-process critic.
  \<^item> \<open>Kx_Scheduler\<close>: \<open>kx-scheduler\<close>, placement, submission and the dispatch round.
  \<^item> \<open>Kx_Coord_Registry\<close>, \<open>_Lease\<close>, \<open>_Core\<close>, \<open>_Commit\<close>, \<open>_Repudiate\<close>: \<open>kx-coordinator\<close>, the worker registry
    and placement, the lease tracker, the append-and-fold core of the owner thread, group commit
    and repudiation.
  \<^item> \<open>Kx_Coord_Ops\<close>, \<open>Kx_Coord_Ops_Properties\<close>: more of the owner thread (\<open>state.rs\<close>): staging an effect,
    registering a run, dead letters, reaping dead workers, the approval handshake, the feed of
    commits and the cost counters.
  \<^item> \<open>Kx_React_Shape\<close>: \<open>react_shape.rs\<close> and \<open>replan_shape.rs\<close>, the Motes the coordinator makes itself, with
    the twins of \<open>kx-model-harness/src/workflows.rs\<close>.
  \<^item> \<open>Kx_Coord_Dispatch\<close>, \<open>Kx_Coord_Dispatch_Properties\<close>: \<open>serve_lease\<close> and what it calls, the selection
    of work for a polling worker and the context a leased Mote is handed.
  \<^item> \<open>Kx_Materializer\<close>: \<open>kx-projection/src/materializer.rs\<close>, \<open>child_resolver.rs\<close>, \<open>mote_def_registry.rs\<close>
    and \<open>kx-coordinator/src/materialize.rs\<close>, the children of a topology shaper.

  \<^bold>\<open>How code is modelled.\<close> A struct is a record, an enum a datatype, a function a definition with the
  same branches; an error is a value (\<open>Inl\<close>), and a function that changes state and may fail returns
  its result together with the state it leaves behind, so that partial changes before an error
  show. Integers keep their width. A 32-byte hash is a 256-bit word whose order is the order of its
  bytes. Loops are recursion; the cascade walk carries a termination proof and no definition needs
  fuel. Sequence numbers are 64-bit words: where a lemma needs that they have not run out, its
  hypothesis says so (\<open>has_room\<close>, \<open>fits\<close>).

  \<^bold>\<open>Parameters.\<close> The hash function \<open>blake3\<close>, \<open>bincode\<close> encodings, regular expressions, the JSON parser,
  capabilities, executor backends, the clock, error texts, the validated arguments of a tool call and
  the reordering of retrieved passages are arguments of the definitions that use them. The fold and
  group commit take the derivation of a shaper's children as an argument; \<open>Kx_Materializer\<close> gives it. Assumptions on them are hypotheses of the theorems that need them, such
  as the absence of a collision on named keys.

  \<^bold>\<open>What the theorems show.\<close> The codec reads back what it wrote and refuses what it must. The log only
  grows, is densely numbered and records a deduplicated fact once; a subscriber sees every entry
  once. The projection computes the declarative reading of the log, its indices equal a rebuild, and
  a replay never fails on a well-keyed journal. Warrants only ever narrow, along any chain, down to
  the broker's calls. A submission is accepted exactly under the conditions the checks
  enforce (less than their documentation says for R-1 and R-8b), which are those of the gate for one
  Mote and the coherence of the critics. The content store holds only written bytes under their hash
  and never changes an object. Under any schedule of faults the broker is called for a
  stage-then-commit Mote only after its intent is durable, in a run and in a recovery, and the
  effect stays known to recovery; an at-least-once effect is never repeated by recovery, a success
  of any run is a durable commit, a committed Mote is served without running again, and slots are
  given back except by a pure run whose append fails.
  The scheduler dispatches exactly the ready Motes. The coordinator keeps its projection the fold of
  its journal, the first commit of a Mote wins whatever the batch, and a repudiation reaches exactly
  the committed consumers. The lease tracker with its indices refines a plain relation. A poll hands
  out only work that is safe to run, no Mote is held by two workers, a failure report counts only
  from the holder, an approval is decided once, and the feed of commits misses nothing. The Motes
  the coordinator makes never share an identity, the harness builds the same ones, and a replay
  makes the children of a shaper that the live thread made.

  \<^bold>\<open>Not modelled.\<close> Storage engines, network services, process sandboxes, model inference and the
  command line are input and output against foreign libraries (\<open>sqlite.rs\<close>, \<open>kx-gateway\<close>, \<open>kx-cli\<close>,
  \<open>kx-mcp\<close>, \<open>kx-llamacpp\<close>, \<open>kx-ollama\<close>, the executor's \<open>spawn.rs\<close> and \<open>cgroup_v2.rs\<close>). Retrieval ranks with
  floating point numbers (\<open>kx-dataset\<close> and its backends, \<open>kx-toolscout\<close>). The agent loop of the
  coordinator (\<open>settle_react_rounds\<close> and what it calls in \<open>state.rs\<close>) reads model output as JSON text
  and is left out, as are the tool call parser \<open>kx-toolcall\<close> and the JSON envelopes of apps, bundles and skills. Of the owner thread the durable
  timers and failure policies (\<open>settle_wait_steps\<close>, \<open>settle_policied_steps\<close>, \<open>settle_skip_guards\<close>,
  \<open>fire_due_timers\<close>), submission (\<open>submit_and_capture\<close>) and the command loop are left out.
\<close>

end
